(* ===== verification/Prelude.thy ===== *)
theory Prelude
  imports Complex_Main "HOL-Library.AList" "HOL-Library.List_Lexorder" "HOL-Library.Char_ord"
    "HOL-Library.Multiset"
begin

text \<open>
  Shared vocabulary of the development: JavaScript's insertion-ordered \<open>Map\<close> and \<open>Set\<close>,
  the string operations the gateway uses, decimal printing, results with errors, and the locale
  of event-driven components whose invariant survives every run.

  Strings are HOL strings. A character stands for one UTF-16 code unit; case mapping is that of
  ASCII, and the white space of \<open>trim\<close> and \<open>\s\<close> is the part of JavaScript's that has a code
  below 256.
\<close>

named_theorems js_defs \<open>definitions of the string and collection helpers\<close>
named_theorems inv_intros \<open>preservation lemmas of component invariants\<close>

section \<open>Results\<close>

text \<open>A thrown exception is \<open>Inl\<close>, a normal return is \<open>Inr\<close>.\<close>

type_synonym ('e, 'a) result = "'e + 'a"

definition rbind :: "('e, 'a) result \<Rightarrow> ('a \<Rightarrow> ('e, 'b) result) \<Rightarrow> ('e, 'b) result" where
  "rbind r f = (case r of Inl e \<Rightarrow> Inl e | Inr a \<Rightarrow> f a)"

lemma rbind_simps [simp]: "rbind (Inl e) f = Inl e" "rbind (Inr a) f = f a"
  by (simp_all add: rbind_def)

lemma rbind_assoc: "rbind (rbind r f) g = rbind r (\<lambda>x. rbind (f x) g)"
  by (cases r) simp_all

lemma rbind_eq_Inr: "rbind r f = Inr b \<longleftrightarrow> (\<exists>a. r = Inr a \<and> f a = Inr b)"
  by (cases r) auto

lemma rbind_eq_Inl: "rbind r f = Inl e \<longleftrightarrow> r = Inl e \<or> (\<exists>a. r = Inr a \<and> f a = Inl e)"
  by (cases r) auto

definition guard :: "bool \<Rightarrow> 'e \<Rightarrow> ('e, unit) result" where
  "guard b e = (if b then Inr () else Inl e)"

lemma guard_simps [simp]: "guard True e = Inr ()" "guard False e = Inl e"
  by (simp_all add: guard_def)

lemma guard_eq_Inr [simp]: "guard b e = Inr u \<longleftrightarrow> b"
  by (simp add: guard_def)

lemma guard_eq_Inl [simp]: "guard b e = Inl e' \<longleftrightarrow> \<not> b \<and> e = e'"
  by (simp add: guard_def)

definition require :: "'e \<Rightarrow> 'a option \<Rightarrow> ('e, 'a) result" where
  "require e x = (case x of None \<Rightarrow> Inl e | Some a \<Rightarrow> Inr a)"

lemma require_simps [simp]: "require e None = Inl e" "require e (Some a) = Inr a"
  by (simp_all add: require_def)

lemma require_eq_Inr [simp]: "require e x = Inr a \<longleftrightarrow> x = Some a"
  by (cases x) auto

lemma require_eq_Inl [simp]: "require e x = Inl e' \<longleftrightarrow> x = None \<and> e = e'"
  by (cases x) auto

text \<open>All the errors a computation can throw satisfy a predicate.\<close>

definition only_fails :: "('e \<Rightarrow> bool) \<Rightarrow> ('e, 'a) result \<Rightarrow> bool" where
  "only_fails P r = (case r of Inl e \<Rightarrow> P e | Inr _ \<Rightarrow> True)"

lemma only_fails_Inr [intro, simp]: "only_fails P (Inr a)"
  by (simp add: only_fails_def)

lemma only_fails_Inl [simp]: "only_fails P (Inl e) = P e"
  by (simp add: only_fails_def)

lemma only_fails_rbind [intro]: "only_fails P r \<Longrightarrow> (\<And>a. only_fails P (f a)) \<Longrightarrow> only_fails P (rbind r f)"
  by (cases r) auto

lemma only_fails_guard [simp]: "only_fails P (guard b e) \<longleftrightarrow> b \<or> P e"
  by (cases b) auto

lemma only_fails_require [simp]: "only_fails P (require e x) \<longleftrightarrow> x \<noteq> None \<or> P e"
  by (cases x) auto

lemma only_failsD: "only_fails P r \<Longrightarrow> r = Inl e \<Longrightarrow> P e"
  by simp

text \<open>\<open>rmap\<close> is \<open>Array.prototype.map\<close> with a callback that may throw: the first throw wins.\<close>

fun rmap :: "('a \<Rightarrow> ('e, 'b) result) \<Rightarrow> 'a list \<Rightarrow> ('e, 'b list) result" where
  "rmap f [] = Inr []"
| "rmap f (x # xs) = rbind (f x) (\<lambda>y. rbind (rmap f xs) (\<lambda>ys. Inr (y # ys)))"

lemma rmap_eq_Inr: "rmap f xs = Inr ys \<longleftrightarrow> list_all2 (\<lambda>x y. f x = Inr y) xs ys"
proof (induction xs arbitrary: ys)
  case Nil
  then show ?case by auto
next
  case (Cons x xs)
  then show ?case by (auto simp: rbind_eq_Inr list_all2_Cons1)
qed

lemma only_fails_rmap: "(\<And>x. only_fails P (f x)) \<Longrightarrow> only_fails P (rmap f xs)"
  by (induction xs) (auto intro!: only_fails_rbind)

lemma rmap_Inr_length: "rmap f xs = Inr ys \<Longrightarrow> length ys = length xs"
  by (auto simp: rmap_eq_Inr dest: list_all2_lengthD)

lemma rmap_Inr_set: "rmap f xs = Inr ys \<Longrightarrow> y \<in> set ys \<Longrightarrow> \<exists>x\<in>set xs. f x = Inr y"
  by (auto simp: rmap_eq_Inr list_all2_conv_all_nth in_set_conv_nth) (metis nth_mem)

section \<open>Maps and sets in insertion order\<close>

text \<open>
  \<open>Map.set\<close> overwrites in place or appends; \<open>Map.delete\<close> drops the entry. Iteration is in
  list order. The operations are those of the library's association lists.
\<close>

type_synonym ('k, 'v) omap = "('k \<times> 'v) list"

abbreviation oget :: "('k, 'v) omap \<Rightarrow> 'k \<Rightarrow> 'v option" where
  "oget m k \<equiv> map_of m k"

abbreviation oset :: "'k \<Rightarrow> 'v \<Rightarrow> ('k, 'v) omap \<Rightarrow> ('k, 'v) omap" where
  "oset \<equiv> AList.update"

abbreviation odel :: "'k \<Rightarrow> ('k, 'v) omap \<Rightarrow> ('k, 'v) omap" where
  "odel \<equiv> AList.delete"

abbreviation okeys :: "('k, 'v) omap \<Rightarrow> 'k list" where
  "okeys m \<equiv> map fst m"

abbreviation ohas :: "('k, 'v) omap \<Rightarrow> 'k \<Rightarrow> bool" where
  "ohas m k \<equiv> map_of m k \<noteq> None"

abbreviation owf :: "('k, 'v) omap \<Rightarrow> bool" where
  "owf m \<equiv> distinct (map fst m)"

lemma oget_oset [simp]: "oget (oset k v m) j = (if j = k then Some v else oget m j)"
  by (simp add: update_conv')

lemma oget_odel [simp]: "oget (odel k m) j = (if j = k then None else oget m j)"
  by (simp add: delete_conv')

lemma owf_oset [simp]: "owf m \<Longrightarrow> owf (oset k v m)"
  by (simp add: distinct_update)

lemma owf_odel [simp]: "owf m \<Longrightarrow> owf (odel k m)"
  by (simp add: distinct_delete)

lemma oget_in: "oget m k = Some v \<Longrightarrow> (k, v) \<in> set m"
  by (rule map_of_SomeD)

lemma oget_iff: "owf m \<Longrightarrow> oget m k = Some v \<longleftrightarrow> (k, v) \<in> set m"
  by auto

lemma ohas_keys: "ohas m k \<longleftrightarrow> k \<in> set (okeys m)"
  by (metis dom_map_of_conv_image_fst domIff list.set_map)

lemma odel_absent: "\<not> ohas m k \<Longrightarrow> odel k m = m"
  by (auto simp: AList.delete_eq filter_id_conv map_of_eq_None_iff image_iff)

lemma in_oset: "owf m \<Longrightarrow> (j, w) \<in> set (oset k v m) \<longleftrightarrow> (if j = k then w = v else (j, w) \<in> set m)"
  by (metis map_of_eq_Some_iff oget_oset option.inject owf_oset)

lemma in_odel: "(j, w) \<in> set (odel k m) \<longleftrightarrow> j \<noteq> k \<and> (j, w) \<in> set m"
  by (auto simp: AList.delete_eq)

declare map_of_eq_Some_iff [simp del]

lemma mset_okeys_odel: "owf m \<Longrightarrow> ohas m i \<Longrightarrow> mset (okeys m) = {#i#} + mset (okeys (odel i m))"
proof (induction m)
  case (Cons q m)
  obtain j p where q: "q = (j, p)" by (cases q)
  show ?case
  proof (cases "j = i")
    case True
    with Cons.prems q have "\<not> ohas m i" unfolding ohas_keys by auto
    with True q show ?thesis by (simp add: odel_absent)
  next
    case False
    with Cons q show ?thesis by simp
  qed
qed simp

lemma okeys_oset_new: "\<not> ohas m i \<Longrightarrow> okeys (oset i v m) = okeys m @ [i]"
  by (induction m) (auto split: if_splits)

lemma odel_oset_new: "\<not> ohas m i \<Longrightarrow> okeys (odel i (oset i v m)) = okeys m"
  by (induction m) (auto split: if_splits simp: odel_absent)

lemma length_odel: "owf m \<Longrightarrow> ohas m k \<Longrightarrow> length m = Suc (length (odel k m))"
proof (induction m)
  case Nil
  then show ?case by simp
next
  case (Cons p m)
  then show ?case
  proof (cases "fst p = k")
    case True
    with Cons.prems have "\<not> ohas m k" unfolding ohas_keys by auto
    with True show ?thesis by (cases p) (simp add: odel_absent)
  qed (cases p; auto)
qed

text \<open>\<open>Set.add\<close> keeps the position of an element that is there already.\<close>

definition sadd :: "'a \<Rightarrow> 'a list \<Rightarrow> 'a list" where
  "sadd x xs = (if x \<in> set xs then xs else xs @ [x])"

lemma set_sadd [simp]: "set (sadd x xs) = insert x (set xs)"
  by (auto simp: sadd_def)

lemma distinct_sadd [simp]: "distinct xs \<Longrightarrow> distinct (sadd x xs)"
  by (simp add: sadd_def)

text \<open>Deduplication through a \<open>Set\<close>: the first occurrence stays.\<close>

definition dedup :: "'a list \<Rightarrow> 'a list" where
  "dedup xs = foldl (\<lambda>acc x. sadd x acc) [] xs"

lemma foldl_sadd: "set (foldl (\<lambda>acc x. sadd x acc) ys xs) = set ys \<union> set xs
    \<and> (distinct ys \<longrightarrow> distinct (foldl (\<lambda>acc x. sadd x acc) ys xs))"
  by (induction xs arbitrary: ys) auto

lemma set_dedup [simp]: "set (dedup xs) = set xs"
  by (simp add: dedup_def foldl_sadd)

lemma distinct_dedup [simp]: "distinct (dedup xs)"
  by (simp add: dedup_def foldl_sadd)

text \<open>The contract a component relies on when it keeps its state in a JavaScript \<open>Map\<close>.\<close>

locale js_map =
  fixes get :: "'m \<Rightarrow> 'k \<Rightarrow> 'v option"
    and put :: "'k \<Rightarrow> 'v \<Rightarrow> 'm \<Rightarrow> 'm"
    and del :: "'k \<Rightarrow> 'm \<Rightarrow> 'm"
    and keys :: "'m \<Rightarrow> 'k list"
    and wf :: "'m \<Rightarrow> bool"
  assumes get_put: "get (put k v m) j = (if j = k then Some v else get m j)"
    and get_del: "get (del k m) j = (if j = k then None else get m j)"
    and wf_put: "wf m \<Longrightarrow> wf (put k v m)"
    and wf_del: "wf m \<Longrightarrow> wf (del k m)"
    and keys_get: "k \<in> set (keys m) \<longleftrightarrow> get m k \<noteq> None"
begin

lemma keys_put: "set (keys (put k v m)) = insert k (set (keys m))"
  by (auto simp: keys_get get_put split: if_splits)

lemma keys_del: "set (keys (del k m)) = set (keys m) - {k}"
  by (auto simp: keys_get get_del split: if_splits)

lemma put_twice: "get (put k v (put k w m)) = get (put k v m)"
  by (rule ext) (simp add: get_put)

lemma del_put: "get m k = None \<Longrightarrow> get (del k (put k v m)) = get m"
  by (rule ext) (simp add: get_put get_del)

lemma get_foldl_del: "get (foldl (\<lambda>m k. del k m) m ks) j = (if j \<in> set ks then None else get m j)"
  by (induction ks arbitrary: m) (auto simp: get_del)

lemma wf_foldl_del: "wf m \<Longrightarrow> wf (foldl (\<lambda>m k. del k m) m ks)"
  by (induction ks arbitrary: m) (auto intro: wf_del)

end

interpretation om: js_map map_of AList.update AList.delete "map fst" "\<lambda>m. distinct (map fst m)"
proof unfold_locales
  show "\<And>k m. k \<in> set (map fst m) \<longleftrightarrow> map_of m k \<noteq> None"
    using ohas_keys by metis
qed simp_all

lemma in_foldl_odel: "(j, w) \<in> set (foldl (\<lambda>m k. odel k m) m ks) \<longleftrightarrow> j \<notin> set ks \<and> (j, w) \<in> set m"
  by (induction ks arbitrary: m) (auto simp: in_odel)

lemma foldl_odel_filter: "foldl (\<lambda>m k. odel k m) m ks = filter (\<lambda>(i, p). i \<notin> set ks) m"
  by (induction ks arbitrary: m) (auto simp: AList.delete_eq intro!: filter_cong split: prod.splits)

section \<open>Characters and strings\<close>

definition code :: "char \<Rightarrow> nat" where
  "code c = of_char c"

definition is_upper :: "char \<Rightarrow> bool" where
  [js_defs]: "is_upper c \<longleftrightarrow> 65 \<le> code c \<and> code c \<le> 90"

definition is_lower :: "char \<Rightarrow> bool" where
  [js_defs]: "is_lower c \<longleftrightarrow> 97 \<le> code c \<and> code c \<le> 122"

definition is_digit :: "char \<Rightarrow> bool" where
  [js_defs]: "is_digit c \<longleftrightarrow> 48 \<le> code c \<and> code c \<le> 57"

definition is_alnum :: "char \<Rightarrow> bool" where
  [js_defs]: "is_alnum c \<longleftrightarrow> is_upper c \<or> is_lower c \<or> is_digit c"

definition to_lower :: "char \<Rightarrow> char" where
  [js_defs]: "to_lower c = (if is_upper c then char_of (code c + 32) else c)"

definition to_upper :: "char \<Rightarrow> char" where
  [js_defs]: "to_upper c = (if is_lower c then char_of (code c - 32) else c)"

definition js_space :: "char \<Rightarrow> bool" where
  [js_defs]: "js_space c \<longleftrightarrow> code c \<in> {9, 10, 11, 12, 13, 32, 160}"

definition line_end :: "char \<Rightarrow> bool" where
  [js_defs]: "line_end c \<longleftrightarrow> code c \<in> {10, 13}"

definition rdrop_while :: "('a \<Rightarrow> bool) \<Rightarrow> 'a list \<Rightarrow> 'a list" where
  [js_defs]: "rdrop_while p xs = rev (dropWhile p (rev xs))"

definition js_trim :: "string \<Rightarrow> string" where
  [js_defs]: "js_trim s = rdrop_while js_space (dropWhile js_space s)"

text \<open>\<open>!s.trim()\<close>\<close>

definition blank :: "string \<Rightarrow> bool" where
  [js_defs]: "blank s \<longleftrightarrow> js_trim s = []"

definition starts_with :: "string \<Rightarrow> string \<Rightarrow> bool" where
  [js_defs]: "starts_with s p \<longleftrightarrow> take (length p) s = p"

text \<open>\<open>s.split(c)\<close> for a one-character separator; never the empty list.\<close>

fun split_on :: "char \<Rightarrow> string \<Rightarrow> string list" where
  "split_on d [] = [[]]"
| "split_on d (c # cs) =
     (if c = d then [] # split_on d cs
      else (case split_on d cs of [] \<Rightarrow> [[c]] | w # ws \<Rightarrow> (c # w) # ws))"

text \<open>Joining with a one-character separator, the inverse of \<open>split_on\<close>.\<close>

fun join_on :: "char \<Rightarrow> string list \<Rightarrow> string" where
  "join_on d [] = []"
| "join_on d [w] = w"
| "join_on d (w # v # ws) = w @ d # join_on d (v # ws)"

lemma split_on_nonempty [simp]: "split_on d s \<noteq> []"
  by (induction s) (auto split: list.splits)

lemma split_on_no_sep: "w \<in> set (split_on d s) \<Longrightarrow> d \<notin> set w"
  by (induction s arbitrary: w) (auto split: if_splits list.splits)

lemma join_split: "join_on d (split_on d s) = s"
proof (induction s)
  case Nil
  then show ?case by simp
next
  case (Cons c cs)
  then show ?case
    by (cases "split_on d cs"; cases "tl (split_on d cs)") (auto split: list.splits)
qed

lemma split_on_absent: "d \<notin> set s \<Longrightarrow> split_on d s = [s]"
  by (induction s) auto

lemma set_in_split: "w \<in> set (split_on d s) \<Longrightarrow> set w \<subseteq> set s"
proof (induction s arbitrary: w)
  case (Cons c cs)
  then show ?case
    by (cases "split_on d cs") (fastforce split: if_splits)+
qed simp

lemma dropWhile_id: "(xs = [] \<or> \<not> p (hd xs)) \<Longrightarrow> dropWhile p xs = xs"
  by (cases xs) auto

lemma rdrop_while_id: "(xs = [] \<or> \<not> p (last xs)) \<Longrightarrow> rdrop_while p xs = xs"
  by (simp add: rdrop_while_def dropWhile_id hd_rev rev_swap)

lemma rdrop_while_last: "rdrop_while p xs \<noteq> [] \<Longrightarrow> \<not> p (last (rdrop_while p xs))"
  by (metis hd_dropWhile last_rev rdrop_while_def rev_is_Nil_conv)

lemma set_rdrop_while: "set (rdrop_while p xs) \<subseteq> set xs"
  by (metis rdrop_while_def set_dropWhileD set_rev subsetI)

lemma rdrop_while_prefix: "\<exists>ys. xs = rdrop_while p xs @ ys \<and> (\<forall>y\<in>set ys. p y)"
proof -
  have "rev xs = takeWhile p (rev xs) @ dropWhile p (rev xs)" by simp
  then have "xs = rev (dropWhile p (rev xs)) @ rev (takeWhile p (rev xs))"
    by (metis rev_append rev_rev_ident)
  then show ?thesis
    by (metis rdrop_while_def set_rev set_takeWhileD)
qed

lemma set_js_trim: "set (js_trim s) \<subseteq> set s"
  by (metis js_trim_def set_dropWhileD set_rdrop_while subset_iff)

lemma js_trim_idem [simp]: "js_trim (js_trim s) = js_trim s"
proof -
  let ?d = "dropWhile js_space s"
  have hd: "js_trim s = [] \<or> \<not> js_space (hd (js_trim s))"
  proof (cases "js_trim s = []")
    case False
    obtain ys where ys: "?d = js_trim s @ ys"
      using rdrop_while_prefix by (metis js_trim_def)
    with False have "hd ?d = hd (js_trim s)" and "?d \<noteq> []"
      by (metis hd_append2, auto)
    then show ?thesis by (metis hd_dropWhile)
  qed simp
  then have "dropWhile js_space (js_trim s) = js_trim s"
    by (rule dropWhile_id)
  moreover have "js_trim s = [] \<or> \<not> js_space (last (js_trim s))"
    by (metis js_trim_def rdrop_while_last)
  ultimately show ?thesis
    by (metis js_trim_def rdrop_while_id)
qed

lemma not_blank_trim: "\<not> blank s \<Longrightarrow> \<not> blank (js_trim s)"
  by (simp add: blank_def)

lemma starts_with_append [simp]: "starts_with (p @ s) p"
  by (simp add: starts_with_def)

lemma starts_with_iff: "starts_with s p \<longleftrightarrow> (\<exists>t. s = p @ t)"
  by (metis append_take_drop_id append_eq_conv_conj starts_with_def)

lemma code_inj: "code c = code d \<longleftrightarrow> c = d"
  by (simp add: code_def)

lemma code_char_of: "n < 256 \<Longrightarrow> code (char_of n) = n"
  by (simp add: code_def)

subsection \<open>Decimal numbers\<close>

fun show_nat :: "nat \<Rightarrow> string" where
  "show_nat n = (if n < 10 then [char_of (48 + n)] else show_nat (n div 10) @ [char_of (48 + n mod 10)])"

declare show_nat.simps [simp del]

definition read_nat :: "string \<Rightarrow> nat" where
  "read_nat s = foldl (\<lambda>a c. 10 * a + (code c - 48)) 0 s"

lemma read_show_nat [simp]: "read_nat (show_nat n) = n"
proof (induction n rule: show_nat.induct)
  case (1 n)
  then show ?case
    by (cases "n < 10")
      (simp_all add: show_nat.simps [of n] read_nat_def code_char_of)
qed

lemma show_nat_inj: "show_nat m = show_nat n \<longleftrightarrow> m = n"
  by (metis read_show_nat)

lemma show_nat_digits: "c \<in> set (show_nat n) \<Longrightarrow> is_digit c"
proof (induction n rule: show_nat.induct)
  case (1 n)
  then show ?case
    by (cases "n < 10")
      (auto simp: show_nat.simps [of n] is_digit_def code_char_of)
qed

lemma show_nat_nonempty [simp]: "show_nat n \<noteq> []"
  by (subst show_nat.simps) simp

section \<open>Event-driven components\<close>

text \<open>
  A component is a state and a step function over its events. The locale gives, for every
  component that keeps its invariant in each step, that every run keeps it.
\<close>

locale component =
  fixes step :: "'s \<Rightarrow> 'e \<Rightarrow> 's"
    and inv :: "'s \<Rightarrow> bool"
  assumes step_inv: "inv s \<Longrightarrow> inv (step s e)"
begin

lemma run_inv: "inv s \<Longrightarrow> inv (foldl step s es)"
  by (induction es arbitrary: s) (auto intro: step_inv)

lemma run_prefix_inv: "inv s \<Longrightarrow> inv (foldl step s (take n es))"
  by (rule run_inv)

end

text \<open>A component with a quantity that no step decreases.\<close>

locale monotone_component = component +
  fixes level :: "'s \<Rightarrow> nat"
  assumes step_level: "inv s \<Longrightarrow> level s \<le> level (step s e)"
begin

lemma run_level: "inv s \<Longrightarrow> level s \<le> level (foldl step s es)"
proof (induction es arbitrary: s)
  case (Cons e es)
  then have "level s \<le> level (step s e)" and "inv (step s e)"
    by (auto intro: step_inv step_level)
  with Cons.IH [of "step s e"] show ?case by simp
qed simp

end

section \<open>Runs with outputs\<close>

text \<open>A machine that answers each event with a new state and a list of outputs.\<close>

fun steps :: "('s \<Rightarrow> 'e \<Rightarrow> 's \<times> 'o list) \<Rightarrow> 's \<Rightarrow> 'e list \<Rightarrow> 's \<times> 'o list" where
  "steps f s [] = (s, [])"
| "steps f s (e # es) =
     (case f s e of (s', out) \<Rightarrow> (case steps f s' es of (s'', outs) \<Rightarrow> (s'', out @ outs)))"

lemma steps_append: "steps f s (es @ fs) =
   (fst (steps f (fst (steps f s es)) fs), snd (steps f s es) @ snd (steps f (fst (steps f s es)) fs))"
  by (induction es arbitrary: s) (simp_all add: case_prod_beta)

lemma steps_state: "fst (steps f s es) = foldl (\<lambda>s e. fst (f s e)) s es"
  by (induction es arbitrary: s) (simp_all add: case_prod_beta)

definition ids :: "('a \<Rightarrow> 'k option) \<Rightarrow> 'a list \<Rightarrow> 'k multiset" where
  "ids f xs = mset (List.map_filter f xs)"

lemma map_filter_append: "List.map_filter f (xs @ ys) = List.map_filter f xs @ List.map_filter f ys"
  by (simp add: List.map_filter_def)

lemma map_filter_same: "(\<And>x. x \<in> set xs \<Longrightarrow> f x = g x) \<Longrightarrow> List.map_filter f xs = List.map_filter g xs"
  by (induction xs) (auto simp: List.map_filter_def)

lemma ids_simps [simp]: "ids f [] = {#}" "ids f (x # xs) = (case f x of None \<Rightarrow> {#} | Some k \<Rightarrow> {#k#}) + ids f xs"
  "ids f (xs @ ys) = ids f xs + ids f ys"
  by (auto simp: ids_def List.map_filter_def split: option.splits)

lemma ledger_chain: "b + c = r + p \<Longrightarrow> a + p = e \<Longrightarrow> a + b + c = e + r" for a b c e r p :: "'a multiset"
  by (metis union_assoc union_commute)

lemma ledger_chain_le: "b + c \<subseteq># r + p \<Longrightarrow> a + p \<subseteq># e \<Longrightarrow> a + b + c \<subseteq># e + r" for a b c e r p :: "'a multiset"
proof -
  assume "b + c \<subseteq># r + p" "a + p \<subseteq># e"
  then have "a + (b + c) \<subseteq># a + (r + p)" "r + (a + p) \<subseteq># r + e"
    by (simp_all only: subset_mset.add_le_cancel_left)
  then show ?thesis by (metis subset_mset.order_trans union_assoc union_commute)
qed

text \<open>
  The contract of a component that answers requests later: each step settles exactly the identifiers
  it takes off the table of open ones. Then nothing is lost and nothing is settled twice in any run.
\<close>

locale ledger =
  fixes step :: "'s \<Rightarrow> 'e \<Rightarrow> 's \<times> 'o list"
    and inv :: "'s \<Rightarrow> bool"
    and open_ids :: "'s \<Rightarrow> 'k multiset"
    and asks :: "'e \<Rightarrow> 'k option"
    and settles :: "'o \<Rightarrow> 'k option"
  assumes keeps_inv: "inv s \<Longrightarrow> (case asks e of None \<Rightarrow> True | Some k \<Rightarrow> k \<notin># open_ids s) \<Longrightarrow> inv (fst (step s e))"
    and balance: "inv s \<Longrightarrow> (case asks e of None \<Rightarrow> True | Some k \<Rightarrow> k \<notin># open_ids s) \<Longrightarrow>
      ids settles (snd (step s e)) + open_ids (fst (step s e)) = ids asks [e] + open_ids s"
begin

lemma run_keeps_both:
  assumes "inv s" and "open_ids s = {#}" and "distinct (List.map_filter asks es)"
  shows "inv (fst (steps step s es)) \<and>
    ids settles (snd (steps step s es)) + open_ids (fst (steps step s es)) = ids asks es"
  using assms(3)
proof (induction es rule: rev_induct)
  case Nil
  show ?case using assms(1,2) by simp
next
  case (snoc e es)
  let ?s = "fst (steps step s es)"
  from snoc have IH: "ids settles (snd (steps step s es)) + open_ids ?s = ids asks es" and inv: "inv ?s"
    by (simp_all add: map_filter_append)
  have "set_mset (open_ids ?s) \<subseteq> set (List.map_filter asks es)"
    using IH by (metis ids_def mset_subset_eq_add_right set_mset_mono set_mset_mset)
  moreover have "k \<notin> set (List.map_filter asks es)" if "asks e = Some k" for k
    using snoc.prems that by (auto simp: List.map_filter_def)
  ultimately have fresh: "case asks e of None \<Rightarrow> True | Some k \<Rightarrow> k \<notin># open_ids ?s"
    by (auto split: option.split)
  from keeps_inv [OF inv fresh] ledger_chain [OF balance [OF inv fresh] IH] show ?case
    by (simp add: steps_append case_prod_beta)
qed

lemmas run_balance = run_keeps_both [THEN conjunct2]

end

text \<open>A ledger whose invariant does not depend on fresh identifiers is a component.\<close>

locale steady_ledger = ledger +
  assumes always_keeps_inv: "inv s \<Longrightarrow> inv (fst (step s e))"

sublocale steady_ledger \<subseteq> component "\<lambda>s e. fst (step s e)" inv
  by unfold_locales (rule always_keeps_inv)

text \<open>
  The contract of something that happens at most once: a level that is 0 or 1, rises with every occurrence
  and otherwise only by an outside cause. Then a run has no more occurrences than the level allows.
\<close>

locale single_shot =
  fixes step :: "'s \<Rightarrow> 'e \<Rightarrow> 's \<times> 'o list"
    and inv :: "'s \<Rightarrow> bool"
    and level :: "'s \<Rightarrow> nat"
    and shots :: "'o list \<Rightarrow> nat"
    and outside :: "'e \<Rightarrow> bool"
  assumes shot_inv: "inv s \<Longrightarrow> inv (fst (step s e))"
    and shots_append: "shots (xs @ ys) = shots xs + shots ys"
    and shots_Nil: "shots [] = 0"
    and level_le: "level s \<le> 1"
    and rises: "inv s \<Longrightarrow> shots (snd (step s e)) + level s \<le> level (fst (step s e))"
    and only_then: "inv s \<Longrightarrow> level (fst (step s e)) \<le> shots (snd (step s e)) + level s + of_bool (outside e)"
begin

lemma run_shot_inv: "inv s \<Longrightarrow> inv (fst (steps step s es))"
  by (induction es arbitrary: s) (simp_all add: case_prod_beta shot_inv)

lemma run_rises: "inv s \<Longrightarrow> shots (snd (steps step s es)) + level s \<le> level (fst (steps step s es))"
proof (induction es arbitrary: s)
  case (Cons e es)
  from Cons.IH [OF shot_inv [OF Cons.prems, of e]] rises [OF Cons.prems, of e] show ?case
    by (simp add: case_prod_beta shots_append)
qed (simp add: shots_Nil)

lemma at_most_once: "inv s \<Longrightarrow> shots (snd (steps step s es)) \<le> 1"
  using run_rises [of s es] level_le [of "fst (steps step s es)"] by simp

lemma none_after: "inv s \<Longrightarrow> level s = 1 \<Longrightarrow> shots (snd (steps step s es)) = 0"
  using run_rises [of s es] level_le [of "fst (steps step s es)"] by simp

lemma caused: "inv s \<Longrightarrow> level s = 0 \<Longrightarrow> level (fst (steps step s es)) = 1 \<Longrightarrow> shots (snd (steps step s es)) = 0 \<Longrightarrow> \<exists>e\<in>set es. outside e"
proof (induction es arbitrary: s)
  case (Cons e es)
  let ?s = "fst (step s e)"
  from Cons.prems(4) have n: "shots (snd (step s e)) = 0" "shots (snd (steps step ?s es)) = 0"
    by (simp_all add: case_prod_beta shots_append)
  show ?case
  proof (cases "outside e")
    case False
    with only_then [OF Cons.prems(1), of e] n(1) Cons.prems(2) have "level ?s = 0" by simp
    with Cons.IH [OF shot_inv [OF Cons.prems(1), of e]] Cons.prems(3) n(2) show ?thesis
      by (simp add: case_prod_beta)
  qed simp
qed simp

text \<open>Without an outside cause the level counts the occurrences.\<close>

lemma counted: "inv s \<Longrightarrow> (\<And>e. \<not> outside e) \<Longrightarrow> shots (snd (steps step s es)) + level s = level (fst (steps step s es))"
proof (induction es arbitrary: s)
  case (Cons e es)
  have "shots (snd (step s e)) + level s = level (fst (step s e))"
    using rises [OF Cons.prems(1), of e] only_then [OF Cons.prems(1), of e] Cons.prems(2) [of e] by simp
  with Cons.IH [OF shot_inv [OF Cons.prems(1), of e] Cons.prems(2)] show ?case
    by (simp add: case_prod_beta shots_append)
qed (simp add: shots_Nil)

end

end
