(* ===== verification/CallRegistry.thy ===== *)
theory CallRegistry
  imports Prelude
begin

text \<open>
  Call identifiers (\<open>src/call-id.ts\<close>) and the registry of active SIP calls
  (\<open>src/call-registry.ts\<close>). A call identifier is derived from the SIP Call-ID and made unique
  against the active calls and the reservations. \<open>randomUUID()\<close> is an argument, time stamps are
  arguments, and the SIP dialog of a call is an opaque handle.
\<close>

section \<open>Call identifiers\<close>

definition safe_path_char :: "char \<Rightarrow> bool" where
  "safe_path_char c \<longleftrightarrow> is_alnum c \<or> c \<in> set ''._~:@+=-''"

text \<open>\<open>replace(SafePathChars, '-')\<close>: each run of other characters becomes one dash.\<close>

fun dash_unsafe :: "bool \<Rightarrow> string \<Rightarrow> string" where
  "dash_unsafe r [] = []"
| "dash_unsafe r (c # cs) =
     (if safe_path_char c then c # dash_unsafe False cs
      else if r then dash_unsafe True cs else CHR ''-'' # dash_unsafe True cs)"

text \<open>\<open>replace(/-+/g, '-')\<close>\<close>

fun collapse_dashes :: "string \<Rightarrow> string" where
  "collapse_dashes (c # d # cs) =
     (if c = CHR ''-'' \<and> d = CHR ''-'' then collapse_dashes (d # cs) else c # collapse_dashes (d # cs))"
| "collapse_dashes cs = cs"

text \<open>\<open>replace(/^-|-$/g, '')\<close>\<close>

definition trim_dashes :: "string \<Rightarrow> string" where
  "trim_dashes s =
     (let t = (case s of [] \<Rightarrow> [] | c # cs \<Rightarrow> if c = CHR ''-'' then cs else s)
      in if t \<noteq> [] \<and> last t = CHR ''-'' then butlast t else t)"

text \<open>\<open>replace(/^sip:/i, '')\<close>\<close>

definition strip_sip :: "string \<Rightarrow> string" where
  "strip_sip s = (if map to_lower (take 4 s) = ''sip:'' then drop 4 s else s)"

definition strip_call_id :: "string \<Rightarrow> string" where
  "strip_call_id s =
     trim_dashes (collapse_dashes (dash_unsafe False (strip_sip
       (rdrop_while (\<lambda>c. c \<in> set [CHR ''>'', CHR 0x22, CHR 0x27] \<or> js_space c)
         (dropWhile (\<lambda>c. c \<in> set [CHR 0x22, CHR 0x27, CHR ''<''] \<or> js_space c) (js_trim s))))))"

definition normalizeCallId :: "string \<Rightarrow> string option \<Rightarrow> string" where
  "normalizeCallId uuid sipCallId =
     (let stripped = strip_call_id (case sipCallId of None \<Rightarrow> [] | Some s \<Rightarrow> s)
      in if stripped \<noteq> [] then stripped else ''call-'' @ uuid)"

fun no_double_dash :: "string \<Rightarrow> bool" where
  "no_double_dash (c # d # cs) \<longleftrightarrow> \<not> (c = CHR ''-'' \<and> d = CHR ''-'') \<and> no_double_dash (d # cs)"
| "no_double_dash cs \<longleftrightarrow> True"

lemma dash_safe [simp]: "safe_path_char (CHR ''-'')"
  by (simp add: safe_path_char_def)

lemma dash_unsafe_safe: "c \<in> set (dash_unsafe r s) \<Longrightarrow> safe_path_char c"
  by (induction r s rule: dash_unsafe.induct) (auto split: if_splits)

lemma set_collapse: "set (collapse_dashes s) = set s"
  by (induction s rule: collapse_dashes.induct) auto

lemma hd_collapse: "s \<noteq> [] \<Longrightarrow> collapse_dashes s \<noteq> [] \<and> hd (collapse_dashes s) = hd s"
  by (induction s rule: collapse_dashes.induct) auto

lemma collapse_no_double: "no_double_dash (collapse_dashes s)"
proof (induction s rule: collapse_dashes.induct)
  case (1 c d cs)
  obtain e es where e: "collapse_dashes (d # cs) = e # es" and "e = d"
    using hd_collapse [of "d # cs"] by (cases "collapse_dashes (d # cs)") auto
  with 1 show ?case by (auto simp: e)
qed auto

lemma no_double_tl: "no_double_dash (c # cs) \<Longrightarrow> no_double_dash cs"
  by (cases cs) auto

lemma no_double_butlast: "no_double_dash s \<Longrightarrow> no_double_dash (butlast s)"
proof (induction s rule: no_double_dash.induct)
  case (1 c d cs)
  then show ?case by (cases cs) auto
qed auto

lemma no_double_last: "no_double_dash s \<Longrightarrow> last s = CHR ''-'' \<Longrightarrow> butlast s \<noteq> [] \<Longrightarrow>
    last (butlast s) \<noteq> CHR ''-''"
proof (induction s rule: no_double_dash.induct)
  case (1 c d cs)
  then show ?case by (cases cs) auto
qed auto

lemma no_double_hd: "no_double_dash (c # cs) \<Longrightarrow> c = CHR ''-'' \<Longrightarrow> cs = [] \<or> hd cs \<noteq> CHR ''-''"
  by (cases cs) auto

lemma trim_dashes_props:
  assumes "no_double_dash s"
  shows "set (trim_dashes s) \<subseteq> set s" (is ?A)
    and "no_double_dash (trim_dashes s)" (is ?B)
    and "trim_dashes s \<noteq> [] \<Longrightarrow> hd (trim_dashes s) \<noteq> CHR ''-'' \<and> last (trim_dashes s) \<noteq> CHR ''-''"
      (is "_ \<Longrightarrow> ?C")
proof -
  define t where "t = (case s of [] \<Rightarrow> [] | c # cs \<Rightarrow> if c = CHR ''-'' then cs else s)"
  have td: "trim_dashes s = (if t \<noteq> [] \<and> last t = CHR ''-'' then butlast t else t)"
    by (simp add: trim_dashes_def t_def)
  have t: "set t \<subseteq> set s" "no_double_dash t" "t = [] \<or> hd t \<noteq> CHR ''-''"
    using assms by (auto simp: t_def split: list.splits dest: no_double_tl no_double_hd)
  show ?A using t(1) by (auto simp: td dest: in_set_butlastD)
  show ?B using t(2) by (simp add: td no_double_butlast)
  assume ne: "trim_dashes s \<noteq> []"
  then have "hd (trim_dashes s) = hd t" and "t \<noteq> []"
    by (auto simp: td split: if_splits) (metis hd_append2 append_butlast_last_id)
  with t ne show ?C
    by (auto simp: td no_double_last split: if_splits)
qed

definition clean_id :: "string \<Rightarrow> bool" where
  "clean_id s \<longleftrightarrow> s \<noteq> [] \<and> (\<forall>c\<in>set s. safe_path_char c) \<and> no_double_dash s
     \<and> hd s \<noteq> CHR ''-'' \<and> last s \<noteq> CHR ''-''"

lemma strip_call_id_clean: "strip_call_id s \<noteq> [] \<Longrightarrow> clean_id (strip_call_id s)"
  using trim_dashes_props [OF collapse_no_double] dash_unsafe_safe
  by (fastforce simp: strip_call_id_def clean_id_def set_collapse)

text \<open>
  A normalised call identifier is either \<open>call-\<close> followed by the random UUID or a nonempty
  string of URL-path-safe characters without consecutive, leading or trailing dashes; the first
  happens exactly when nothing is left of the SIP Call-ID.
\<close>

theorem normalizeCallId_clean:
  "if strip_call_id (case sipCallId of None \<Rightarrow> [] | Some s \<Rightarrow> s) = []
   then normalizeCallId uuid sipCallId = ''call-'' @ uuid
   else clean_id (normalizeCallId uuid sipCallId)"
  by (simp add: normalizeCallId_def strip_call_id_clean)

section \<open>Registry\<close>

record active_call =
  ac_callId :: string
  ac_sipCallId :: string
  ac_routeUrl :: string
  ac_receiverUrl :: string
  ac_controlConnectionId :: "string option"
  ac_destinationUri :: string
  ac_destinationUser :: "string option"
  ac_sourceUri :: "string option"
  ac_localSdp :: "string option"
  ac_remoteSdp :: "string option"
  ac_createdAt :: string
  ac_updatedAt :: string
  ac_dialog :: nat

record registry =
  calls :: "(string, active_call) omap"
  reservations :: "string list"

definition empty_registry :: registry where
  "empty_registry = \<lparr>calls = [], reservations = []\<rparr>"

definition hasCallOrReservation :: "registry \<Rightarrow> string \<Rightarrow> bool" where
  "hasCallOrReservation r callId \<longleftrightarrow> ohas (calls r) callId \<or> callId \<in> set (reservations r)"

text \<open>
  The search loop of \<open>reserveCallId\<close>. Each round spends one unit of fuel; \<open>fresh_candidate\<close>
  below shows that one more round than there are identifiers in use is enough.
\<close>

fun find_candidate :: "nat \<Rightarrow> registry \<Rightarrow> string \<Rightarrow> string \<Rightarrow> nat \<Rightarrow> string option" where
  "find_candidate 0 r base candidate suffix = None"
| "find_candidate (Suc fuel) r base candidate suffix =
     (if hasCallOrReservation r candidate
      then find_candidate fuel r base (base @ ''-'' @ show_nat suffix) (suffix + 1)
      else Some candidate)"

definition reserve_fuel :: "registry \<Rightarrow> nat" where
  "reserve_fuel r = Suc (length (calls r) + length (reservations r))"

definition reserveCallId :: "registry \<Rightarrow> string \<Rightarrow> string \<Rightarrow> (registry \<times> string) option" where
  "reserveCallId r uuid sipCallId =
     (let base = normalizeCallId uuid (Some sipCallId)
      in map_option (\<lambda>candidate. (r\<lparr>reservations := sadd candidate (reservations r)\<rparr>, candidate))
           (find_candidate (reserve_fuel r) r base base 2))"

definition releaseReservation :: "registry \<Rightarrow> string \<Rightarrow> registry" where
  "releaseReservation r callId = r\<lparr>reservations := removeAll callId (reservations r)\<rparr>"

definition activate :: "registry \<Rightarrow> active_call \<Rightarrow> registry" where
  "activate r call =
     (let r' = releaseReservation r (ac_callId call)
      in r'\<lparr>calls := oset (ac_callId call) call (calls r')\<rparr>)"

definition get_call :: "registry \<Rightarrow> string \<Rightarrow> active_call option" where
  "get_call r callId = oget (calls r) callId"

definition remove_call :: "registry \<Rightarrow> string \<Rightarrow> registry \<times> active_call option" where
  "remove_call r callId =
     (case oget (calls r) callId of
        None \<Rightarrow> (r, None)
      | Some call \<Rightarrow> (r\<lparr>calls := odel callId (calls r)\<rparr>, Some call))"

definition merge_opt :: "'a option \<Rightarrow> 'a option \<Rightarrow> 'a option" where
  "merge_opt a b = (case a of None \<Rightarrow> b | Some x \<Rightarrow> Some x)"

definition updateSdp :: "registry \<Rightarrow> string \<Rightarrow> string option \<Rightarrow> string option \<Rightarrow> string \<Rightarrow> registry \<times> active_call option" where
  "updateSdp r callId lsdp rsdp now =
     (case oget (calls r) callId of
        None \<Rightarrow> (r, None)
      | Some call \<Rightarrow>
          let call' = call\<lparr>ac_localSdp := merge_opt lsdp (ac_localSdp call),
                           ac_remoteSdp := merge_opt rsdp (ac_remoteSdp call),
                           ac_updatedAt := now\<rparr>
          in (r\<lparr>calls := oset callId call' (calls r)\<rparr>, Some call'))"

definition registry_size :: "registry \<Rightarrow> nat" where
  "registry_size r = length (calls r)"

definition pendingCount :: "registry \<Rightarrow> nat" where
  "pendingCount r = length (reservations r)"

text \<open>\<open>snapshotCall\<close> drops the dialog handle.\<close>

record call_snapshot =
  cs_callId :: string
  cs_sipCallId :: string
  cs_routeUrl :: string
  cs_receiverUrl :: string
  cs_controlConnectionId :: "string option"
  cs_destinationUri :: string
  cs_destinationUser :: "string option"
  cs_sourceUri :: "string option"
  cs_localSdp :: "string option"
  cs_remoteSdp :: "string option"
  cs_createdAt :: string
  cs_updatedAt :: string

definition snapshotCall :: "active_call \<Rightarrow> call_snapshot" where
  "snapshotCall c =
     \<lparr>cs_callId = ac_callId c, cs_sipCallId = ac_sipCallId c, cs_routeUrl = ac_routeUrl c,
      cs_receiverUrl = ac_receiverUrl c, cs_controlConnectionId = ac_controlConnectionId c,
      cs_destinationUri = ac_destinationUri c, cs_destinationUser = ac_destinationUser c,
      cs_sourceUri = ac_sourceUri c, cs_localSdp = ac_localSdp c, cs_remoteSdp = ac_remoteSdp c,
      cs_createdAt = ac_createdAt c, cs_updatedAt = ac_updatedAt c\<rparr>"

definition list_calls :: "registry \<Rightarrow> call_snapshot list" where
  "list_calls r = map (\<lambda>p. snapshotCall (snd p)) (calls r)"

subsection \<open>The search for a fresh identifier\<close>

definition candidate_at :: "string \<Rightarrow> nat \<Rightarrow> string" where
  "candidate_at base i = (if i = 0 then base else base @ ''-'' @ show_nat (Suc i))"

lemma candidate_at_inj: "inj (candidate_at base)"
  by (rule injI) (auto simp: candidate_at_def show_nat_inj split: if_splits)

lemma find_candidate_None:
  "find_candidate fuel r base (candidate_at base i) (i + 2) = None \<Longrightarrow>
   \<forall>j<fuel. hasCallOrReservation r (candidate_at base (i + j))"
proof (induction fuel arbitrary: i)
  case (Suc fuel)
  from Suc.prems have used: "hasCallOrReservation r (candidate_at base i)"
    and rest: "find_candidate fuel r base (candidate_at base (Suc i)) (Suc i + 2) = None"
    by (auto simp: candidate_at_def split: if_splits)
  from Suc.IH [OF rest] have IH: "\<forall>j<fuel. hasCallOrReservation r (candidate_at base (Suc i + j))" .
  show ?case
  proof (intro allI impI)
    fix j assume "j < Suc fuel"
    then show "hasCallOrReservation r (candidate_at base (i + j))"
      using used IH by (cases j) auto
  qed
qed simp

lemma find_candidate_unused:
  "find_candidate fuel r base candidate suffix = Some c \<Longrightarrow> \<not> hasCallOrReservation r c"
  by (induction fuel r base candidate suffix rule: find_candidate.induct) (auto split: if_splits)

lemma find_candidate_shape:
  "find_candidate fuel r base (candidate_at base i) (i + 2) = Some c \<Longrightarrow>
   \<exists>k\<ge>i. c = candidate_at base k \<and> (\<forall>j. i \<le> j \<longrightarrow> j < k \<longrightarrow> hasCallOrReservation r (candidate_at base j))"
proof (induction fuel arbitrary: i)
  case (Suc fuel)
  show ?case
  proof (cases "hasCallOrReservation r (candidate_at base i)")
    case True
    with Suc.prems have "find_candidate fuel r base (candidate_at base (Suc i)) (Suc i + 2) = Some c"
      by (auto simp: candidate_at_def)
    from Suc.IH [OF this] obtain k where "k \<ge> Suc i" "c = candidate_at base k"
      "\<forall>j. Suc i \<le> j \<longrightarrow> j < k \<longrightarrow> hasCallOrReservation r (candidate_at base j)" by blast
    with True show ?thesis by (metis Suc_leD le_antisym not_less_eq_eq)
  next
    case False
    with Suc.prems show ?thesis by auto
  qed
qed simp

lemma fresh_candidate: "\<exists>c. find_candidate (reserve_fuel r) r base base 2 = Some c"
proof (rule ccontr)
  assume "\<not> ?thesis"
  then have "find_candidate (reserve_fuel r) r base (candidate_at base 0) (0 + 2) = None"
    by (simp add: candidate_at_def numeral_2_eq_2)
  from find_candidate_None [OF this]
  have sub: "candidate_at base ` {..<reserve_fuel r} \<subseteq> set (okeys (calls r)) \<union> set (reservations r)"
    by (auto simp: hasCallOrReservation_def ohas_keys image_iff)
       (metis fst_conv map_of_SomeD option.exhaust)
  have "reserve_fuel r = card (candidate_at base ` {..<reserve_fuel r})"
    by (simp add: card_image inj_on_subset [OF candidate_at_inj])
  also have "\<dots> \<le> card (set (okeys (calls r)) \<union> set (reservations r))"
    by (rule card_mono [OF _ sub]) simp
  also have "\<dots> \<le> length (calls r) + length (reservations r)"
    by (metis card_Un_le card_length length_map add_mono order_trans)
  finally show False by (simp add: reserve_fuel_def)
qed

lemma reserve_shape:
  "\<exists>k. reserveCallId r uuid sipCallId =
        Some (r\<lparr>reservations := reservations r @ [candidate_at (normalizeCallId uuid (Some sipCallId)) k]\<rparr>,
              candidate_at (normalizeCallId uuid (Some sipCallId)) k)
     \<and> \<not> hasCallOrReservation r (candidate_at (normalizeCallId uuid (Some sipCallId)) k)
     \<and> list_all (\<lambda>j. hasCallOrReservation r (candidate_at (normalizeCallId uuid (Some sipCallId)) j)) [0..<k]"
proof -
  let ?b = "normalizeCallId uuid (Some sipCallId)"
  obtain c where c: "find_candidate (reserve_fuel r) r ?b ?b 2 = Some c"
    using fresh_candidate by blast
  then have "find_candidate (reserve_fuel r) r ?b (candidate_at ?b 0) (0 + 2) = Some c"
    by (simp add: candidate_at_def numeral_2_eq_2)
  from find_candidate_shape [OF this] obtain k where k: "c = candidate_at ?b k"
    "\<forall>j<k. hasCallOrReservation r (candidate_at ?b j)" by auto
  have free: "\<not> hasCallOrReservation r c" by (rule find_candidate_unused [OF c])
  then have "sadd c (reservations r) = reservations r @ [c]"
    by (simp add: hasCallOrReservation_def sadd_def)
  with c k free show ?thesis
    by (intro exI [of _ k]) (simp add: reserveCallId_def Let_def list_all_iff)
qed

text \<open>
  C19. \<open>reserveCallId\<close> always returns: its search loop ends, and the identifier it reserves is the
  first of \<open>base\<close>, \<open>base-2\<close>, \<open>base-3\<close>, \<dots> that is neither an active call nor reserved.
\<close>

theorem reserveCallId_first_free:
  "\<exists>k. reserveCallId r uuid sipCallId =
        Some (r\<lparr>reservations := reservations r @ [candidate_at (normalizeCallId uuid (Some sipCallId)) k]\<rparr>,
              candidate_at (normalizeCallId uuid (Some sipCallId)) k)
     \<and> \<not> hasCallOrReservation r (candidate_at (normalizeCallId uuid (Some sipCallId)) k)
     \<and> list_all (\<lambda>j. hasCallOrReservation r (candidate_at (normalizeCallId uuid (Some sipCallId)) j)) [0..<k]"
  by (rule reserve_shape)

subsection \<open>Invariant\<close>

definition registry_inv :: "registry \<Rightarrow> bool" where
  "registry_inv r \<longleftrightarrow> owf (calls r) \<and> distinct (reservations r)
     \<and> (\<forall>(k, c)\<in>set (calls r). ac_callId c = k)
     \<and> (\<forall>k\<in>set (reservations r). \<not> ohas (calls r) k)"

lemma registry_inv_empty: "registry_inv empty_registry"
  by (simp add: registry_inv_def empty_registry_def)

lemma reserve_inv [inv_intros]:
  assumes "registry_inv r" and "reserveCallId r uuid sip = Some (r', c)"
  shows "registry_inv r'"
proof -
  obtain k where "r' = r\<lparr>reservations := reservations r @ [c]\<rparr>" and "\<not> hasCallOrReservation r c"
    using reserve_shape [of r uuid sip] assms(2) by auto
  with assms(1) show ?thesis
    by (auto simp: registry_inv_def hasCallOrReservation_def)
qed

lemma release_inv [inv_intros]: "registry_inv r \<Longrightarrow> registry_inv (releaseReservation r k)"
  by (auto simp: registry_inv_def releaseReservation_def distinct_removeAll)

lemma activate_inv [inv_intros]: "registry_inv r \<Longrightarrow> registry_inv (activate r c)"
  by (auto simp: registry_inv_def activate_def releaseReservation_def distinct_removeAll in_oset Let_def
      split: if_splits)

lemma remove_inv [inv_intros]: "registry_inv r \<Longrightarrow> registry_inv (fst (remove_call r k))"
  by (auto simp: registry_inv_def remove_call_def in_odel split: option.splits)

lemma updateSdp_inv [inv_intros]: "registry_inv r \<Longrightarrow> registry_inv (fst (updateSdp r k l m now))"
  by (fastforce simp: registry_inv_def updateSdp_def Let_def in_oset dest: oget_in split: option.splits if_splits)

datatype registry_op = OpReserve string string | OpRelease string | OpActivate active_call
  | OpRemove string | OpUpdateSdp string "string option" "string option" string

fun registry_step :: "registry \<Rightarrow> registry_op \<Rightarrow> registry" where
  "registry_step r (OpReserve uuid sip) = (case reserveCallId r uuid sip of None \<Rightarrow> r | Some (r', _) \<Rightarrow> r')"
| "registry_step r (OpRelease k) = releaseReservation r k"
| "registry_step r (OpActivate c) = activate r c"
| "registry_step r (OpRemove k) = fst (remove_call r k)"
| "registry_step r (OpUpdateSdp k l m now) = fst (updateSdp r k l m now)"

interpretation reg: component registry_step registry_inv
proof
  fix r e assume "registry_inv r"
  then show "registry_inv (registry_step r e)"
    by (cases e) (auto intro: inv_intros split: option.splits)
qed

text \<open>
  After any sequence of registry operations every active call is stored under its own
  identifier, no identifier occurs twice, and no identifier is active and reserved at once.
\<close>

theorem registry_run_inv: "registry_inv (foldl registry_step empty_registry ops)"
  by (rule reg.run_inv [OF registry_inv_empty])

text \<open>
  A reserved identifier that is activated is no longer reserved and is found by \<open>get\<close>;
  removing it returns that call once, and every other call is untouched.
\<close>

theorem activate_remove:
  "get_call (activate r c) (ac_callId c) = Some c
   \<and> ac_callId c \<notin> set (reservations (activate r c))
   \<and> snd (remove_call (activate r c) (ac_callId c)) = Some c
   \<and> snd (remove_call (fst (remove_call (activate r c) (ac_callId c))) (ac_callId c)) = None
   \<and> get_call (fst (remove_call (activate r c) (ac_callId c))) =
       (get_call r)(ac_callId c := None)"
  by (auto simp: get_call_def activate_def releaseReservation_def remove_call_def Let_def fun_eq_iff)

end
