(* ===== verification/Json.thy ===== *)
theory Json
  imports Prelude
begin

text \<open>
  The JavaScript values that cross the gateway's boundaries: what \<open>JSON.parse\<close> returns, plus
  \<open>undefined\<close>. An object is the list of its own entries in property order. Numbers are the
  values of a double, finite ones as exact rationals. \<open>wire\<close> is the effect of
  \<open>JSON.stringify\<close> followed by \<open>JSON.parse\<close>.
\<close>

datatype jnum = Fin rat | PosInf | NegInf | NaN

datatype jv = JUndef | JNull | JBool bool | JNum jnum | JStr string | JArr "jv list"
  | JObj "(string \<times> jv) list"

abbreviation jint :: "int \<Rightarrow> jv" where
  "jint i \<equiv> JNum (Fin (of_int i))"

section \<open>Inspection\<close>

text \<open>\<open>typeof value === 'object' && value && !Array.isArray(value)\<close>\<close>

definition is_record :: "jv \<Rightarrow> bool" where
  "is_record v = (case v of JObj _ \<Rightarrow> True | _ \<Rightarrow> False)"

text \<open>\<open>!value || typeof value !== 'object'\<close> negated: arrays count as objects here.\<close>

definition is_objectish :: "jv \<Rightarrow> bool" where
  "is_objectish v = (case v of JObj _ \<Rightarrow> True | JArr _ \<Rightarrow> True | _ \<Rightarrow> False)"

text \<open>Reading a field that no built-in prototype has: an array has no such field.\<close>

definition entries :: "jv \<Rightarrow> (string \<times> jv) list" where
  "entries v = (case v of JObj fs \<Rightarrow> fs | _ \<Rightarrow> [])"

definition fld :: "jv \<Rightarrow> string \<Rightarrow> jv" where
  "fld v k = (case map_of (entries v) k of None \<Rightarrow> JUndef | Some w \<Rightarrow> w)"

definition str_of :: "jv \<Rightarrow> string option" where
  "str_of v = (case v of JStr s \<Rightarrow> Some s | _ \<Rightarrow> None)"

definition arr_of :: "jv \<Rightarrow> jv list option" where
  "arr_of v = (case v of JArr xs \<Rightarrow> Some xs | _ \<Rightarrow> None)"

definition bool_of :: "jv \<Rightarrow> bool option" where
  "bool_of v = (case v of JBool b \<Rightarrow> Some b | _ \<Rightarrow> None)"

text \<open>\<open>Number.isInteger\<close>\<close>

definition int_of :: "jv \<Rightarrow> int option" where
  "int_of v = (case v of JNum (Fin r) \<Rightarrow> if of_int \<lfloor>r\<rfloor> = r then Some \<lfloor>r\<rfloor> else None | _ \<Rightarrow> None)"

definition nullish :: "jv \<Rightarrow> bool" where
  "nullish v \<longleftrightarrow> v = JUndef \<or> v = JNull"

text \<open>\<open>a ?? b\<close>\<close>

definition coalesce :: "jv \<Rightarrow> jv \<Rightarrow> jv" where
  "coalesce a b = (if nullish a then b else a)"

definition truthy :: "jv \<Rightarrow> bool" where
  "truthy v = (case v of JUndef \<Rightarrow> False | JNull \<Rightarrow> False | JBool b \<Rightarrow> b
     | JNum n \<Rightarrow> n \<noteq> Fin 0 \<and> n \<noteq> NaN | JStr s \<Rightarrow> s \<noteq> [] | _ \<Rightarrow> True)"

definition opt_str :: "string option \<Rightarrow> jv" where
  "opt_str so = (case so of None \<Rightarrow> JUndef | Some s \<Rightarrow> JStr s)"

definition opt_int :: "int option \<Rightarrow> jv" where
  "opt_int i = (case i of None \<Rightarrow> JUndef | Some n \<Rightarrow> jint n)"

lemma fld_JObj [simp]: "fld (JObj fs) k = (case map_of fs k of None \<Rightarrow> JUndef | Some w \<Rightarrow> w)"
  by (simp add: fld_def entries_def)

lemma fld_not_record: "\<not> is_record v \<Longrightarrow> fld v k = JUndef"
  by (cases v) (simp_all add: fld_def entries_def is_record_def)

lemma str_of_simps [simp]:
  "str_of (JStr s) = Some s" "str_of JUndef = None" "str_of JNull = None"
  "str_of (JBool b) = None" "str_of (JNum n) = None" "str_of (JArr xs) = None" "str_of (JObj fs) = None"
  by (simp_all add: str_of_def)

lemma str_of_Some: "str_of v = Some s \<longleftrightarrow> v = JStr s"
  by (cases v) auto

lemma arr_of_simps [simp]: "arr_of (JArr xs) = Some xs" "arr_of JUndef = None" "arr_of JNull = None"
  by (simp_all add: arr_of_def)

lemma arr_of_Some: "arr_of v = Some xs \<longleftrightarrow> v = JArr xs"
  by (cases v) (auto simp: arr_of_def)

lemma bool_of_simps [simp]: "bool_of (JBool b) = Some b" "bool_of JUndef = None" "bool_of JNull = None"
  by (simp_all add: bool_of_def)

lemma bool_of_Some: "bool_of v = Some b \<longleftrightarrow> v = JBool b"
  by (cases v) (auto simp: bool_of_def)

lemma int_of_jint [simp]: "int_of (jint i) = Some i"
  by (simp add: int_of_def)

lemma int_of_numeral [simp]: "int_of (JNum (Fin (numeral k))) = Some (numeral k)"
  using int_of_jint [of "numeral k"] by simp

lemma int_of_non_number [simp]:
  "int_of JUndef = None" "int_of JNull = None" "int_of (JStr s) = None" "int_of (JBool b) = None"
  "int_of (JArr xs) = None" "int_of (JObj fs) = None"
  by (simp_all add: int_of_def)

lemma int_of_Some: "int_of v = Some i \<longleftrightarrow> v = jint i"
  by (cases v) (auto simp: int_of_def split: jnum.splits if_splits)

lemma is_record_simps [simp]:
  "is_record (JObj fs)" "\<not> is_record JUndef" "\<not> is_record JNull" "\<not> is_record (JBool b)"
  "\<not> is_record (JNum n)" "\<not> is_record (JStr s)" "\<not> is_record (JArr xs)"
  by (simp_all add: is_record_def)

lemma is_record_iff: "is_record v \<longleftrightarrow> (\<exists>fs. v = JObj fs)"
  by (cases v) auto

lemma nullish_simps [simp]:
  "nullish JUndef" "nullish JNull" "\<not> nullish (JStr s)" "\<not> nullish (JBool b)" "\<not> nullish (JNum n)"
  "\<not> nullish (JArr xs)" "\<not> nullish (JObj fs)"
  by (simp_all add: nullish_def)

text \<open>
  The parts of a parsed URL the gateway reads. The WHATWG parser behind \<open>new URL\<close> is an argument
  of the definitions that use it, a function from the text to these parts that returns \<open>None\<close>
  where the constructor throws.
\<close>

record url =
  u_protocol :: string
  u_hostname :: string
  u_pathname :: string
  u_search :: string
  u_hash :: string
  u_username :: string
  u_password :: string
  u_query_keys :: "string list"
  u_href :: string

section \<open>Crossing the wire\<close>

text \<open>
  \<open>JSON.stringify\<close> leaves out object fields that are \<open>undefined\<close>, and prints \<open>null\<close> for an
  \<open>undefined\<close> array element and for a number that is not finite.
\<close>

fun wire :: "jv \<Rightarrow> jv"
  and wire_elem :: "jv \<Rightarrow> jv"
  and wire_fields :: "(string \<times> jv) list \<Rightarrow> (string \<times> jv) list" where
  "wire JUndef = JUndef"
| "wire JNull = JNull"
| "wire (JBool b) = JBool b"
| "wire (JNum (Fin r)) = JNum (Fin r)"
| "wire (JNum PosInf) = JNull"
| "wire (JNum NegInf) = JNull"
| "wire (JNum NaN) = JNull"
| "wire (JStr s) = JStr s"
| "wire (JArr xs) = JArr (map wire_elem xs)"
| "wire (JObj fs) = JObj (wire_fields fs)"
| "wire_elem v = (if v = JUndef then JNull else wire v)"
| "wire_fields [] = []"
| "wire_fields ((k, v) # fs) = (if v = JUndef then wire_fields fs else (k, wire v) # wire_fields fs)"

lemma wire_eq_JUndef [simp]: "wire v = JUndef \<longleftrightarrow> v = JUndef"
  by (cases v rule: wire.cases) auto

lemma map_of_wire_fields:
  "distinct (map fst fs) \<Longrightarrow>
   map_of (wire_fields fs) k = (case map_of fs k of None \<Rightarrow> None | Some v \<Rightarrow> if v = JUndef then None else Some (wire v))"
proof (induction fs)
  case Nil
  then show ?case by simp
next
  case (Cons p fs)
  obtain j v where p: "p = (j, v)" by (cases p)
  have none: "map_of fs j = None"
    using Cons.prems p by (simp add: map_of_eq_None_iff)
  with Cons p show ?case by auto
qed

lemma fld_wire: "distinct (map fst fs) \<Longrightarrow> fld (wire (JObj fs)) k = wire (fld (JObj fs) k)"
  by (auto simp: map_of_wire_fields split: option.splits)

text \<open>Values that survive the wire unchanged: no \<open>undefined\<close>, only finite numbers.\<close>

fun plain :: "jv \<Rightarrow> bool" where
  "plain JUndef = False"
| "plain (JNum n) = (case n of Fin _ \<Rightarrow> True | _ \<Rightarrow> False)"
| "plain (JArr xs) = (\<forall>x\<in>set xs. plain x)"
| "plain (JObj fs) = (\<forall>p\<in>set fs. plain (snd p))"
| "plain v = True"

lemma wire_plain: "plain v \<Longrightarrow> wire v = v"
  and wire_elem_plain: "plain v \<Longrightarrow> wire_elem v = v"
  and wire_fields_plain: "\<forall>p\<in>set fs. plain (snd p) \<Longrightarrow> wire_fields fs = fs"
proof (induction v and v and fs rule: wire_wire_elem_wire_fields.induct)
  case (9 xs)
  then show ?case by (simp add: map_idI)
next
  case (13 k v fs)
  then show ?case by auto
qed auto

lemma wire_opt_str [simp]: "wire (opt_str r) = opt_str r"
  by (simp add: opt_str_def split: option.splits)

lemma str_of_opt_str [simp]: "str_of (opt_str r) = r"
  by (simp add: opt_str_def split: option.splits)

lemma wire_opt_int [simp]: "wire (opt_int q) = opt_int q"
  by (simp add: opt_int_def split: option.splits)

lemma opt_int_JUndef [simp]: "opt_int q = JUndef \<longleftrightarrow> q = None"
  by (simp add: opt_int_def split: option.splits)

lemma opt_str_JUndef [simp]: "opt_str q = JUndef \<longleftrightarrow> q = None"
  by (simp add: opt_str_def split: option.splits)

end
