(* ===== verification/Routing.thy ===== *)
theory Routing
  imports Json
begin

text \<open>
  SIP destination routing (\<open>src/routing.ts\<close>): normal form of SIP URIs, host and user extraction,
  the allow-list of SIP domains, static route tables and the route match. \<open>JSON.parse\<close> and the
  validity test behind \<open>new URL\<close> are arguments (\<open>json_parse\<close>, \<open>valid_url\<close>).
\<close>

section \<open>SIP URIs\<close>

text \<open>\<open>/<([^>]+)>/.exec(s)?.[1]\<close>\<close>

fun name_addr :: "string \<Rightarrow> string option" where
  "name_addr [] = None"
| "name_addr (c # cs) =
     (if c = CHR ''<'' then
        (let u = takeWhile (\<lambda>d. d \<noteq> CHR ''>'') cs
         in if u \<noteq> [] \<and> length u < length cs then Some u else name_addr cs)
      else name_addr cs)"

text \<open>\<open>replace(/[?;].*$/, '')\<close>: the dot does not match a line terminator.\<close>

fun strip_params :: "string \<Rightarrow> string" where
  "strip_params [] = []"
| "strip_params (c # cs) =
     (if (c = CHR ''?'' \<or> c = CHR '';'') \<and> list_all (\<lambda>d. \<not> line_end d) cs then []
      else c # strip_params cs)"

definition stripSipUri :: "string option \<Rightarrow> string" where
  "stripSipUri value =
     (let trimmed = js_trim (case value of None \<Rightarrow> [] | Some s \<Rightarrow> s);
          uri = (case name_addr trimmed of None \<Rightarrow> trimmed | Some u \<Rightarrow> u)
      in strip_params uri)"

definition normalizeRouteValue :: "string \<Rightarrow> string" where
  "normalizeRouteValue value = js_trim (stripSipUri (Some value))"

text \<open>\<open>/^sips?:/i\<close>: the length of the scheme prefix, if there is one.\<close>

definition sip_scheme :: "string \<Rightarrow> nat option" where
  "sip_scheme s =
     (if map to_lower (take 4 s) = ''sip:'' then Some 4
      else if map to_lower (take 5 s) = ''sips:'' then Some 5 else None)"

definition without_scheme :: "string \<Rightarrow> string" where
  "without_scheme s = (case sip_scheme s of None \<Rightarrow> s | Some n \<Rightarrow> drop n s)"

definition non_empty :: "string \<Rightarrow> string option" where
  "non_empty s = (if s = [] then None else Some s)"

definition getSipUser :: "string option \<Rightarrow> string option" where
  "getSipUser uri =
     (let withoutScheme = without_scheme (stripSipUri uri)
      in if CHR ''@'' \<in> set withoutScheme
         then non_empty (takeWhile (\<lambda>c. c \<noteq> CHR ''@'') withoutScheme)
         else non_empty withoutScheme)"

subsection \<open>Hosts\<close>

definition host_label :: "string \<Rightarrow> bool" where
  "host_label l \<longleftrightarrow> l \<noteq> [] \<and> length l \<le> 63 \<and> is_alnum (hd l) \<and> is_alnum (last l)
     \<and> list_all (\<lambda>c. is_alnum c \<or> c = CHR ''-'') l"

definition validHostname :: "string \<Rightarrow> bool" where
  "validHostname host \<longleftrightarrow> length host \<le> 253 \<and> list_all host_label (split_on (CHR ''.'') host)"

text \<open>\<open>replace(/\.$/, '')\<close>\<close>

definition drop_final_dot :: "string \<Rightarrow> string" where
  "drop_final_dot s = (if s \<noteq> [] \<and> last s = CHR ''.'' then butlast s else s)"

text \<open>\<open>/^([a-zA-Z0-9.-]+)(?::[0-9]+)?$/.exec(authority)?.[1]\<close>\<close>

definition authority_host :: "string \<Rightarrow> string option" where
  "authority_host a =
     (let h = takeWhile (\<lambda>c. is_alnum c \<or> c = CHR ''.'' \<or> c = CHR ''-'') a; r = drop (length h) a
      in if h = [] then None
         else if r = [] \<or> (hd r = CHR '':'' \<and> tl r \<noteq> [] \<and> list_all is_digit (tl r)) then Some h
         else None)"

definition getSipHost :: "string \<Rightarrow> string option" where
  "getSipHost uri =
     (let value = stripSipUri (Some uri)
      in case sip_scheme value of
           None \<Rightarrow> None
         | Some n \<Rightarrow>
             let parts = split_on (CHR ''@'') (drop n value)
             in if length parts > 2
                   \<or> list_ex (\<lambda>p. p = [] \<or> list_ex (\<lambda>c. js_space c \<or> c = CHR ''<'' \<or> c = CHR ''>'') p) parts
                then None
                else case authority_host (last parts) of
                       None \<Rightarrow> None
                     | Some h \<Rightarrow>
                         let host = drop_final_dot (map to_lower h)
                         in if host \<noteq> [] \<and> validHostname host then Some host else None)"

datatype routing_error = JsonSyntax | InvalidUrl | RoutingError string

definition parse_domain :: "jv \<Rightarrow> (routing_error, string) result" where
  "parse_domain d =
     (case str_of d of
        None \<Rightarrow> Inl (RoutingError ''Invalid allowed SIP domain'')
      | Some s \<Rightarrow>
          if length s > 253 \<or> \<not> validHostname (drop_final_dot s)
          then Inl (RoutingError ''Invalid allowed SIP domain'')
          else Inr (drop_final_dot (map to_lower s)))"

definition parseAllowedSipDomains ::
  "(string \<Rightarrow> jv option) \<Rightarrow> string option \<Rightarrow> (routing_error, string list option) result" where
  "parseAllowedSipDomains json_parse value =
     (case value of
        None \<Rightarrow> Inr None
      | Some s \<Rightarrow>
          (case json_parse s of
             None \<Rightarrow> Inl JsonSyntax
           | Some (JArr domains) \<Rightarrow>
               if domains = [] \<or> length domains > 128
               then Inl (RoutingError ''SIP_ALLOWED_DOMAINS_JSON must contain exact SIP hostnames'')
               else rbind (rmap parse_domain domains) (\<lambda>ds. Inr (Some (dedup ds)))
           | Some _ \<Rightarrow> Inl (RoutingError ''SIP_ALLOWED_DOMAINS_JSON must contain exact SIP hostnames'')))"

definition acceptsSipHost :: "string \<Rightarrow> string list option \<Rightarrow> bool" where
  "acceptsSipHost uri domains =
     (case domains of
        None \<Rightarrow> True
      | Some ds \<Rightarrow> (case getSipHost uri of None \<Rightarrow> False | Some host \<Rightarrow> host \<in> set ds))"

section \<open>Routes\<close>

datatype route_match = Exact | UserPrefix

record route_config =
  rc_match :: route_match
  rc_value :: string
  rc_url :: string

record invite_destination =
  destinationUri :: string
  destinationUser :: "string option"

definition parse_match :: "jv \<Rightarrow> route_match option" where
  "parse_match v =
     (if v = JStr ''exact'' then Some Exact else if v = JStr ''userPrefix'' then Some UserPrefix else None)"

definition nonblank_str :: "jv \<Rightarrow> string option" where
  "nonblank_str v = (case str_of v of None \<Rightarrow> None | Some s \<Rightarrow> if blank s then None else Some s)"

definition route_item_error :: "nat \<Rightarrow> string \<Rightarrow> routing_error" where
  "route_item_error index what = RoutingError (''ROUTES_JSON['' @ show_nat index @ '']'' @ what)"

definition parse_route :: "(string \<Rightarrow> bool) \<Rightarrow> nat \<times> jv \<Rightarrow> (routing_error, route_config) result" where
  "parse_route valid_url = (\<lambda>(index, route).
     if \<not> is_objectish route then Inl (route_item_error index '' must be an object'')
     else case parse_match (fld route ''match'') of
            None \<Rightarrow> Inl (route_item_error index ''.match must be \"exact\" or \"userPrefix\"'')
          | Some m \<Rightarrow>
              (case nonblank_str (fld route ''value'') of
                 None \<Rightarrow> Inl (route_item_error index ''.value must be a non-empty string'')
               | Some v \<Rightarrow>
                   (case nonblank_str (fld route ''url'') of
                      None \<Rightarrow> Inl (route_item_error index ''.url must be a non-empty string'')
                    | Some u \<Rightarrow>
                        if \<not> valid_url u then Inl InvalidUrl
                        else Inr \<lparr>rc_match = m, rc_value = normalizeRouteValue v, rc_url = u\<rparr>)))"

definition parseRoutesJson ::
  "(string \<Rightarrow> jv option) \<Rightarrow> (string \<Rightarrow> bool) \<Rightarrow> string option \<Rightarrow> (routing_error, route_config list) result" where
  "parseRoutesJson json_parse valid_url value =
     (case value of
        None \<Rightarrow> Inr []
      | Some s \<Rightarrow>
          if blank s then Inr []
          else case json_parse s of
                 None \<Rightarrow> Inl JsonSyntax
               | Some (JArr parsed) \<Rightarrow> rmap (parse_route valid_url) (enumerate 0 parsed)
               | Some _ \<Rightarrow> Inl (RoutingError ''ROUTES_JSON must be an array''))"

definition route_matches :: "route_config \<Rightarrow> string \<Rightarrow> string option \<Rightarrow> bool" where
  "route_matches route uri user =
     (case rc_match route of
        Exact \<Rightarrow> rc_value route = uri \<or> Some (rc_value route) = user
      | UserPrefix \<Rightarrow> starts_with uri (rc_value route)
          \<or> (case user of None \<Rightarrow> False | Some u \<Rightarrow> starts_with u (rc_value route)))"

definition matchRoute :: "route_config list \<Rightarrow> invite_destination \<Rightarrow> route_config option" where
  "matchRoute routes d =
     (let uri = normalizeRouteValue (destinationUri d);
          user = (case destinationUser d of
                    None \<Rightarrow> None
                  | Some u \<Rightarrow> if u = [] then None else Some (normalizeRouteValue u))
      in find (\<lambda>route. route_matches route uri user) routes)"

section \<open>Properties\<close>

lemma nonblank_str_Some: "nonblank_str v = Some s \<longleftrightarrow> v = JStr s \<and> \<not> blank s"
  by (cases v) (auto simp: nonblank_str_def)

lemma to_lower_code: "code (to_lower c) = (if is_upper c then code c + 32 else code c)"
  by (auto simp: to_lower_def is_upper_def code_char_of)

lemma to_lower_not_upper: "\<not> is_upper (to_lower c)"
  by (auto simp: is_upper_def to_lower_code)

lemma set_drop_final_dot: "set (drop_final_dot s) \<subseteq> set s"
  by (auto simp: drop_final_dot_def dest: in_set_butlastD)

text \<open>
  A SIP host is only ever reported for a \<open>sip:\<close> or \<open>sips:\<close> URI, and what is reported is a
  syntactically valid host name in lower case of at most 253 characters.
\<close>

theorem getSipHost_valid:
  assumes "getSipHost uri = Some h"
  shows "sip_scheme (stripSipUri (Some uri)) \<noteq> None \<and> h \<noteq> [] \<and> validHostname h \<and> list_all (\<lambda>c. \<not> is_upper c) h"
proof -
  obtain a where h: "h = drop_final_dot (map to_lower a)" and v: "h \<noteq> []" "validHostname h"
    and s: "sip_scheme (stripSipUri (Some uri)) \<noteq> None"
    using assms by (auto simp: getSipHost_def Let_def split: option.splits if_splits)
  have "set h \<subseteq> to_lower ` set a"
    using set_drop_final_dot h by fastforce
  then have "list_all (\<lambda>c. \<not> is_upper c) h"
    by (auto simp: list_all_iff to_lower_not_upper)
  with v s show ?thesis by simp
qed

theorem getSipHost_valid_witness:
  "validHostname ''edge.example.com''
   \<and> getSipHost ''<sip:support@Edge.Example.com:5060>;tag=1'' = Some ''edge.example.com''"
proof -
  have h: "getSipHost ''<sip:support@Edge.Example.com:5060>;tag=1'' = Some ''edge.example.com''"
    by code_simp
  from getSipHost_valid [OF h] h show ?thesis by simp
qed

lemma host_label_lower: "host_label l \<Longrightarrow> host_label (map to_lower l)"
proof -
  assume l: "host_label l"
  have a: "is_alnum (to_lower c)" if "is_alnum c" for c
    using that by (auto simp: is_alnum_def is_upper_def is_lower_def is_digit_def to_lower_code)
  have d: "to_lower (CHR ''-'') = CHR ''-''"
    by (simp add: to_lower_def is_upper_def code_def)
  from l show ?thesis
    by (auto simp: host_label_def list_all_iff hd_map last_map d intro: a)
qed

lemma to_lower_dot: "to_lower c = CHR ''.'' \<longleftrightarrow> c = CHR ''.''"
proof -
  have "code (CHR ''.'') = 46" by (simp add: code_def)
  then have "to_lower c = CHR ''.'' \<longleftrightarrow> code (to_lower c) = 46" by (metis code_inj)
  also have "\<dots> \<longleftrightarrow> code c = 46" by (auto simp: to_lower_code is_upper_def)
  also have "\<dots> \<longleftrightarrow> c = CHR ''.''" by (metis \<open>code (CHR ''.'') = 46\<close> code_inj)
  finally show ?thesis .
qed

lemma split_on_lower: "split_on (CHR ''.'') (map to_lower s) = map (map to_lower) (split_on (CHR ''.'') s)"
  by (induction s) (auto simp: to_lower_dot split: list.splits)

lemma validHostname_lower: "validHostname s \<Longrightarrow> validHostname (map to_lower s)"
  by (auto simp: validHostname_def split_on_lower list_all_iff host_label_lower)

lemma drop_final_dot_lower: "drop_final_dot (map to_lower s) = map to_lower (drop_final_dot s)"
  by (auto simp: drop_final_dot_def last_map to_lower_dot map_butlast)

text \<open>
  An accepted allow-list setting is a nonempty list of at most 128 distinct, lower-case, valid
  host names, and a destination passes it exactly when its SIP host is one of them; a destination
  without a SIP host never passes.
\<close>

theorem parseAllowedSipDomains_allow_list:
  assumes "parseAllowedSipDomains json_parse (Some text) = Inr (Some ds)"
  shows "ds \<noteq> [] \<and> length ds \<le> 128 \<and> distinct ds
       \<and> list_all (\<lambda>d. validHostname d \<and> list_all (\<lambda>c. \<not> is_upper c) d) ds
       \<and> acceptsSipHost uri (Some ds) = (\<exists>h. getSipHost uri = Some h \<and> h \<in> set ds)"
proof -
  obtain xs ys where xs: "xs \<noteq> []" "length xs \<le> 128"
    and ys: "rmap parse_domain xs = Inr ys" and ds: "ds = dedup ys"
    using assms by (auto simp: parseAllowedSipDomains_def rbind_eq_Inr split: option.splits jv.splits if_splits)
  have len: "length ys = length xs" using ys by (rule rmap_Inr_length)
  have "card (set ds) = card (set ys)" by (simp add: ds)
  then have "length ds \<le> 128"
    using ds len xs(2) by (metis card_length distinct_card distinct_dedup order_trans)
  moreover have "ds \<noteq> []" using ds len xs(1) by (metis length_0_conv set_dedup set_empty)
  moreover have "list_all (\<lambda>d. validHostname d \<and> list_all (\<lambda>c. \<not> is_upper c) d) ds"
    unfolding list_all_iff
  proof
    fix d assume "d \<in> set ds"
    then have "d \<in> set ys" by (simp add: ds)
    then obtain x where "parse_domain x = Inr d" using rmap_Inr_set [OF ys] by blast
    then obtain s where "validHostname (drop_final_dot s)" and "d = map to_lower (drop_final_dot s)"
      by (auto simp: parse_domain_def drop_final_dot_lower split: option.splits if_splits)
    then show "validHostname d \<and> (\<forall>c\<in>set d. \<not> is_upper c)"
      by (auto simp: validHostname_lower to_lower_not_upper)
  qed
  ultimately show ?thesis
    by (auto simp: ds acceptsSipHost_def split: option.splits)
qed

theorem parseAllowedSipDomains_allow_list_witness:
  "distinct [''example.com'', ''b.example'']
   \<and> acceptsSipHost ''sip:1@EXAMPLE.com'' (Some [''example.com'', ''b.example''])
   \<and> \<not> acceptsSipHost ''tel:1'' (Some [''example.com'', ''b.example''])"
proof -
  let ?jp = "\<lambda>s. Some (JArr [JStr ''Example.com.'', JStr ''b.example'', JStr ''example.COM''])"
  have h: "parseAllowedSipDomains ?jp (Some ''x'') = Inr (Some [''example.com'', ''b.example''])"
    by code_simp
  have "getSipHost ''sip:1@EXAMPLE.com'' = Some ''example.com''" and "getSipHost ''tel:1'' = None"
    by code_simp+
  with parseAllowedSipDomains_allow_list [OF h, of "''sip:1@EXAMPLE.com''"]
    parseAllowedSipDomains_allow_list [OF h, of "''tel:1''"]
  show ?thesis by simp
qed

lemma find_first: "find p xs = Some x \<longleftrightarrow> (\<exists>ys zs. xs = ys @ x # zs \<and> p x \<and> (\<forall>y\<in>set ys. \<not> p y))"
proof (induction xs)
  case Nil
  then show ?case by simp
next
  case (Cons a xs)
  show ?case
  proof (cases "p a")
    case True
    then show ?thesis by (auto simp: Cons_eq_append_conv)
  next
    case False
    with Cons.IH show ?thesis
      by (auto simp: Cons_eq_append_conv) (metis append_Cons set_ConsD)
  qed
qed

definition dest_user :: "invite_destination \<Rightarrow> string option" where
  "dest_user d = (case destinationUser d of None \<Rightarrow> None
     | Some u \<Rightarrow> if u = [] then None else Some (normalizeRouteValue u))"

lemma matchRoute_dest:
  "matchRoute routes d = find (\<lambda>r. route_matches r (normalizeRouteValue (destinationUri d)) (dest_user d)) routes"
  by (simp add: matchRoute_def dest_user_def Let_def)


lemma name_addr_absent: "CHR ''<'' \<notin> set s \<Longrightarrow> name_addr s = None"
  by (induction s) auto

lemma strip_params_absent: "CHR ''?'' \<notin> set s \<Longrightarrow> CHR '';'' \<notin> set s \<Longrightarrow> strip_params s = s"
  by (induction s) auto

lemma js_trim_no_space: "list_all (\<lambda>c. \<not> js_space c) s \<Longrightarrow> js_trim s = s"
proof -
  assume "list_all (\<lambda>c. \<not> js_space c) s"
  then have "s = [] \<or> \<not> js_space (hd s)" and "s = [] \<or> \<not> js_space (last s)"
    by (auto simp: list_all_iff)
  then show ?thesis by (simp add: js_trim_def dropWhile_id rdrop_while_id)
qed

definition simple_uri_char :: "char \<Rightarrow> bool" where
  "simple_uri_char c \<longleftrightarrow> \<not> js_space c \<and> c \<noteq> CHR ''<'' \<and> c \<noteq> CHR ''?'' \<and> c \<noteq> CHR '';''"

lemma normalize_simple: "list_all simple_uri_char s \<Longrightarrow> normalizeRouteValue s = s"
proof -
  assume s: "list_all simple_uri_char s"
  then have "js_trim s = s"
    by (intro js_trim_no_space) (auto simp: list_all_iff simple_uri_char_def)
  moreover from s have "CHR ''<'' \<notin> set s" "CHR ''?'' \<notin> set s" "CHR '';'' \<notin> set s"
    by (auto simp: list_all_iff simple_uri_char_def)
  ultimately show ?thesis
    by (simp add: normalizeRouteValue_def stripSipUri_def name_addr_absent strip_params_absent)
qed

text \<open>
  A \<open>userPrefix\<close> route is matched against the whole normalised URI as well as the user, so a
  prefix of the scheme such as \<open>s\<close> claims every SIP destination, whatever its user part is.
\<close>

theorem userPrefix_scheme_matches_all:
  assumes "list_all simple_uri_char x"
  shows "matchRoute (\<lparr>rc_match = UserPrefix, rc_value = ''s'', rc_url = u\<rparr> # rest)
           \<lparr>destinationUri = ''sip:'' @ x, destinationUser = user\<rparr>
         = Some \<lparr>rc_match = UserPrefix, rc_value = ''s'', rc_url = u\<rparr>"
proof -
  have "list_all simple_uri_char (''sip:'' @ x)"
    using assms by (simp add: simple_uri_char_def js_space_def code_def)
  then have "normalizeRouteValue (''sip:'' @ x) = ''sip:'' @ x" by (rule normalize_simple)
  then show ?thesis by (simp add: matchRoute_def route_matches_def starts_with_def)
qed

theorem userPrefix_scheme_matches_all_witness:
  "matchRoute [\<lparr>rc_match = UserPrefix, rc_value = ''s'', rc_url = ''control://a''\<rparr>]
     \<lparr>destinationUri = ''sip:bob@h'', destinationUser = Some ''bob''\<rparr>
   = Some \<lparr>rc_match = UserPrefix, rc_value = ''s'', rc_url = ''control://a''\<rparr>"
proof -
  have h: "list_all simple_uri_char ''bob@h''" by code_simp
  show ?thesis
    using userPrefix_scheme_matches_all [OF h, of "''control://a''" "[]" "Some ''bob''"] by simp
qed

end
