(* ===== verification/HttpContract.thy ===== *)
theory HttpContract
  imports Routing
begin

text \<open>
  The contract of the INVITE webhook and of \<open>sip.invite\<close> responses (\<open>src/http-contract.ts\<close>):
  how an answer or reject action is read from an untrusted value.
\<close>

type_synonym sip_headers = "(string, string) omap"

datatype sip_action =
  AnswerAction (act_sdp: string) (act_status: "int option") (act_headers: "sip_headers option")
    (act_receiver: "string option")
| RejectAction (rej_status: int) (rej_reason: "string option") (act_headers: "sip_headers option")
    (act_receiver: "string option")

text \<open>\<open>InvalidHttpActionError\<close>, or the \<open>TypeError\<close> of \<open>new URL\<close>.\<close>

datatype action_error = InvalidHttpAction string | UrlTypeError

text \<open>Assigning a string to \<open>headers['__proto__']\<close> has no effect on a plain object.\<close>

fun collect_headers :: "sip_headers \<Rightarrow> (string \<times> jv) list \<Rightarrow> (action_error, sip_headers) result" where
  "collect_headers acc [] = Inr acc"
| "collect_headers acc ((k, v) # fs) =
     (case str_of v of
        None \<Rightarrow> Inl (InvalidHttpAction (''header '' @ k @ '' must be a string''))
      | Some s \<Rightarrow> collect_headers (if k = ''__proto__'' then acc else oset k s acc) fs)"

definition parseOptionalHeaders :: "jv \<Rightarrow> (action_error, sip_headers option) result" where
  "parseOptionalHeaders input =
     (if nullish input then Inr None
      else if \<not> is_record input then Inl (InvalidHttpAction ''headers must be an object'')
      else rbind (collect_headers [] (entries input)) (\<lambda>h. Inr (Some h)))"

definition parseOptionalReceiverUrl ::
  "(string \<Rightarrow> bool) \<Rightarrow> jv \<Rightarrow> bool \<Rightarrow> (action_error, string option) result" where
  "parseOptionalReceiverUrl valid_url input allow =
     (if nullish input then Inr None
      else if \<not> allow then Inl (InvalidHttpAction ''receiverUrl is not accepted for this response'')
      else case nonblank_str input of
             None \<Rightarrow> Inl (InvalidHttpAction ''receiverUrl must be a URL'')
           | Some u \<Rightarrow> if valid_url u then Inr (Some u) else Inl UrlTypeError)"

definition status_error :: "int \<Rightarrow> int \<Rightarrow> string \<Rightarrow> action_error" where
  "status_error lo hi name = InvalidHttpAction (name @ '' must be an integer between '' @ show_nat (nat lo)
     @ '' and '' @ show_nat (nat hi))"

definition parseRequiredStatus :: "jv \<Rightarrow> int \<Rightarrow> int \<Rightarrow> string \<Rightarrow> (action_error, int) result" where
  "parseRequiredStatus input lo hi name =
     (case int_of input of
        Some i \<Rightarrow> if i < lo \<or> i > hi then Inl (status_error lo hi name) else Inr i
      | None \<Rightarrow> Inl (status_error lo hi name))"

definition parseOptionalStatus :: "jv \<Rightarrow> int \<Rightarrow> int \<Rightarrow> string \<Rightarrow> (action_error, int option) result" where
  "parseOptionalStatus input lo hi name =
     (if nullish input then Inr None
      else rbind (parseRequiredStatus input lo hi name) (\<lambda>i. Inr (Some i)))"

definition parseSipActionResponse ::
  "(string \<Rightarrow> bool) \<Rightarrow> bool \<Rightarrow> jv \<Rightarrow> (action_error, sip_action) result" where
  "parseSipActionResponse valid_url allow input =
     (if \<not> is_objectish input then Inl (InvalidHttpAction ''HTTP response must be an object'')
      else rbind (parseOptionalHeaders (fld input ''headers'')) (\<lambda>headers.
           rbind (parseOptionalReceiverUrl valid_url (fld input ''receiverUrl'') allow) (\<lambda>receiverUrl.
           if fld input ''action'' = JStr ''answer'' then
             (case nonblank_str (fld input ''sdp'') of
                None \<Rightarrow> Inl (InvalidHttpAction ''answer action requires non-empty sdp'')
              | Some sdp \<Rightarrow>
                  rbind (parseOptionalStatus (fld input ''status'') 200 200 ''answer status'')
                    (\<lambda>status. Inr (AnswerAction sdp status headers receiverUrl)))
           else if fld input ''action'' = JStr ''reject'' then
             rbind (parseRequiredStatus (fld input ''status'') 300 699 ''reject status'')
               (\<lambda>status. Inr (RejectAction status (str_of (fld input ''reason'')) headers receiverUrl))
           else Inl (InvalidHttpAction ''action must be \"answer\" or \"reject\"''))))"

text \<open>The parameters of an outbound call (\<open>src/drachtio-gateway.ts\<close>), as the session commands hand them on.\<close>

record outbound_params =
  op_requestUri :: string
  op_sdp :: string
  op_headers :: "sip_headers option"
  op_receiverUrl :: "string option"
  op_controlConnectionId :: "string option"
  op_callingNumber :: "string option"
  op_callingName :: "string option"
  op_proxy :: "string option"
  op_outboundAttemptId :: "string option"
  op_auth :: "(string \<times> string) option"

section \<open>Properties\<close>

definition valid_headers :: "sip_headers option \<Rightarrow> bool" where
  "valid_headers h = (case h of None \<Rightarrow> True | Some hs \<Rightarrow> owf hs \<and> \<not> ohas hs ''__proto__'')"

definition valid_receiver :: "(string \<Rightarrow> bool) \<Rightarrow> bool \<Rightarrow> string option \<Rightarrow> bool" where
  "valid_receiver valid_url allow r = (case r of None \<Rightarrow> True | Some u \<Rightarrow> allow \<and> \<not> blank u \<and> valid_url u)"

fun valid_action :: "(string \<Rightarrow> bool) \<Rightarrow> bool \<Rightarrow> sip_action \<Rightarrow> bool" where
  "valid_action valid_url allow (AnswerAction sdp status h r) \<longleftrightarrow>
     \<not> blank sdp \<and> (status = None \<or> status = Some 200) \<and> valid_headers h \<and> valid_receiver valid_url allow r"
| "valid_action valid_url allow (RejectAction status reason h r) \<longleftrightarrow>
     300 \<le> status \<and> status \<le> 699 \<and> valid_headers h \<and> valid_receiver valid_url allow r"

lemma collect_headers_wf:
  "collect_headers acc fs = Inr h \<Longrightarrow> owf acc \<Longrightarrow> \<not> ohas acc ''__proto__'' \<Longrightarrow> owf h \<and> \<not> ohas h ''__proto__''"
  by (induction acc fs rule: collect_headers.induct) (auto split: option.splits if_splits)

lemma parseOptionalHeaders_valid: "parseOptionalHeaders v = Inr h \<Longrightarrow> valid_headers h"
  by (auto simp: parseOptionalHeaders_def valid_headers_def rbind_eq_Inr split: if_splits
      dest!: collect_headers_wf)

lemma parseOptionalReceiverUrl_valid:
  "parseOptionalReceiverUrl valid_url v allow = Inr r \<Longrightarrow> valid_receiver valid_url allow r"
  by (auto simp: parseOptionalReceiverUrl_def valid_receiver_def nonblank_str_Some split: if_splits option.splits)

lemma parseRequiredStatus_Inr:
  "parseRequiredStatus v lo hi n = Inr i \<longleftrightarrow> v = jint i \<and> lo \<le> i \<and> i \<le> hi"
  by (auto simp: parseRequiredStatus_def int_of_Some split: option.splits if_splits)

lemma parseOptionalStatus_Inr:
  "parseOptionalStatus v lo hi n = Inr s \<longleftrightarrow>
     (nullish v \<and> s = None) \<or> (\<exists>i. s = Some i \<and> v = jint i \<and> lo \<le> i \<and> i \<le> hi)"
  by (auto simp: parseOptionalStatus_def rbind_eq_Inr parseRequiredStatus_Inr)

lemma parsed_action_valid:
  assumes "parseSipActionResponse valid_url allow input = Inr a"
  shows "valid_action valid_url allow a"
proof -
  obtain h r where h: "valid_headers h" and r: "valid_receiver valid_url allow r"
    and a: "(\<exists>sdp st. a = AnswerAction sdp st h r \<and> \<not> blank sdp \<and> (st = None \<or> st = Some 200))
          \<or> (\<exists>st re. a = RejectAction st re h r \<and> 300 \<le> st \<and> st \<le> 699)"
    using assms
    by (auto simp: parseSipActionResponse_def rbind_eq_Inr nonblank_str_Some parseRequiredStatus_Inr
        parseOptionalStatus_Inr split: if_splits option.splits
        dest!: parseOptionalHeaders_valid parseOptionalReceiverUrl_valid)
  then show ?thesis by auto
qed

text \<open>The object an application sends for an action.\<close>

definition headers_jv :: "sip_headers option \<Rightarrow> jv" where
  "headers_jv h = (case h of None \<Rightarrow> JUndef | Some hs \<Rightarrow> JObj (map (\<lambda>(k, v). (k, JStr v)) hs))"

fun render_action :: "sip_action \<Rightarrow> jv" where
  "render_action (AnswerAction sdp status h r) =
     JObj [(''action'', JStr ''answer''), (''sdp'', JStr sdp),
           (''status'', case status of None \<Rightarrow> JUndef | Some i \<Rightarrow> jint i),
           (''headers'', headers_jv h), (''receiverUrl'', opt_str r)]"
| "render_action (RejectAction status reason h r) =
     JObj [(''action'', JStr ''reject''), (''status'', jint status), (''reason'', opt_str reason),
           (''headers'', headers_jv h), (''receiverUrl'', opt_str r)]"

lemma oset_append: "\<not> ohas acc k \<Longrightarrow> oset k v acc = acc @ [(k, v)]"
  by (induction acc) (auto split: if_splits)

lemma collect_rendered:
  "owf (acc @ hs) \<Longrightarrow> \<not> ohas hs ''__proto__'' \<Longrightarrow>
   collect_headers acc (map (\<lambda>(k, v). (k, JStr v)) hs) = Inr (acc @ hs)"
proof (induction hs arbitrary: acc)
  case (Cons p hs)
  obtain k v where p: "p = (k, v)" by (cases p)
  have "\<not> ohas acc k" using Cons.prems p by (auto simp: map_of_eq_None_iff)
  then have "oset k v acc = acc @ [(k, v)]" by (rule oset_append)
  moreover have "k \<noteq> ''__proto__''" using Cons.prems p by auto
  ultimately show ?case using Cons.IH [of "acc @ [(k, v)]"] Cons.prems p by (auto split: if_splits)
qed simp

lemma parse_rendered_headers: "valid_headers h \<Longrightarrow> parseOptionalHeaders (wire (headers_jv h)) = Inr h"
proof (cases h)
  case (Some hs)
  assume v: "valid_headers h"
  have "wire_fields (map (\<lambda>(k, v). (k, JStr v)) hs) = map (\<lambda>(k, v). (k, JStr v)) hs"
    by (rule wire_fields_plain) auto
  with v Some show ?thesis
    by (simp add: parseOptionalHeaders_def headers_jv_def valid_headers_def entries_def collect_rendered)
qed (simp add: parseOptionalHeaders_def headers_jv_def)

lemma wire_headers_JUndef [simp]: "headers_jv h = JUndef \<longleftrightarrow> h = None"
  by (simp add: headers_jv_def split: option.splits)

lemma parse_rendered_receiver:
  "valid_receiver valid_url allow r \<Longrightarrow> parseOptionalReceiverUrl valid_url (opt_str r) allow = Inr r"
  by (auto simp: parseOptionalReceiverUrl_def valid_receiver_def opt_str_def nonblank_str_def split: option.splits)

lemma render_fields:
  "fld (wire (render_action a)) ''headers'' = wire (headers_jv (act_headers a))"
  "fld (wire (render_action a)) ''receiverUrl'' = opt_str (act_receiver a)"
  by (cases a; simp only: render_action.simps; subst fld_wire; simp)+

lemma parse_rendered_action:
  assumes "valid_action valid_url allow a"
  shows "parseSipActionResponse valid_url allow (wire (render_action a)) = Inr a"
proof -
  have h: "parseOptionalHeaders (fld (wire (render_action a)) ''headers'') = Inr (act_headers a)"
    using assms by (cases a) (simp_all only: render_fields valid_action.simps sip_action.sel parse_rendered_headers)
  have r: "parseOptionalReceiverUrl valid_url (fld (wire (render_action a)) ''receiverUrl'') allow = Inr (act_receiver a)"
    using assms by (cases a) (simp_all only: render_fields valid_action.simps sip_action.sel parse_rendered_receiver)
  have o: "is_objectish (wire (render_action a))"
    by (cases a) (simp_all add: is_objectish_def)
  show ?thesis
  proof (cases a)
    case (AnswerAction sdp st hd rc)
    have f: "fld (wire (render_action a)) ''action'' = JStr ''answer''"
      "fld (wire (render_action a)) ''sdp'' = JStr sdp"
      "fld (wire (render_action a)) ''status'' = (case st of None \<Rightarrow> JUndef | Some i \<Rightarrow> jint i)"
      unfolding AnswerAction by (simp only: render_action.simps; subst fld_wire; simp split: option.splits)+
    from assms AnswerAction have "parseOptionalStatus (case st of None \<Rightarrow> JUndef | Some i \<Rightarrow> jint i) 200 200 n = Inr st" for n
      by (auto simp: parseOptionalStatus_Inr)
    with h r o f assms show ?thesis
      unfolding parseSipActionResponse_def by (simp add: AnswerAction nonblank_str_def)
  next
    case (RejectAction st re hd rc)
    have f: "fld (wire (render_action a)) ''action'' = JStr ''reject''"
      "fld (wire (render_action a)) ''status'' = jint st"
      "fld (wire (render_action a)) ''reason'' = opt_str re"
      unfolding RejectAction by (simp only: render_action.simps; subst fld_wire; simp)+
    from assms RejectAction have "parseRequiredStatus (jint st) 300 699 n = Inr st" for n
      by (simp add: parseRequiredStatus_Inr)
    with h r o f assms show ?thesis
      unfolding parseSipActionResponse_def by (simp add: RejectAction)
  qed
qed

text \<open>
  The action parser accepts exactly the valid actions: whatever it accepts is an answer with a
  nonblank SDP and status 200 or none, or a reject with a status from 300 to 699, in both cases with
  string headers and a receiver URL only where one is allowed; and every such action, sent as JSON,
  is read back unchanged.
\<close>

theorem sip_action_parse_iff:
  "(\<exists>input. parseSipActionResponse valid_url allow input = Inr a) = valid_action valid_url allow a
   \<and> (parseSipActionResponse valid_url allow (wire (render_action a)) = Inr a) = valid_action valid_url allow a"
  using parsed_action_valid parse_rendered_action by blast

end
