(* ===== verification/ControlProtocol.thy ===== *)
theory ControlProtocol
  imports Routing
begin

text \<open>
  The envelopes of the control WebSocket (\<open>src/control-protocol.ts\<close>): requests, responses and
  events, how they are read from an untrusted JSON value, and how the gateway writes them.
\<close>

record control_error =
  err_code :: string
  err_message :: string
  err_details :: jv

datatype control_message =
  CRequest (req_id: string) (req_method: string) (req_params: jv)
| COk (resp_id: string) (resp_result: jv)
| CFail (resp_id: string) (resp_error: control_error)
| CEvent (ev_event: string) (ev_id: string) (ev_session: "string option") (ev_sequence: "int option")
    (ev_occurredAt: string) (ev_data: jv)

text \<open>\<open>ControlProtocolError\<close> carries a message and a code, \<open>BAD_MESSAGE\<close> by default.\<close>

datatype protocol_error = ProtocolError (pe_message: string) (pe_code: string)

abbreviation bad_message :: "string \<Rightarrow> protocol_error" where
  "bad_message m \<equiv> ProtocolError m ''BAD_MESSAGE''"

definition makeControlError :: "string \<Rightarrow> string \<Rightarrow> jv \<Rightarrow> control_error" where
  "makeControlError c m d = \<lparr>err_code = c, err_message = m, err_details = d\<rparr>"

definition parseControlError :: "jv \<Rightarrow> control_error" where
  "parseControlError input =
     (if \<not> is_record input then makeControlError ''ERROR'' ''Request failed'' JUndef
      else makeControlError
        (case nonblank_str (fld input ''code'') of Some c \<Rightarrow> c | None \<Rightarrow> ''ERROR'')
        (case nonblank_str (fld input ''message'') of Some m \<Rightarrow> m | None \<Rightarrow> ''Request failed'')
        (fld input ''details''))"

definition parseControlRequest :: "jv \<Rightarrow> (protocol_error, control_message) result" where
  "parseControlRequest input =
     (case nonblank_str (fld input ''id'') of
        None \<Rightarrow> Inl (bad_message ''request id must be a non-empty string'')
      | Some i \<Rightarrow>
          (case nonblank_str (fld input ''method'') of
             None \<Rightarrow> Inl (bad_message ''request method must be a non-empty string'')
           | Some m \<Rightarrow> Inr (CRequest i m (fld input ''params''))))"

definition parseControlResponse :: "jv \<Rightarrow> (protocol_error, control_message) result" where
  "parseControlResponse input =
     (case nonblank_str (fld input ''id'') of
        None \<Rightarrow> Inl (bad_message ''response id must be a non-empty string'')
      | Some i \<Rightarrow>
          (case bool_of (fld input ''ok'') of
             None \<Rightarrow> Inl (bad_message ''response ok must be a boolean'')
           | Some True \<Rightarrow> Inr (COk i (fld input ''result''))
           | Some False \<Rightarrow> Inr (CFail i (parseControlError (fld input ''error'')))))"

definition parse_opt_session :: "jv \<Rightarrow> (protocol_error, string option) result" where
  "parse_opt_session v =
     (if v = JUndef then Inr None
      else case str_of v of
             None \<Rightarrow> Inl (bad_message ''sessionId must be a string when provided'')
           | Some s \<Rightarrow> Inr (Some s))"

definition parse_opt_sequence :: "jv \<Rightarrow> (protocol_error, int option) result" where
  "parse_opt_sequence v =
     (if v = JUndef then Inr None
      else case int_of v of
             None \<Rightarrow> Inl (bad_message ''sequence must be a positive integer when provided'')
           | Some i \<Rightarrow> if i < 1 then Inl (bad_message ''sequence must be a positive integer when provided'')
                       else Inr (Some i))"

definition parseControlEvent :: "jv \<Rightarrow> (protocol_error, control_message) result" where
  "parseControlEvent input =
     (case nonblank_str (fld input ''event'') of
        None \<Rightarrow> Inl (bad_message ''event must be a non-empty string'')
      | Some e \<Rightarrow>
     (case nonblank_str (fld input ''eventId'') of
        None \<Rightarrow> Inl (bad_message ''eventId must be a non-empty string'')
      | Some i \<Rightarrow>
     (case nonblank_str (fld input ''occurredAt'') of
        None \<Rightarrow> Inl (bad_message ''occurredAt must be a non-empty string'')
      | Some t \<Rightarrow>
          rbind (parse_opt_session (fld input ''sessionId'')) (\<lambda>s.
          rbind (parse_opt_sequence (fld input ''sequence'')) (\<lambda>q.
          Inr (CEvent e i s q t (fld input ''data'')))))))"

definition parseControlMessage :: "jv \<Rightarrow> (protocol_error, control_message) result" where
  "parseControlMessage input =
     (if \<not> is_record input then Inl (bad_message ''message must be an object'')
      else if fld input ''type'' = JStr ''request'' then parseControlRequest input
      else if fld input ''type'' = JStr ''response'' then parseControlResponse input
      else if fld input ''type'' = JStr ''event'' then parseControlEvent input
      else Inl (bad_message ''type must be request, response, or event''))"

record route_registration =
  rr_match :: route_match
  rr_value :: string

definition parse_registration :: "nat \<times> jv \<Rightarrow> (protocol_error, route_registration) result" where
  "parse_registration = (\<lambda>(index, route).
     let pos = ''routes['' @ show_nat index @ '']''
     in if \<not> is_record route then Inl (bad_message (pos @ '' must be an object''))
        else case parse_match (fld route ''match'') of
               None \<Rightarrow> Inl (bad_message (pos @ ''.match must be exact or userPrefix''))
             | Some m \<Rightarrow>
                 (case nonblank_str (fld route ''value'') of
                    None \<Rightarrow> Inl (bad_message (pos @ ''.value must be a non-empty string''))
                  | Some v \<Rightarrow> Inr \<lparr>rr_match = m, rr_value = v\<rparr>))"

definition parseRouteRegistrations :: "jv \<Rightarrow> (protocol_error, route_registration list) result" where
  "parseRouteRegistrations input =
     (if \<not> is_record input then Inl (bad_message ''params must be an object'')
      else case arr_of (fld input ''routes'') of
             None \<Rightarrow> Inl (bad_message ''params.routes must be an array'')
           | Some routes \<Rightarrow> rmap parse_registration (enumerate 0 routes))"

section \<open>What the gateway writes\<close>

definition error_jv :: "control_error \<Rightarrow> jv" where
  "error_jv e = JObj [(''code'', JStr (err_code e)), (''message'', JStr (err_message e)), (''details'', err_details e)]"

fun message_jv :: "control_message \<Rightarrow> jv" where
  "message_jv (CRequest i m p) =
     JObj [(''type'', JStr ''request''), (''id'', JStr i), (''method'', JStr m), (''params'', p)]"
| "message_jv (COk i r) =
     JObj [(''type'', JStr ''response''), (''id'', JStr i), (''ok'', JBool True), (''result'', r)]"
| "message_jv (CFail i e) =
     JObj [(''type'', JStr ''response''), (''id'', JStr i), (''ok'', JBool False), (''error'', error_jv e)]"
| "message_jv (CEvent e i s q t d) =
     JObj [(''type'', JStr ''event''), (''event'', JStr e), (''eventId'', JStr i), (''sessionId'', opt_str s),
           (''sequence'', opt_int q), (''occurredAt'', JStr t), (''data'', d)]"

section \<open>Properties\<close>

definition valid_error :: "control_error \<Rightarrow> bool" where
  "valid_error e \<longleftrightarrow> \<not> blank (err_code e) \<and> \<not> blank (err_message e)"

fun valid_message :: "control_message \<Rightarrow> bool" where
  "valid_message (CRequest i m p) \<longleftrightarrow> \<not> blank i \<and> \<not> blank m"
| "valid_message (COk i r) \<longleftrightarrow> \<not> blank i"
| "valid_message (CFail i e) \<longleftrightarrow> \<not> blank i \<and> valid_error e"
| "valid_message (CEvent e i s q t d) \<longleftrightarrow> \<not> blank e \<and> \<not> blank i \<and> \<not> blank t
     \<and> (case q of None \<Rightarrow> True | Some n \<Rightarrow> 1 \<le> n)"

lemma nonblank_str_JStr [simp]: "\<not> blank s \<Longrightarrow> nonblank_str (JStr s) = Some s"
  by (simp add: nonblank_str_def)

lemma parseControlError_valid: "valid_error (parseControlError v)"
  by (auto simp: parseControlError_def makeControlError_def valid_error_def split: option.splits
      dest!: nonblank_str_Some[THEN iffD1]) (simp_all add: blank_def js_trim_def rdrop_while_def js_space_def code_def)

lemma parse_opt_sequence_ge1: "parse_opt_sequence v = Inr (Some n) \<Longrightarrow> 1 \<le> n"
  by (auto simp: parse_opt_sequence_def split: if_splits option.splits)

text \<open>
  C21. Every message the envelope parser accepts is well formed: identifiers, methods and event
  names are nonblank, a sequence number is positive, and an error always has a nonblank code and
  message, whatever the peer sent.
\<close>

theorem parsed_message_valid:
  assumes "parseControlMessage input = Inr m"
  shows "valid_message m"
  using assms
  by (auto simp: parseControlMessage_def parseControlRequest_def parseControlResponse_def parseControlEvent_def
      rbind_eq_Inr parseControlError_valid
      split: if_splits option.splits bool.splits dest!: nonblank_str_Some[THEN iffD1] dest: parse_opt_sequence_ge1)

theorem parsed_message_valid_witness:
  "valid_message (CFail ''7'' \<lparr>err_code = ''ERROR'', err_message = ''no'', err_details = JUndef\<rparr>)"
proof -
  have "parseControlMessage (JObj [(''type'', JStr ''response''), (''id'', JStr ''7''), (''ok'', JBool False),
     (''error'', JObj [(''code'', JStr '' ''), (''message'', JStr ''no'')])])
     = Inr (CFail ''7'' \<lparr>err_code = ''ERROR'', err_message = ''no'', err_details = JUndef\<rparr>)"
    by code_simp
  then show ?thesis by (rule parsed_message_valid)
qed

fun wire_message :: "control_message \<Rightarrow> control_message" where
  "wire_message (CRequest i m p) = CRequest i m (wire p)"
| "wire_message (COk i r) = COk i (wire r)"
| "wire_message (CFail i e) = CFail i (e\<lparr>err_details := wire (err_details e)\<rparr>)"
| "wire_message (CEvent e i s q t d) = CEvent e i s q t (wire d)"

lemma parse_error_jv: "valid_error e \<Longrightarrow> parseControlError (wire (error_jv e)) = e\<lparr>err_details := wire (err_details e)\<rparr>"
  by (cases e) (auto simp: error_jv_def parseControlError_def makeControlError_def valid_error_def)

lemma error_jv_defined [simp]: "error_jv e \<noteq> JUndef"
  by (simp add: error_jv_def)

lemma parse_opt_session_opt_str [simp]: "parse_opt_session (opt_str s) = Inr s"
  by (auto simp: parse_opt_session_def opt_str_def split: option.splits)

lemma parse_opt_sequence_opt_int [simp]:
  "(case q of None \<Rightarrow> True | Some n \<Rightarrow> 1 \<le> n) \<Longrightarrow> parse_opt_sequence (opt_int q) = Inr q"
  by (auto simp: parse_opt_sequence_def opt_int_def split: option.splits)

lemma fld_message: "fld (wire (message_jv m)) k = wire (fld (message_jv m) k)"
  by (cases m; simp only: message_jv.simps; subst fld_wire; simp)

lemma is_record_message: "is_record (wire (message_jv m))"
  by (cases m) auto

text \<open>
  C22. Parsing what the gateway puts on the wire gives the message back, up to what JSON does to
  its payload: requests, both kinds of responses and events.
\<close>

theorem control_message_roundtrip:
  assumes "valid_message m"
  shows "parseControlMessage (wire (message_jv m)) = Inr (wire_message m)"
proof -
  note f = fld_message and r = is_record_message
  show ?thesis
  proof (cases m)
    case (CRequest i me p)
    with assms show ?thesis
      by (simp only: parseControlMessage_def r f parseControlRequest_def) simp
  next
    case (COk i p)
    with assms show ?thesis
      by (simp only: parseControlMessage_def r f parseControlResponse_def) simp
  next
    case (CFail i e)
    with assms parse_error_jv [of e] show ?thesis
      by (simp only: parseControlMessage_def r f parseControlResponse_def) simp
  next
    case (CEvent e i s q t d)
    with assms show ?thesis
      by (simp only: parseControlMessage_def r f parseControlEvent_def) simp
  qed
qed

theorem control_message_roundtrip_witness:
  "parseControlMessage (wire (message_jv (CEvent ''sip.bye'' ''e1'' (Some ''s1'') (Some 3) ''now'' JUndef)))
   = Inr (CEvent ''sip.bye'' ''e1'' (Some ''s1'') (Some 3) ''now'' JUndef)"
proof -
  have "valid_message (CEvent ''sip.bye'' ''e1'' (Some ''s1'') (Some 3) ''now'' JUndef)" by code_simp
  from control_message_roundtrip [OF this] show ?thesis by simp
qed

end
