(* ===== verification/ControlLog.thy ===== *)
theory ControlLog
  imports ControlProtocol
begin

text \<open>
  Log scrubbing (\<open>src/control-log.ts\<close>): what may be written to the log of a control or rtpbridge
  message. The model follows the code's order of tests. A method name that happens to be inherited
  from \<open>Object.prototype\<close> makes the field table return something that is not an array, and
  scrubbing an object then throws a \<open>TypeError\<close>.
\<close>

definition REDACTED :: string where
  "REDACTED = ''[REDACTED]''"

section \<open>Scalars\<close>

text \<open>\<open>Buffer.byteLength\<close>: UTF-8.\<close>

definition byteLength :: "string \<Rightarrow> nat" where
  "byteLength s = sum_list (map (\<lambda>c. if code c < 128 then 1 else 2) s)"

abbreviation jnat :: "nat \<Rightarrow> jv" where
  "jnat n \<equiv> JNum (Fin (of_nat n))"

definition type_name :: "jv \<Rightarrow> string" where
  "type_name v = (case v of JNull \<Rightarrow> ''null'' | JArr _ \<Rightarrow> ''array'' | JUndef \<Rightarrow> ''undefined''
     | JBool _ \<Rightarrow> ''boolean'' | JNum _ \<Rightarrow> ''number'' | JStr _ \<Rightarrow> ''string'' | JObj _ \<Rightarrow> ''object'')"

definition typeMarker :: "jv \<Rightarrow> jv" where
  "typeMarker v = JObj [(''redacted'', JBool True), (''type'', JStr (type_name v))]"

text \<open>\<open>replace(/\d{6,}/g, digits => '~'.repeat(digits.length))\<close>\<close>

definition mask :: "string \<Rightarrow> string" where
  "mask s = replicate (length s) (CHR ''~'')"

function redactDigitRuns :: "string \<Rightarrow> string" where
  "redactDigitRuns [] = []"
| "redactDigitRuns (c # cs) =
     (if is_digit c
      then (let d = takeWhile is_digit (c # cs)
            in (if length d \<ge> 6 then mask d else d) @ redactDigitRuns (dropWhile is_digit (c # cs)))
      else c # redactDigitRuns cs)"
  by pat_completeness auto
termination
  by (relation "measure length") (auto simp: le_imp_less_Suc length_dropWhile_le)

definition word_char :: "char \<Rightarrow> bool" where
  "word_char c \<longleftrightarrow> is_alnum c \<or> c = CHR ''_''"

definition is_alpha :: "char \<Rightarrow> bool" where
  "is_alpha c \<longleftrightarrow> is_upper c \<or> is_lower c"

text \<open>\<open>/^[A-Za-z0-9-]{1,64}$/\<close>\<close>

definition safeHeaderName :: "string \<Rightarrow> string" where
  "safeHeaderName v = (if v \<noteq> [] \<and> length v \<le> 64 \<and> list_all (\<lambda>c. is_alnum c \<or> c = CHR ''-'') v
     then map to_lower v else REDACTED)"

text \<open>\<open>/^[A-Za-z_][A-Za-z0-9_.-]{0,63}$/\<close>\<close>

definition safe_key :: "string \<Rightarrow> bool" where
  "safe_key v \<longleftrightarrow> v \<noteq> [] \<and> length v \<le> 64 \<and> (is_alpha (hd v) \<or> hd v = CHR ''_'')
     \<and> list_all (\<lambda>c. word_char c \<or> c = CHR ''.'' \<or> c = CHR ''-'') (tl v)"

definition safeQueryKey :: "string \<Rightarrow> string" where
  "safeQueryKey v = (if safe_key v then v else REDACTED)"

definition safeFieldName :: "string \<Rightarrow> string" where
  "safeFieldName v = (if safe_key v then v else ''[REDACTED_FIELD]'')"

text \<open>\<open>/^[A-Za-z][A-Za-z0-9_.]{0,127}$/\<close>\<close>

definition safeProtocolName :: "string \<Rightarrow> string" where
  "safeProtocolName v = (if v \<noteq> [] \<and> length v \<le> 128 \<and> is_alpha (hd v)
     \<and> list_all (\<lambda>c. word_char c \<or> c = CHR ''.'') (tl v) then v else REDACTED)"

text \<open>\<open>/^[A-Z][A-Z0-9_]{0,63}$/\<close>\<close>

definition error_code_name :: "string \<Rightarrow> bool" where
  "error_code_name v \<longleftrightarrow> v \<noteq> [] \<and> length v \<le> 64 \<and> is_upper (hd v)
     \<and> list_all (\<lambda>c. is_upper c \<or> is_digit c \<or> c = CHR ''_'') (tl v)"

definition normalizeField :: "string \<Rightarrow> string" where
  "normalizeField v = map to_lower (filter (\<lambda>c. c \<noteq> CHR ''_'') v)"

definition scrubIdentifier :: "jv \<Rightarrow> jv" where
  "scrubIdentifier v =
     (case str_of v of
        None \<Rightarrow> typeMarker v
      | Some s \<Rightarrow>
          if length s > 128 \<or> s = [] \<or> \<not> list_all (\<lambda>c. word_char c \<or> c \<in> set ''.:@-'') s
          then JObj [(''redacted'', JBool True), (''bytes'', jnat (byteLength s))]
          else JStr (redactDigitRuns s))"

section \<open>Summaries\<close>

definition safeCodec :: "string \<Rightarrow> string" where
  "safeCodec v =
     (let codec = map to_lower v
      in if codec = ''pcmu'' then ''PCMU'' else if codec = ''pcma'' then ''PCMA''
         else if codec = ''g722'' then ''G722'' else if codec = ''opus'' then ''opus''
         else if codec = ''telephone-event'' then ''telephone-event'' else ''other'')"

text \<open>\<open>split(/\r?\n/)\<close>\<close>

definition split_lines :: "string \<Rightarrow> string list" where
  "split_lines s =
     (let ls = split_on (CHR 0x0A) s
      in map (\<lambda>l. if l \<noteq> [] \<and> last l = CHR 0x0D then butlast l else l) (butlast ls) @ [last ls])"

fun str_includes :: "string \<Rightarrow> string \<Rightarrow> bool" where
  "str_includes [] p \<longleftrightarrow> p = []"
| "str_includes (c # cs) p \<longleftrightarrow> starts_with (c # cs) p \<or> str_includes cs p"

definition sdp_media :: "string \<Rightarrow> string option" where
  "sdp_media line =
     (let media = takeWhile (\<lambda>c. \<not> js_space c) (drop 2 line)
      in if starts_with line ''m='' \<and> media \<in> set [''audio'', ''video'', ''application''] then Some media else None)"

definition sdp_codec :: "string \<Rightarrow> string option" where
  "sdp_codec line =
     (let rest = dropWhile (\<lambda>c. \<not> js_space c) line;
          token = takeWhile (\<lambda>c. \<not> js_space c) (dropWhile js_space rest);
          codec = takeWhile (\<lambda>c. c \<noteq> CHR ''/'') token
      in if starts_with line ''a=rtpmap:'' \<and> rest \<noteq> [] \<and> codec \<noteq> [] then Some (safeCodec codec) else None)"

definition sdp_direction :: "string \<Rightarrow> string option" where
  "sdp_direction line =
     (if starts_with line ''a='' \<and> drop 2 line \<in> set [''sendrecv'', ''sendonly'', ''recvonly'', ''inactive'']
      then Some (drop 2 line) else None)"

definition collect_sorted :: "(string \<Rightarrow> string option) \<Rightarrow> string list \<Rightarrow> jv" where
  "collect_sorted f lines = JArr (map JStr (sort (dedup (List.map_filter f lines))))"

definition summarizeSdp :: "jv \<Rightarrow> jv" where
  "summarizeSdp v =
     (case str_of v of
        None \<Rightarrow> typeMarker v
      | Some s \<Rightarrow>
          let lines = map js_trim (split_lines s)
          in JObj [(''bytes'', jnat (byteLength s)),
               (''mediaTypes'', collect_sorted sdp_media lines),
               (''codecs'', collect_sorted sdp_codec lines),
               (''directions'', collect_sorted sdp_direction lines),
               (''candidateCount'', jnat (length (filter (\<lambda>l. starts_with l ''a=candidate:'') lines))),
               (''hasIce'', JBool (list_ex (\<lambda>l. starts_with l ''a=ice-ufrag:'' \<or> starts_with l ''a=ice-pwd:'') lines)),
               (''hasSrtp'', JBool (list_ex (\<lambda>l. starts_with l ''a=fingerprint:'' \<or> starts_with l ''a=crypto:''
                  \<or> str_includes l ''RTP/SAVP'') lines))])"

definition summarizeHeaders :: "jv \<Rightarrow> jv" where
  "summarizeHeaders v =
     (if \<not> is_record v then typeMarker v
      else JObj [(''names'', JArr (map JStr (sort (map (\<lambda>p. safeHeaderName (fst p)) (entries v))))),
                 (''count'', jnat (length (entries v)))])"

definition summarizeAuth :: "jv \<Rightarrow> jv" where
  "summarizeAuth v =
     (if \<not> is_record v then typeMarker v
      else JObj [(''username'', case str_of (fld v ''username'') of
                    None \<Rightarrow> typeMarker (fld v ''username'')
                  | Some s \<Rightarrow> JObj [(''present'', JBool True), (''bytes'', jnat (byteLength s))]),
                 (''password'', JStr REDACTED)])"

text \<open>\<open>path.basename\<close> of POSIX paths\<close>

definition basename :: "string \<Rightarrow> string" where
  "basename p = rev (takeWhile (\<lambda>c. c \<noteq> CHR ''/'') (rev (rdrop_while (\<lambda>c. c = CHR ''/'') p)))"

definition summarizePath :: "jv \<Rightarrow> jv" where
  "summarizePath v =
     (case str_of v of
        None \<Rightarrow> typeMarker v
      | Some s \<Rightarrow> JObj [(''basename'', JStr (redactDigitRuns (basename s))), (''bytes'', jnat (byteLength s))])"

text \<open>
  The match of \<open>summarizeUri\<close>'s regular expression: scheme, host, path and query. The optional
  user part is taken when a host follows it, and is skipped otherwise.
\<close>

definition uri_scheme :: "string \<Rightarrow> (string \<times> string) option" where
  "uri_scheme s =
     (let sch = takeWhile (\<lambda>c. c \<noteq> CHR '':'') s
      in if length sch < length s
            \<and> map to_lower sch \<in> set [''sip'', ''sips'', ''http'', ''https'', ''ws'', ''wss'']
         then Some (map to_lower sch, drop (Suc (length sch)) s) else None)"

definition strip_slashes :: "string \<Rightarrow> string" where
  "strip_slashes s = (if starts_with s ''//'' then drop 2 s else s)"

definition uri_host :: "string \<Rightarrow> string" where
  "uri_host r = takeWhile (\<lambda>c. c \<notin> set '';/?'') r"

definition uri_after_user :: "string \<Rightarrow> string option" where
  "uri_after_user r =
     (let u = takeWhile (\<lambda>c. c \<noteq> CHR ''@'' \<and> c \<noteq> CHR ''/'') r; r' = drop (length u) r
      in if u \<noteq> [] \<and> r' \<noteq> [] \<and> hd r' = CHR ''@'' \<and> uri_host (tl r') \<noteq> [] then Some (tl r') else None)"

definition uri_match :: "string \<Rightarrow> (string \<times> string \<times> string \<times> string option) option" where
  "uri_match s =
     (case uri_scheme s of
        None \<Rightarrow> None
      | Some (sch, rest) \<Rightarrow>
          let r = strip_slashes rest;
              r' = (case uri_after_user r of Some x \<Rightarrow> x | None \<Rightarrow> r);
              host = uri_host r';
              after = drop (length host) r';
              path = takeWhile (\<lambda>c. c \<noteq> CHR ''?'' \<and> c \<noteq> CHR ''#'') after;
              q = drop (length path) after
          in if host = [] then None
             else Some (sch, host, path,
                    if q \<noteq> [] \<and> hd q = CHR ''?'' then Some (takeWhile (\<lambda>c. c \<noteq> CHR ''#'') (tl q)) else None))"

definition summarizeUri :: "jv \<Rightarrow> jv" where
  "summarizeUri v =
     (case str_of v of
        None \<Rightarrow> typeMarker v
      | Some s \<Rightarrow>
          (case uri_match s of
             None \<Rightarrow> JObj [(''bytes'', jnat (byteLength s)), (''redacted'', JBool True)]
           | Some (sch, host, path, q) \<Rightarrow>
               let userPart = hd (split_on (CHR ''@'') (strip_slashes (drop 1 (dropWhile (\<lambda>c. c \<noteq> CHR '':'') s))));
                   at_sign = CHR ''@'' \<in> set s
               in JObj [(''scheme'', JStr sch), (''host'', JStr (redactDigitRuns host)),
                    (''path'', JStr (redactDigitRuns path)),
                    (''user'', JObj [(''present'', JBool at_sign),
                        (''bytes'', if at_sign then jnat (byteLength userPart) else jnat 0)]),
                    (''hasQuery'', JBool (case q of None \<Rightarrow> False | Some x \<Rightarrow> x \<noteq> []))]))"

definition summarizeUrlOrPath :: "(string \<Rightarrow> url option) \<Rightarrow> jv \<Rightarrow> jv" where
  "summarizeUrlOrPath url_parse v =
     (case str_of v of
        None \<Rightarrow> typeMarker v
      | Some s \<Rightarrow>
          (case url_parse s of
             None \<Rightarrow> summarizePath v
           | Some u \<Rightarrow>
               if u_protocol u \<notin> set [''http:'', ''https:'', ''ws:'', ''wss:''] then summarizeUri v
               else JObj [(''kind'', JStr ''url''), (''scheme'', JStr (butlast (u_protocol u))),
                      (''host'', JStr (redactDigitRuns (u_hostname u))),
                      (''path'', JStr (redactDigitRuns (u_pathname u))),
                      (''queryKeys'', JArr (map JStr (sort (dedup (map safeQueryKey (u_query_keys u)))))),
                      (''hasUserinfo'', JBool (u_username u \<noteq> [] \<or> u_password u \<noteq> []))]))"

definition dtmf_char :: "char \<Rightarrow> bool" where
  "dtmf_char c \<longleftrightarrow> is_digit c \<or> c \<in> set ''ABCD#*''"

definition summarizeDigits :: "jv \<Rightarrow> bool \<Rightarrow> jv" where
  "summarizeDigits v sensitive =
     (case str_of v of
        None \<Rightarrow> typeMarker v
      | Some s \<Rightarrow>
          if sensitive \<or> length s \<ge> 6 then JStr (mask s)
          else if s \<noteq> [] \<and> list_all dtmf_char s then JStr s else JStr REDACTED)"

definition summarizeArray :: "jv \<Rightarrow> jv" where
  "summarizeArray v = (case arr_of v of Some xs \<Rightarrow> JObj [(''count'', jnat (length xs))] | None \<Rightarrow> typeMarker v)"

definition safe_enum_values :: "string list" where
  "safe_enum_values =
     [''active'', ''answer'', ''auto'', ''buffering'', ''checking'', ''completed'', ''connected'', ''connecting'',
      ''disconnected'', ''exact'', ''finished'', ''inactive'', ''new'', ''paused'', ''playing'', ''recvonly'',
      ''reject'', ''rtp'', ''sendonly'', ''sendrecv'', ''userPrefix'', ''webrtc'']"

definition summarizeEnum :: "jv \<Rightarrow> jv" where
  "summarizeEnum v =
     (case str_of v of None \<Rightarrow> typeMarker v
      | Some s \<Rightarrow> if s \<in> set safe_enum_values then JStr s else JStr REDACTED)"

definition summarizeText :: "jv \<Rightarrow> jv" where
  "summarizeText v =
     (case str_of v of
        None \<Rightarrow> typeMarker v
      | Some s \<Rightarrow> JObj [(''bytes'', jnat (byteLength s)), (''digitRunsRedacted'', JBool (redactDigitRuns s \<noteq> s))])"

definition summarizeRoutes :: "jv \<Rightarrow> jv" where
  "summarizeRoutes v =
     (case arr_of v of
        None \<Rightarrow> typeMarker v
      | Some rs \<Rightarrow> JArr (map (\<lambda>route. if \<not> is_record route then typeMarker route
            else JObj [(''match'', summarizeEnum (fld route ''match'')), (''value'', scrubIdentifier (fld route ''value''))]) rs))"

definition present_if :: "jv \<Rightarrow> jv \<Rightarrow> jv" where
  "present_if v shown = (if v = JUndef then JUndef else shown)"

definition summarizeIceServer :: "jv \<Rightarrow> jv" where
  "summarizeIceServer server =
     (if \<not> is_record server then typeMarker server
      else JObj [(''urls'', case arr_of (fld server ''urls'') of
                    Some us \<Rightarrow> JArr (map summarizeUri us)
                  | None \<Rightarrow> JArr [summarizeUri (fld server ''urls'')]),
                 (''username'', present_if (fld server ''username'') (JObj [(''present'', JBool True)])),
                 (''credential'', present_if (fld server ''credential'') (JStr REDACTED))])"

definition summarizeIceConfiguration :: "jv \<Rightarrow> jv" where
  "summarizeIceConfiguration v =
     (if \<not> is_record v then typeMarker v
      else JObj [(''backendId'', scrubIdentifier (fld v ''backendId'')),
                 (''mediaIp'', present_if (fld v ''mediaIp'') (JObj [(''present'', JBool True)])),
                 (''expiresAt'', present_if (fld v ''expiresAt'') (JObj [(''present'', JBool True)])),
                 (''servers'', case arr_of (fld v ''servers'') of
                    Some ss \<Rightarrow> JArr (map summarizeIceServer ss) | None \<Rightarrow> typeMarker (fld v ''servers''))])"

definition scrubError :: "jv \<Rightarrow> jv" where
  "scrubError v =
     (if \<not> is_record v then typeMarker v
      else JObj [(''code'', case str_of (fld v ''code'') of
                    Some c \<Rightarrow> if error_code_name c then JStr c else JStr REDACTED | None \<Rightarrow> JStr REDACTED),
                 (''message'', case str_of (fld v ''message'') of
                    Some m \<Rightarrow> JObj [(''redacted'', JBool True), (''bytes'', jnat (byteLength m))]
                  | None \<Rightarrow> typeMarker (fld v ''message'')),
                 (''details'', present_if (fld v ''details'') (typeMarker (fld v ''details'')))])"

section \<open>Field tables\<close>

text \<open>
  \<open>fields[method] ?? []\<close> on an object literal: a name the literal does not have is looked up on
  \<open>Object.prototype\<close>. What is found there has a \<open>length\<close> (the arity of a function; the prototype
  object itself has none, which counts as 0) and no \<open>map\<close>.
\<close>

datatype field_table = Own "string list" | Inherited nat

definition object_prototype :: "(string \<times> nat) list" where
  "object_prototype =
     [(''constructor'', 1), (''hasOwnProperty'', 1), (''isPrototypeOf'', 1), (''propertyIsEnumerable'', 1),
      (''toLocaleString'', 0), (''toString'', 0), (''valueOf'', 0), (''__defineGetter__'', 2),
      (''__defineSetter__'', 2), (''__lookupGetter__'', 1), (''__lookupSetter__'', 1), (''__proto__'', 0)]"

definition table_lookup :: "(string \<times> string list) list \<Rightarrow> string \<Rightarrow> field_table" where
  "table_lookup t k =
     (case map_of t k of
        Some fs \<Rightarrow> Own fs
      | None \<Rightarrow> (case map_of object_prototype k of Some n \<Rightarrow> Inherited n | None \<Rightarrow> Own []))"

definition table_length :: "field_table \<Rightarrow> nat" where
  "table_length t = (case t of Own fs \<Rightarrow> length fs | Inherited n \<Rightarrow> n)"

definition request_table :: "(string \<times> string list) list" where
  "request_table =
     [
      (''route.register'', [''routes'']),
      (''session.get'', [''sessionId'']),
      (''session.delete'', [''sessionId'', ''reason'', ''headers'']),
      (''session.create'', [''callId'']),
      (''sip.createOutbound'', [''requestUri'', ''sdp'', ''headers'', ''receiverUrl'', ''callingNumber'', ''callingName'',
        ''proxy'', ''outboundAttemptId'', ''auth'']),
      (''sip.cancelOutbound'', [''outboundAttemptId'']),
      (''sip.reinvite'', [''sessionId'', ''callId'', ''sdp'', ''headers'', ''event'', ''sipCallId'', ''receivedAt'']),
      (''sip.bye'', [''sessionId'', ''callId'', ''reason'', ''headers'', ''event'', ''sipCallId'',
        ''receivedAt'']),
      (''sip.invite'', [''event'', ''callId'', ''sipCallId'', ''destinationUri'', ''destinationUser'',
        ''sourceUri'', ''from'', ''to'', ''contact'', ''headers'', ''sdp'', ''receivedAt'']),
      (''sip.answered'', [''event'', ''callId'', ''sipCallId'', ''headers'', ''sdp'', ''status'', ''reason'',
        ''receivedAt'']),
      (''sip.terminated'', [''event'', ''callId'', ''sipCallId'', ''headers'', ''sdp'', ''status'', ''reason'',
        ''receivedAt'']),
      (''webrtc.createOffer'', [''sessionId'', ''direction'']),
      (''webrtc.createFromOffer'', [''sessionId'', ''sdp'', ''direction'']),
      (''webrtc.acceptAnswer'', [''endpointId'', ''sdp'', ''offerGeneration'']),
      (''webrtc.acceptOffer'', [''endpointId'', ''sdp'']),
      (''webrtc.restartIce'', [''endpointId'']),
      (''rtp.createOffer'', [''sessionId'', ''direction'', ''srtp'', ''srtpOptional'', ''codecs'']),
      (''rtp.createFromOffer'', [''sessionId'', ''sdp'', ''direction'']),
      (''rtp.acceptAnswer'', [''endpointId'', ''sdp'']),
      (''rtp.reinvite'', [''endpointId'', ''sdp'']),
      (''media.play'', [''sessionId'', ''source'', ''loopCount'', ''cacheTtlSecs'', ''headers'']),
      (''media.playAndWait'', [''sessionId'', ''source'', ''playbackTimeoutMs'']),
      (''media.stop'', [''endpointId'']),
      (''endpoint.updateDirection'', [''endpointId'', ''direction'']),
      (''media.bridge'', [''sessionId'', ''targetSessionId'', ''target_session_id'', ''direction'']),
      (''media.unbridge'', [''endpointId'']),
      (''media.gather'', [''sessionId'', ''endpointId'', ''numDigits'', ''timeoutMs'', ''interDigitTimeoutMs'',
        ''terminator'', ''sensitive'']),
      (''media.playAndGather'', [''sessionId'', ''endpointId'', ''source'', ''loopCount'', ''cacheTtlSecs'', ''headers'',
        ''numDigits'', ''timeoutMs'', ''interDigitTimeoutMs'', ''terminator'',
        ''stopPlaybackOnDigit'', ''postPlaybackTimeoutMs'', ''sensitive'']),
      (''media.leaveMessage'', [''sessionId'', ''endpointId'', ''messageSource'', ''promptSource'', ''maxWaitMs'',
        ''maxDurationMs'', ''playbackTimeoutMs'', ''silenceIntervalMs'', ''speechThreshold'',
        ''terminator'']),
      (''dtmf.inject'', [''endpointId'', ''digit'']),
      (''recording.start'', [''sessionId'', ''endpointId'', ''filePath'']),
      (''recording.stop'', [''recordingId'']),
      (''recording.list'', [''backendId'', ''startsWith'', ''skip'', ''limit'']),
      (''recording.delete'', [''backendId'', ''path'']),
      (''event.ack'', [''eventId'', ''sessionId'', ''sequence''])
     ]"

definition requestFields :: "string \<Rightarrow> field_table" where
  "requestFields method = table_lookup request_table method"

definition response_common :: "string list" where
  "response_common =
     [''ok'', ''sessionId'', ''sipCallId'', ''outboundAttemptId'', ''endpointId'',
      ''targetEndpointId'', ''recordingId'', ''backendId'', ''sdp'', ''sdpOffer'', ''sdpAnswer'',
      ''offerGeneration'', ''iceConfiguration'', ''action'', ''status'', ''reason'', ''headers'',
      ''receiverUrl'', ''digits'', ''terminatedBy'', ''playbackEndpointId'', ''messagePlayed'',
      ''terminator'', ''played'', ''deleted'', ''filePath'', ''recordingPath'', ''downloadPath'',
      ''durationMs'', ''packets'', ''routes'', ''sessions'', ''recordings'', ''total'', ''skip'',
      ''limit'']"

definition responseFields :: "string option \<Rightarrow> string list" where
  "responseFields method =
     (case method of
        None \<Rightarrow> []
      | Some m \<Rightarrow>
          if m = [] then []
          else if table_length (requestFields m) \<noteq> 0 \<or> m = ''session.list'' \<or> starts_with m ''sip.''
          then response_common else [])"

definition eventFields :: "string \<Rightarrow> field_table" where
  "eventFields event =
     (if event = ''control.connected'' then Own [''connectionId'']
      else if event = ''dtmf'' then Own [''endpointId'', ''digit'', ''durationMs'', ''sensitive'']
      else if starts_with event ''sip.'' then requestFields event
      else Own [])"

definition rtpbridge_request_table :: "(string \<times> string list) list" where
  "rtpbridge_request_table =
     [
      (''session.create'', []),
      (''session.destroy'', [''sessionId'']),
      (''server.info'', []),
      (''endpoint.webrtc.create_offer'', [''sessionId'', ''direction'']),
      (''endpoint.webrtc.create_from_offer'', [''sessionId'', ''sdp'', ''direction'']),
      (''endpoint.webrtc.accept_answer'', [''endpointId'', ''sdp'', ''offerGeneration'']),
      (''endpoint.webrtc.accept_offer'', [''endpointId'', ''sdp'']),
      (''endpoint.webrtc.ice_restart'', [''endpointId'']),
      (''endpoint.rtp.create_offer'', [''sessionId'', ''direction'', ''srtp'', ''srtpOptional'', ''codecs'']),
      (''endpoint.rtp.create_from_offer'', [''sessionId'', ''sdp'', ''direction'']),
      (''endpoint.rtp.accept_answer'', [''endpointId'', ''sdp'']),
      (''endpoint.rtp.reinvite'', [''endpointId'', ''sdp'']),
      (''session.bridge'', [''targetSessionId'', ''direction'']),
      (''endpoint.dtmf.inject'', [''endpointId'', ''digit'']),
      (''endpoint.dtmf.set_sensitive'', [''endpointId'', ''enabled'']),
      (''endpoint.create_with_file'', [''sessionId'', ''source'', ''loopCount'', ''startMs'', ''timeoutMs'', ''cacheTtlSecs'',
        ''shared'', ''headers'']),
      (''endpoint.create_tone'', [''sessionId'', ''tone'', ''frequency'', ''durationMs'']),
      (''endpoint.remove'', [''endpointId'']),
      (''endpoint.update_direction'', [''endpointId'', ''direction'']),
      (''recording.start'', [''sessionId'', ''endpointId'', ''filePath'']),
      (''recording.stop'', [''recordingId'']),
      (''vad.start'', [''endpointId'', ''silenceIntervalMs'', ''speechThreshold'']),
      (''vad.stop'', [''endpointId''])
     ]"

definition rtpbridgeRequestFields :: "string \<Rightarrow> field_table" where
  "rtpbridgeRequestFields method = table_lookup rtpbridge_request_table method"

definition rtpbridge_response_common :: "string list" where
  "rtpbridge_response_common =
     [''sessionId'', ''endpointId'', ''targetEndpointId'', ''recordingId'', ''sdp'',
      ''sdpOffer'', ''sdpAnswer'', ''offerGeneration'', ''connectToken'', ''filePath'',
      ''durationMs'', ''packets'', ''hostname'', ''version'', ''mediaIp'', ''tone'', ''ok'']"

definition rtpbridgeResponseFields :: "string \<Rightarrow> string list" where
  "rtpbridgeResponseFields method =
     (if table_length (rtpbridgeRequestFields method) \<noteq> 0 \<or> method \<in> set [''session.create'', ''server.info'']
      then rtpbridge_response_common else [])"

definition rtpbridge_event_common :: "string list" where
  "rtpbridge_event_common =
     [''endpointId'', ''recordingId'', ''targetSessionId'', ''sourceSessionId'', ''sessionId'',
      ''digit'', ''durationMs'', ''sensitive'', ''oldState'', ''newState'', ''iceState'',
      ''reason'', ''error'', ''filePath'', ''packets'', ''droppedPackets'',
      ''silenceDurationMs'', ''timeoutRemainingMs'', ''idleTimeoutSecs'', ''emptyTimeoutSecs'',
      ''count'', ''endpoints'']"

definition rtpbridgeEventFields :: "string \<Rightarrow> string list" where
  "rtpbridgeEventFields event =
     (if event = ''dtmf'' \<or> starts_with event ''endpoint.'' \<or> starts_with event ''recording.''
         \<or> starts_with event ''session.'' \<or> starts_with event ''vad.'' \<or> starts_with event ''fax.''
         \<or> event = ''events.dropped'' \<or> event = ''stats''
      then rtpbridge_event_common else [])"

section \<open>Known fields\<close>

definition secret_fields :: "string list" where
  "secret_fields = [''password'', ''credential'', ''connecttoken'', ''token'', ''authorization'']"

definition ends_with :: "string \<Rightarrow> string \<Rightarrow> bool" where
  "ends_with s p \<longleftrightarrow> length p \<le> length s \<and> drop (length s - length p) s = p"

text \<open>\<open>context.sensitive\<close> may be absent: \<open>context.sensitive ?? true\<close>.\<close>

definition scrubKnownField :: "(string \<Rightarrow> url option) \<Rightarrow> string \<Rightarrow> jv \<Rightarrow> bool option \<Rightarrow> jv" where
  "scrubKnownField url_parse key v sensitive =
     (let n = normalizeField key in
      if n \<in> set secret_fields then JStr REDACTED
      else if n \<in> set [''sdp'', ''sdpoffer'', ''sdpanswer'', ''localsdp'', ''remotesdp''] then summarizeSdp v
      else if n = ''headers'' then summarizeHeaders v
      else if n = ''auth'' then summarizeAuth v
      else if n \<in> set [''source'', ''messagesource'', ''promptsource'', ''receiverurl'', ''downloadpath'']
        then summarizeUrlOrPath url_parse v
      else if n \<in> set [''requesturi'', ''destinationuri'', ''sourceuri'', ''from'', ''to'', ''contact'', ''proxy'']
        then summarizeUri v
      else if n \<in> set [''filepath'', ''recordingpath'', ''path''] then summarizePath v
      else if n = ''digit'' \<or> n = ''digits''
        then summarizeDigits v (case sensitive of None \<Rightarrow> True | Some b \<Rightarrow> b)
      else if n = ''terminator'' then summarizeDigits v False
      else if ends_with n ''id'' then scrubIdentifier v
      else if n = ''routes'' then summarizeRoutes v
      else if n = ''iceconfiguration'' then summarizeIceConfiguration v
      else if n \<in> set [''servers'', ''sessions'', ''recordings'', ''endpoints'', ''codecs''] then summarizeArray v
      else if n \<in> set [''direction'', ''action'', ''match'', ''event'', ''state'', ''oldstate'', ''newstate'',
          ''endpointtype'', ''icestate'', ''tone''] then summarizeEnum v
      else if n = ''reason'' then summarizeText v
      else (case v of
              JBool b \<Rightarrow> v
            | JNum x \<Rightarrow> v
            | JNull \<Rightarrow> v
            | JStr s \<Rightarrow> JObj [(''stringBytes'', jnat (byteLength s))]
            | JArr xs \<Rightarrow> summarizeArray v
            | JObj fs \<Rightarrow> JObj [(''objectFields'', jnat (length fs))]
            | JUndef \<Rightarrow> typeMarker v))"

datatype log_error = LogTypeError

definition scrub_entry :: "(string \<Rightarrow> url option) \<Rightarrow> string list \<Rightarrow> bool option \<Rightarrow> string \<times> jv \<Rightarrow> string \<times> jv" where
  "scrub_entry url_parse allowed sensitive = (\<lambda>(key, v).
     (safeFieldName key,
      if normalizeField key \<in> set (map normalizeField allowed)
      then scrubKnownField url_parse key v sensitive else typeMarker v))"

text \<open>\<open>Object.fromEntries\<close>\<close>

definition from_entries :: "(string \<times> jv) list \<Rightarrow> (string \<times> jv) list" where
  "from_entries es = foldl (\<lambda>acc (k, v). oset k v acc) [] es"

definition scrubKnownObject ::
  "(string \<Rightarrow> url option) \<Rightarrow> jv \<Rightarrow> field_table \<Rightarrow> bool option \<Rightarrow> (log_error, jv) result" where
  "scrubKnownObject url_parse v allowed sensitive =
     (if \<not> is_record v then Inr (typeMarker v)
      else case allowed of
             Inherited _ \<Rightarrow> Inl LogTypeError
           | Own fs \<Rightarrow> Inr (JObj (from_entries (map (scrub_entry url_parse fs sensitive) (entries v)))))"

section \<open>Messages\<close>

definition isSensitiveControlRequest :: "string \<Rightarrow> jv \<Rightarrow> bool" where
  "isSensitiveControlRequest method params \<longleftrightarrow>
     (method = ''media.gather'' \<or> method = ''media.playAndGather'')
     \<and> is_record params \<and> fld params ''sensitive'' = JBool True"

definition scrubControlRequest ::
  "(string \<Rightarrow> url option) \<Rightarrow> jv \<Rightarrow> string \<Rightarrow> jv \<Rightarrow> (log_error, jv) result" where
  "scrubControlRequest url_parse i method params =
     rbind (scrubKnownObject url_parse params (requestFields method) (Some (isSensitiveControlRequest method params)))
       (\<lambda>value. Inr (JObj [(''type'', JStr ''request''), (''id'', scrubIdentifier i),
           (''method'', JStr (safeProtocolName method)), (''value'', value)]))"

definition response_log :: "string \<Rightarrow> string option \<Rightarrow> bool \<Rightarrow> jv \<Rightarrow> jv" where
  "response_log i method ok value =
     JObj [(''type'', JStr ''response''), (''id'', scrubIdentifier (JStr i)),
       (''method'', case method of None \<Rightarrow> JUndef | Some m \<Rightarrow> if m = [] then JUndef else JStr (safeProtocolName m)),
       (''ok'', JBool ok), (''value'', value)]"

text \<open>A response is \<open>COk\<close> or \<open>CFail\<close>; the two cases are the branches of \<open>response.ok\<close>.\<close>

definition scrubControlResponse_ok ::
  "(string \<Rightarrow> url option) \<Rightarrow> string \<Rightarrow> jv \<Rightarrow> string option \<Rightarrow> bool option \<Rightarrow> (log_error, jv) result" where
  "scrubControlResponse_ok url_parse i res method sensitive =
     rbind (scrubKnownObject url_parse res (Own (responseFields method)) sensitive)
       (\<lambda>v. Inr (response_log i method True v))"

definition scrubControlResponse_fail :: "string \<Rightarrow> jv \<Rightarrow> string option \<Rightarrow> jv" where
  "scrubControlResponse_fail i err method = response_log i method False (scrubError err)"

definition eventIsSensitiveDtmf :: "jv \<Rightarrow> bool" where
  "eventIsSensitiveDtmf v =
     (if \<not> is_record v then True
      else case bool_of (fld v ''sensitive'') of
             Some b \<Rightarrow> b
           | None \<Rightarrow>
               if fld v ''event'' = JStr ''dtmf'' \<and> is_record (fld v ''data'')
               then (case bool_of (fld (fld v ''data'') ''sensitive'') of Some b \<Rightarrow> b | None \<Rightarrow> True)
               else True)"

definition scrubRtpbridgeRequest ::
  "(string \<Rightarrow> url option) \<Rightarrow> jv \<Rightarrow> string \<Rightarrow> jv \<Rightarrow> (log_error, jv) result" where
  "scrubRtpbridgeRequest url_parse i method params =
     rbind (scrubKnownObject url_parse params (rtpbridgeRequestFields method) None)
       (\<lambda>value. Inr (JObj [(''type'', JStr ''request''), (''id'', scrubIdentifier i),
           (''method'', JStr (safeProtocolName method)), (''value'', value)]))"

definition scrubRtpbridgeResponse ::
  "(string \<Rightarrow> url option) \<Rightarrow> jv \<Rightarrow> string \<Rightarrow> jv \<Rightarrow> (log_error, jv) result" where
  "scrubRtpbridgeResponse url_parse i method response =
     (let failed = truthy (fld response ''error'')
      in rbind (if failed then Inr (scrubError (fld response ''error''))
                else scrubKnownObject url_parse (fld response ''result'') (Own (rtpbridgeResponseFields method)) None)
           (\<lambda>value. Inr (JObj [(''type'', JStr ''response''), (''id'', scrubIdentifier i),
               (''method'', JStr (safeProtocolName method)), (''ok'', JBool (\<not> failed)), (''value'', value)])))"

definition scrubRtpbridgeEvent :: "(string \<Rightarrow> url option) \<Rightarrow> string \<Rightarrow> jv \<Rightarrow> (log_error, jv) result" where
  "scrubRtpbridgeEvent url_parse event data =
     rbind (scrubKnownObject url_parse data (Own (rtpbridgeEventFields event))
              (Some (event = ''dtmf'' \<and> eventIsSensitiveDtmf data)))
       (\<lambda>value. Inr (JObj [(''type'', JStr ''event''), (''event'', JStr (safeProtocolName event)), (''value'', value)]))"

definition scrubNestedRtpbridgeEvent :: "(string \<Rightarrow> url option) \<Rightarrow> jv \<Rightarrow> (log_error, jv) result" where
  "scrubNestedRtpbridgeEvent url_parse v =
     (if \<not> is_record v then Inr (typeMarker v)
      else case str_of (fld v ''event'') of
             None \<Rightarrow> Inr (typeMarker v)
           | Some e \<Rightarrow> scrubRtpbridgeEvent url_parse e (fld v ''data''))"

definition scrubControlEvent :: "(string \<Rightarrow> url option) \<Rightarrow> string \<Rightarrow> jv \<Rightarrow> (log_error, jv) result" where
  "scrubControlEvent url_parse event data =
     (let sensitive = (if event = ''dtmf'' \<or> event = ''media.rtpbridge'' then eventIsSensitiveDtmf data else False)
      in rbind (if event = ''media.rtpbridge'' then scrubNestedRtpbridgeEvent url_parse data
                else scrubKnownObject url_parse data (eventFields event) (Some sensitive))
           (\<lambda>value. Inr (JObj [(''type'', JStr ''event''), (''event'', JStr (safeProtocolName event)), (''value'', value)])))"

text \<open>
  \<open>scrubControlError\<close>: a thrown value is an \<open>Error\<close> with a name, or something else (\<open>th_name\<close> is
  \<open>None\<close>); \<open>th_message\<close> is its message or its string form, \<open>th_code\<close> its \<open>code\<close> property when it
  is a non-array object.
\<close>

record thrown =
  th_name :: "string option"
  th_message :: string
  th_code :: jv

text \<open>\<open>/sip non-success response:\s*(\d{3})/i.exec(message)?.[1]\<close>\<close>

fun sip_status_in :: "string \<Rightarrow> nat option" where
  "sip_status_in [] = None"
| "sip_status_in (c # cs) =
     (let p = ''sip non-success response:''; s = c # cs;
          rest = dropWhile js_space (drop (length p) s)
      in if map to_lower (take (length p) s) = p \<and> length rest \<ge> 3 \<and> list_all is_digit (take 3 rest)
         then Some (read_nat (take 3 rest)) else sip_status_in cs)"

definition scrubControlError :: "thrown \<Rightarrow> jv" where
  "scrubControlError e =
     JObj ([(''name'', JStr (case th_name e of Some n \<Rightarrow> safeProtocolName n | None \<Rightarrow> ''Error''))]
       @ (case str_of (th_code e) of
            Some c \<Rightarrow> if error_code_name c then [(''code'', JStr c)] else []
          | None \<Rightarrow> [])
       @ (case sip_status_in (th_message e) of Some n \<Rightarrow> [(''sipStatus'', jnat n)] | None \<Rightarrow> [])
       @ [(''messageBytes'', jnat (byteLength (th_message e)))])"

section \<open>Properties\<close>

lemma redact_nondigit: "\<not> is_digit c \<Longrightarrow> redactDigitRuns (c # cs) = c # redactDigitRuns cs"
  by simp

lemma mask_simps [simp]: "length (mask s) = length s" "mask [] = []"
  by (simp_all add: mask_def)

lemma tilde_not_digit [simp]: "\<not> is_digit (CHR ''~'')"
  by (simp add: is_digit_def code_def)

lemma takeWhile_mask [simp]: "takeWhile is_digit (drop i (mask s) @ t) = (if i < length s then [] else takeWhile is_digit t)"
  by (cases "length s - i") (auto simp: mask_def)

lemma takeWhile_drop_append:
  "list_all p d \<Longrightarrow> takeWhile p (drop i (d @ t)) = (if i < length d then drop i d @ takeWhile p t else takeWhile p (drop (i - length d) t))"
proof (cases "i < length d")
  case True
  assume "list_all p d"
  then have "list_all p (drop i d)" by (auto simp: list_all_iff dest: in_set_dropD)
  with True show ?thesis by (simp add: takeWhile_append2 list_all_iff)
qed simp

lemma redact_head: "\<not> is_digit (hd s) \<or> s = [] \<Longrightarrow> takeWhile is_digit (redactDigitRuns s) = []"
  by (cases s) auto

lemma redact_length: "length (redactDigitRuns s) = length s"
proof (induction s rule: redactDigitRuns.induct)
  case (2 c cs)
  show ?case
  proof (cases "is_digit c")
    case True
    have "length (takeWhile is_digit (c # cs)) + length (dropWhile is_digit (c # cs)) = length (c # cs)"
      by (metis length_append takeWhile_dropWhile_id)
    with True 2 show ?thesis by (simp add: Let_def del: takeWhile.simps dropWhile.simps)
  next
    case False
    with 2 show ?thesis by simp
  qed
qed simp

lemma redact_runs: "length (takeWhile is_digit (drop i (redactDigitRuns s))) < 6"
proof (induction s arbitrary: i rule: redactDigitRuns.induct)
  case (2 c cs)
  show ?case
  proof (cases "is_digit c")
    case True
    define d where "d = takeWhile is_digit (c # cs)"
    define t where "t = redactDigitRuns (dropWhile is_digit (c # cs))"
    have all: "list_all is_digit d"
      by (auto simp: d_def list_all_iff dest: set_takeWhileD)
    have IH: "\<And>j. length (takeWhile is_digit (drop j t)) < 6"
      using 2(1) [OF True d_def] by (simp add: t_def)
    have hd: "takeWhile is_digit t = []"
      unfolding t_def by (rule redact_head) (metis hd_dropWhile)
    have eq: "redactDigitRuns (c # cs) = (if length d \<ge> 6 then mask d else d) @ t"
      using True by (simp add: d_def t_def Let_def)
    show ?thesis
    proof (cases "length d \<ge> 6")
      case long: True
      show ?thesis
      proof (cases "i < length d")
        case lt: True
        with long eq show ?thesis by simp
      next
        case ge: False
        with IH [of "i - length d"] long eq show ?thesis by simp
      qed
    next
      case False
      then have "redactDigitRuns (c # cs) = d @ t" using eq by simp
      then have "takeWhile is_digit (drop i (redactDigitRuns (c # cs)))
        = (if i < length d then drop i d else takeWhile is_digit (drop (i - length d) t))"
        by (simp only: takeWhile_drop_append [OF all] hd append_Nil2)
      moreover from False have "length (drop i d) < 6" by simp
      ultimately show ?thesis using IH [of "i - length d"] by (metis (full_types))
    qed
  next
    case False
    with 2(2) show ?thesis by (cases i) auto
  qed
qed simp

text \<open>
  What \<open>redactDigitRuns\<close> lets through never shows six digits in a row, wherever one looks in
  the text, and it has the length of the input.
\<close>

theorem redactDigitRuns_safe:
  "length (takeWhile is_digit (drop i (redactDigitRuns s))) < 6 \<and> length (redactDigitRuns s) = length s"
  by (simp add: redact_runs redact_length)


text \<open>A log line has one entry for each field whose name is safe to print.\<close>

lemma safeFieldName_eq: "safe_key k \<Longrightarrow> safeFieldName j = k \<longleftrightarrow> j = k"
proof -
  assume k: "safe_key k"
  have "\<not> safe_key ''[REDACTED_FIELD]''" by code_simp
  with k show ?thesis by (auto simp: safeFieldName_def)
qed

lemma from_entries_get:
  "oget (foldl (\<lambda>acc (k, v). oset k v acc) acc es) k = (case oget (rev es) k of Some v \<Rightarrow> Some v | None \<Rightarrow> oget acc k)"
  by (induction es arbitrary: acc) (auto simp: map_add_def split: option.splits)

lemma scrub_entries_get:
  assumes "safe_key k"
  shows "k \<notin> set (map fst fs) \<Longrightarrow> oget (rev (map (scrub_entry up a sens) fs)) k = None"
    and "owf fs \<Longrightarrow> oget fs k = Some v \<Longrightarrow> oget (rev (map (scrub_entry up a sens) fs)) k = Some (snd (scrub_entry up a sens (k, v)))"
proof (induction fs)
  case Nil
  { case 1 then show ?case by simp }
  { case 2 then show ?case by simp }
next
  case (Cons p fs)
  have fst_e: "fst (scrub_entry up a sens p) = safeFieldName (fst p)" for p
    by (simp add: scrub_entry_def split: prod.split)
  have key: "fst (scrub_entry up a sens p) = k \<longleftrightarrow> fst p = k" for p
    by (simp add: fst_e safeFieldName_eq [OF assms])
  { case 1 with Cons.IH(1) key [of p] show ?case
      by (cases "scrub_entry up a sens p") (auto simp: map_add_def) }
  { case 2
    show ?case
    proof (cases "fst p = k")
      case True
      with 2 have "k \<notin> set (map fst fs)" and "p = (k, v)" by (cases p; auto)+
      with Cons.IH(1) key [of p] show ?thesis
        by (cases "scrub_entry up a sens p") (auto simp: map_add_def)
    next
      case False
      with 2 have "owf fs" "oget fs k = Some v" by (cases p; auto)+
      with Cons.IH(2) key [of p] False show ?thesis
        by (cases "scrub_entry up a sens p") (auto simp: map_add_def)
    qed }
qed

lemma scrubKnownObject_field:
  assumes "safe_key k" and "owf fs" and "oget fs k = Some v"
    and "scrubKnownObject up (JObj fs) (Own a) sens = Inr l"
  shows "fld l k = (if normalizeField k \<in> set (map normalizeField a) then scrubKnownField up k v sens else typeMarker v)"
proof -
  have "l = JObj (from_entries (map (scrub_entry up a sens) fs))"
    using assms(4) by (simp add: scrubKnownObject_def entries_def)
  then have "fld l k = snd (scrub_entry up a sens (k, v))"
    using scrub_entries_get(2) [OF assms(1-3), of up a sens] by (simp add: from_entries_def from_entries_get)
  then show ?thesis by (simp add: scrub_entry_def)
qed

text \<open>
  The digit of a DTMF event is masked in the log unless the event says, with a boolean, that it
  is not sensitive: a missing or malformed flag counts as sensitive.
\<close>

theorem dtmf_log_fails_closed:
  assumes "owf fs" and "oget fs ''digit'' = Some (JStr d)" and "oget fs ''sensitive'' \<noteq> Some (JBool False)"
    and "oget fs ''event'' = None"
    and "scrubControlEvent up ''dtmf'' (JObj fs) = Inr l"
  shows "fld (fld l ''value'') ''digit'' = JStr (replicate (length d) (CHR ''~''))"
proof -
  have sens: "eventIsSensitiveDtmf (JObj fs)"
    using assms(3,4) by (auto simp: eventIsSensitiveDtmf_def bool_of_Some split: option.splits)
  obtain v where v: "scrubKnownObject up (JObj fs) (eventFields ''dtmf'') (Some True) = Inr v"
    and l: "fld l ''value'' = v"
    using assms(5) sens by (auto simp: scrubControlEvent_def rbind_eq_Inr)
  have k: "safe_key ''digit''" by code_simp
  have a: "eventFields ''dtmf'' = Own [''endpointId'', ''digit'', ''durationMs'', ''sensitive'']" by (simp add: eventFields_def)
  have n: "normalizeField ''digit'' = ''digit''" "normalizeField ''digit'' \<in> set (map normalizeField [''endpointId'', ''digit'', ''durationMs'', ''sensitive''])"
    by code_simp+
  have "scrubKnownField up ''digit'' (JStr d) (Some True) = JStr (mask d)"
    by (simp add: scrubKnownField_def n(1) secret_fields_def summarizeDigits_def)
  with scrubKnownObject_field [OF k assms(1,2) v [unfolded a]] n(2) l show ?thesis
    by (simp add: mask_def)
qed

theorem dtmf_log_fails_closed_witness:
  "\<exists>l. scrubControlEvent (\<lambda>s. None) ''dtmf'' (JObj [(''digit'', JStr ''42''), (''sensitive'', JStr ''no'')]) = Inr l
     \<and> fld (fld l ''value'') ''digit'' = JStr ''~~''"
proof -
  obtain l where l: "scrubControlEvent (\<lambda>s. None) ''dtmf'' (JObj [(''digit'', JStr ''42''), (''sensitive'', JStr ''no'')]) = Inr l"
    by (simp add: scrubControlEvent_def eventFields_def scrubKnownObject_def Let_def)
  have "fld (fld l ''value'') ''digit'' = JStr (replicate (length ''42'') (CHR ''~''))"
    by (rule dtmf_log_fails_closed [OF _ _ _ _ l]) simp_all
  with l show ?thesis by (simp add: numeral_2_eq_2)
qed


text \<open>
  Two payloads look the same to the log when they differ only in secret fields, in the password of
  an \<open>auth\<close> object, or in fields the method's table does not name, whose type alone is logged.
\<close>

definition same_auth :: "jv \<Rightarrow> jv \<Rightarrow> bool" where
  "same_auth v w \<longleftrightarrow> is_record v \<and> is_record w \<and> fld v ''username'' = fld w ''username''"

definition log_same :: "string list \<Rightarrow> string \<times> jv \<Rightarrow> string \<times> jv \<Rightarrow> bool" where
  "log_same allowed = (\<lambda>(k, v) (j, w). j = k \<and>
     (if normalizeField k \<in> set (map normalizeField allowed)
      then v = w \<or> normalizeField k \<in> set secret_fields \<or> (normalizeField k = ''auth'' \<and> same_auth v w)
      else type_name v = type_name w))"

lemma scrub_known_same:
  "normalizeField k \<in> set secret_fields \<or> (normalizeField k = ''auth'' \<and> same_auth v w)
   \<Longrightarrow> scrubKnownField up k v sens = scrubKnownField up k w sens"
proof (elim disjE conjE)
  assume a: "normalizeField k = ''auth''" "same_auth v w"
  then have "summarizeAuth v = summarizeAuth w"
    by (simp add: summarizeAuth_def same_auth_def split: option.splits)
  with a(1) show ?thesis by (simp add: scrubKnownField_def secret_fields_def)
qed (simp add: scrubKnownField_def)

lemma scrub_entry_same: "log_same allowed p q \<Longrightarrow> scrub_entry up allowed sens p = scrub_entry up allowed sens q"
proof -
  assume h: "log_same allowed p q"
  obtain k v where p: "p = (k, v)" by (cases p)
  with h obtain w where q: "q = (k, w)" by (cases q) (simp add: log_same_def)
  show ?thesis
  proof (cases "normalizeField k \<in> set (map normalizeField allowed)")
    case True
    with h p q have "v = w \<or> scrubKnownField up k v sens = scrubKnownField up k w sens"
      unfolding log_same_def using scrub_known_same [of k v w up sens] by (simp only: prod.case if_True) blast
    with True p q show ?thesis by (auto simp only: scrub_entry_def prod.case if_True)
  next
    case False
    with h p q have "type_name v = type_name w" by (simp add: log_same_def)
    with False p q show ?thesis by (simp add: scrub_entry_def typeMarker_def)
  qed
qed

lemma scrub_entries_same:
  "list_all2 (log_same allowed) fs gs \<Longrightarrow> map (scrub_entry up allowed sens) fs = map (scrub_entry up allowed sens) gs"
  by (induction rule: list_all2_induct) (auto simp: scrub_entry_same)

lemma log_same_get:
  assumes "list_all2 (log_same allowed) fs gs"
    and "normalizeField k \<in> set (map normalizeField allowed)" "normalizeField k \<notin> set secret_fields" "normalizeField k \<noteq> ''auth''"
  shows "oget fs k = oget gs k"
  using assms by (induction rule: list_all2_induct) (auto simp: log_same_def)

definition own_fields :: "field_table \<Rightarrow> string list" where
  "own_fields t = (case t of Own fs \<Rightarrow> fs | Inherited _ \<Rightarrow> [])"

lemma sensitive_listed:
  "''sensitive'' \<in> set (own_fields (requestFields ''media.gather''))"
  "''sensitive'' \<in> set (own_fields (requestFields ''media.playAndGather''))"
  by code_simp+

lemma sensitive_same:
  assumes "list_all2 (log_same (own_fields (requestFields m))) fs gs"
  shows "isSensitiveControlRequest m (JObj fs) = isSensitiveControlRequest m (JObj gs)"
proof (cases "m = ''media.gather'' \<or> m = ''media.playAndGather''")
  case True
  have n: "normalizeField ''sensitive'' = ''sensitive''" by code_simp
  have "''sensitive'' \<in> set (own_fields (requestFields m))"
    using sensitive_listed True by auto
  then have "normalizeField ''sensitive'' \<in> set (map normalizeField (own_fields (requestFields m)))" by simp
  from log_same_get [OF assms this] have "oget fs ''sensitive'' = oget gs ''sensitive''"
    by (simp add: n secret_fields_def)
  then show ?thesis by (simp add: isSensitiveControlRequest_def)
qed (simp add: isSensitiveControlRequest_def)

text \<open>
  C23. Noninterference of the request log: credentials, tokens, authorization values and fields a
  method does not have never influence what is logged, beyond the type of an unknown field.
\<close>

theorem scrubControlRequest_noninterference:
  assumes "list_all2 (log_same (own_fields (requestFields m))) fs gs"
  shows "scrubControlRequest up i m (JObj fs) = scrubControlRequest up i m (JObj gs)"
  using scrub_entries_same [OF assms, of up "Some (isSensitiveControlRequest m (JObj gs))"] sensitive_same [OF assms]
  by (cases "requestFields m") (simp_all add: scrubControlRequest_def scrubKnownObject_def own_fields_def entries_def)

theorem scrubControlRequest_noninterference_witness:
  "scrubControlRequest (\<lambda>s. None) (JStr ''1'') ''sip.createOutbound''
     (JObj [(''requestUri'', JStr ''sip:1@h''), (''auth'', JObj [(''username'', JStr ''u''), (''password'', JStr ''hunter2'')]),
            (''x'', JStr ''secret'')])
   = scrubControlRequest (\<lambda>s. None) (JStr ''1'') ''sip.createOutbound''
     (JObj [(''requestUri'', JStr ''sip:1@h''), (''auth'', JObj [(''username'', JStr ''u''), (''password'', JStr ''other'')]),
            (''x'', JStr ''else'')])"
  by (rule scrubControlRequest_noninterference) code_simp

lemma table_lookup_Inherited:
  "(\<exists>n. table_lookup t k = Inherited n) \<longleftrightarrow> map_of t k = None \<and> map_of object_prototype k \<noteq> None"
  by (auto simp: table_lookup_def split: option.splits)

lemma list_all_not_in: "list_all (\<lambda>k. map_of t k = None) ks \<Longrightarrow> k \<in> set ks \<Longrightarrow> map_of t k = None"
  by (auto simp: list_all_iff)

lemma prototype_not_request: "k \<in> set (map fst object_prototype) \<Longrightarrow> map_of request_table k = None"
proof -
  have "list_all (\<lambda>k. map_of request_table k = None) (map fst object_prototype)" by code_simp
  then show "k \<in> set (map fst object_prototype) \<Longrightarrow> map_of request_table k = None"
    by (rule list_all_not_in)
qed

lemma scrub_throws_iff:
  "(scrubControlRequest up i m params = Inl LogTypeError)
   = (is_record params \<and> m \<in> set (map fst object_prototype))"
proof -
  have "(\<exists>n. requestFields m = Inherited n) \<longleftrightarrow> m \<in> set (map fst object_prototype)"
    using prototype_not_request [of m] ohas_keys [of object_prototype m]
    unfolding requestFields_def table_lookup_Inherited by blast
  then show ?thesis
    by (cases "requestFields m") (auto simp: scrubControlRequest_def scrubKnownObject_def rbind_eq_Inl)
qed

text \<open>
  Scrubbing a request for the log throws exactly when the parameters are an object and the
  method is a name every object inherits from \<open>Object.prototype\<close>, such as \<open>toString\<close>.
\<close>

theorem scrubControlRequest_throws:
  "(scrubControlRequest up i m params = Inl LogTypeError)
   = (is_record params \<and> m \<in> set (map fst object_prototype))"
  by (rule scrub_throws_iff)

lemma scrubKnownObject_Own: "scrubKnownObject up v (Own fs) sens \<noteq> Inl e"
  by (simp add: scrubKnownObject_def)

lemma eventFields_Own: "\<exists>fs. eventFields e = Own fs"
proof -
  have "list_all (\<lambda>k. \<not> starts_with k ''sip.'') (map fst object_prototype)" by code_simp
  moreover have "requestFields e = Inherited n \<Longrightarrow> e \<in> set (map fst object_prototype)" for n
    using table_lookup_Inherited [of request_table e] ohas_keys [of object_prototype e]
    unfolding requestFields_def by blast
  ultimately have "starts_with e ''sip.'' \<Longrightarrow> requestFields e \<noteq> Inherited n" for n
    by (auto simp: list_all_iff)
  then show ?thesis
    by (cases "requestFields e") (auto simp: eventFields_def)
qed

lemma scrubControlEvent_total: "\<exists>l. scrubControlEvent up e d = Inr l"
proof -
  obtain fs where fs: "eventFields e = Own fs" using eventFields_Own by blast
  have nested: "scrubNestedRtpbridgeEvent up d \<noteq> Inl x" for x
    by (auto simp: scrubNestedRtpbridgeEvent_def scrubRtpbridgeEvent_def rbind_eq_Inl scrubKnownObject_Own split: option.splits)
  have "scrubControlEvent up e d \<noteq> Inl x" for x
    by (auto simp: scrubControlEvent_def fs rbind_eq_Inl scrubKnownObject_Own nested)
  then show ?thesis by (metis sumE)
qed

lemma scrubControlResponse_total: "\<exists>l. scrubControlResponse_ok up i r m s = Inr l"
  by (simp add: scrubControlResponse_ok_def scrubKnownObject_def)

end
