(* ===== verification/ControlHub.thy ===== *)
theory ControlHub
  imports ControlLog
begin

text \<open>
  The hub of the control WebSocket connections (\<open>src/control-hub.ts\<close>): who is connected, which
  routes each connection claims, which gateway requests await a response, and the sequence numbers
  of the events sent for a session.

  UUIDs, the clock and the outcome of \<open>ws.send\<close> are inputs of the operations. A promise is settled
  by an output; a timer is an event, \<open>RequestTimedOut\<close>, and stays armed exactly as long as its
  request is pending. The asynchronous failure of a send is the event \<open>SendFailed\<close>.
\<close>

section \<open>State\<close>

record connection =
  cn_id :: string
  cn_open :: bool
  cn_routes :: "route_config list"
  cn_sequences :: "(string, nat) omap"

record pending_request =
  pr_connection :: string
  pr_method :: string
  pr_sensitive :: bool

record hub =
  connections :: "(string, connection) omap"
  pending :: "(string, pending_request) omap"

definition empty_hub :: hub where
  "empty_hub = \<lparr>connections = [], pending = []\<rparr>"

datatype hub_error =
  ControlConnectionUnavailable string
| ControlRequestError control_error
| HubProtocolError protocol_error
| SendError
| HubLogError

datatype hub_output =
  Sent string control_message
| Resolved string jv
| Rejected string hub_error
| Disconnected string
| Closing string

section \<open>Connections and routes\<close>

definition registerConnection :: "string \<Rightarrow> hub \<Rightarrow> hub" where
  "registerConnection i h =
     h\<lparr>connections := oset i \<lparr>cn_id = i, cn_open = True, cn_routes = [], cn_sequences = []\<rparr> (connections h)\<rparr>"

definition requireConnection :: "string \<Rightarrow> hub \<Rightarrow> (hub_error, connection) result" where
  "requireConnection i h =
     (case oget (connections h) i of
        None \<Rightarrow> Inl (ControlConnectionUnavailable (''Control connection '' @ i @ '' is not available''))
      | Some c \<Rightarrow> Inr c)"

definition match_name :: "route_match \<Rightarrow> string" where
  "match_name m = (case m of Exact \<Rightarrow> ''exact'' | UserPrefix \<Rightarrow> ''userPrefix'')"

definition routeKey :: "route_config \<Rightarrow> string" where
  "routeKey r = match_name (rc_match r) @ CHR '':'' # rc_value r"

text \<open>The first loop of \<open>assertRoutesAvailable\<close>: a duplicate within the new routes.\<close>

fun check_duplicates :: "string list \<Rightarrow> route_config list \<Rightarrow> (protocol_error, unit) result" where
  "check_duplicates seen [] = Inr ()"
| "check_duplicates seen (r # rs) =
     (if routeKey r \<in> set seen
      then Inl (ProtocolError (''duplicate route '' @ routeKey r) ''ROUTE_CONFLICT'')
      else check_duplicates (sadd (routeKey r) seen) rs)"

fun check_claimed :: "string list \<Rightarrow> route_config list \<Rightarrow> (protocol_error, unit) result" where
  "check_claimed claimed [] = Inr ()"
| "check_claimed claimed (r # rs) =
     (if routeKey r \<in> set claimed
      then Inl (ProtocolError (''route '' @ routeKey r @ '' is already registered'') ''ROUTE_CONFLICT'')
      else check_claimed claimed rs)"

text \<open>The second loop: every other connection, in the order of the map.\<close>

fun check_others :: "string \<Rightarrow> route_config list \<Rightarrow> connection list \<Rightarrow> (protocol_error, unit) result" where
  "check_others owner routes [] = Inr ()"
| "check_others owner routes (c # cs) =
     (if cn_id c = owner then check_others owner routes cs
      else rbind (check_claimed (map routeKey (cn_routes c)) routes) (\<lambda>_. check_others owner routes cs))"

definition assertRoutesAvailable :: "string \<Rightarrow> route_config list \<Rightarrow> hub \<Rightarrow> (protocol_error, unit) result" where
  "assertRoutesAvailable owner routes h =
     rbind (check_duplicates [] routes) (\<lambda>_. check_others owner routes (map snd (connections h)))"

definition control_route :: "string \<Rightarrow> route_registration \<Rightarrow> route_config" where
  "control_route i r =
     \<lparr>rc_match = rr_match r, rc_value = normalizeRouteValue (rr_value r), rc_url = ''control://'' @ i\<rparr>"

definition setRoutes :: "string \<Rightarrow> route_registration list \<Rightarrow> hub \<Rightarrow> (hub_error, hub \<times> route_config list) result" where
  "setRoutes i routes h =
     rbind (requireConnection i h) (\<lambda>c.
       let nextRoutes = map (control_route i) routes
       in case assertRoutesAvailable i nextRoutes h of
            Inl e \<Rightarrow> Inl (HubProtocolError e)
          | Inr _ \<Rightarrow> Inr (h\<lparr>connections := oset i (c\<lparr>cn_routes := nextRoutes\<rparr>) (connections h)\<rparr>, nextRoutes))"

fun find_in :: "invite_destination \<Rightarrow> connection list \<Rightarrow> (string \<times> route_config) option" where
  "find_in d [] = None"
| "find_in d (c # cs) =
     (case matchRoute (cn_routes c) d of Some r \<Rightarrow> Some (cn_id c, r) | None \<Rightarrow> find_in d cs)"

definition findRoute :: "invite_destination \<Rightarrow> hub \<Rightarrow> (string \<times> route_config) option" where
  "findRoute d h = find_in d (map snd (connections h))"

definition routeCount :: "hub \<Rightarrow> nat" where
  "routeCount h = sum_list (map (\<lambda>(_, c). length (cn_routes c)) (connections h))"

definition isConnected :: "string \<Rightarrow> hub \<Rightarrow> bool" where
  "isConnected i h = ohas (connections h) i"

definition hub_size :: "hub \<Rightarrow> nat" where
  "hub_size h = length (connections h)"

section \<open>Requests and responses\<close>

definition rejectPending :: "string \<Rightarrow> hub_error \<Rightarrow> hub \<Rightarrow> hub \<times> hub_output list" where
  "rejectPending i err h =
     (case oget (pending h) i of
        None \<Rightarrow> (h, [])
      | Some _ \<Rightarrow> (h\<lparr>pending := odel i (pending h)\<rparr>, [Rejected i err]))"

definition request ::
  "(string \<Rightarrow> url option) \<Rightarrow> bool \<Rightarrow> string \<Rightarrow> string \<Rightarrow> string \<Rightarrow> jv \<Rightarrow> hub \<Rightarrow> hub \<times> hub_output list" where
  "request url_parse send_ok i connectionId method params h =
     (case requireConnection connectionId h of
        Inl e \<Rightarrow> (h, [Rejected i e])
      | Inr c \<Rightarrow>
          let h' = h\<lparr>pending := oset i \<lparr>pr_connection = connectionId, pr_method = method,
                      pr_sensitive = isSensitiveControlRequest method params\<rparr> (pending h)\<rparr>
          in if \<not> cn_open c
             then rejectPending i (ControlConnectionUnavailable (''Control connection '' @ connectionId @ '' is not open'')) h'
             else (case scrubControlRequest url_parse (JStr i) method params of
                     Inl _ \<Rightarrow> rejectPending i HubLogError h'
                   | Inr _ \<Rightarrow> if send_ok then (h', [Sent connectionId (CRequest i method params)])
                              else rejectPending i SendError h'))"

definition requestTimedOut :: "string \<Rightarrow> hub \<Rightarrow> hub \<times> hub_output list" where
  "requestTimedOut i h =
     (case oget (pending h) i of
        None \<Rightarrow> (h, [])
      | Some p \<Rightarrow> (h\<lparr>pending := odel i (pending h)\<rparr>,
          [Rejected i (ControlConnectionUnavailable (''Control request '' @ pr_method p @ '' timed out''))]))"

text \<open>
  \<open>handleResponse\<close> takes a parsed response, \<open>COk\<close> or \<open>CFail\<close>; \<open>response.error\<close> is always there for
  a parsed failure. The scrubbing for the log does not throw on a response.
\<close>

definition settlement :: "control_message \<Rightarrow> hub_output option" where
  "settlement m = (case m of COk i r \<Rightarrow> Some (Resolved i r) | CFail i e \<Rightarrow> Some (Rejected i (ControlRequestError e)) | _ \<Rightarrow> None)"

definition handleResponse :: "string \<Rightarrow> control_message \<Rightarrow> hub \<Rightarrow> hub \<times> hub_output list \<times> bool" where
  "handleResponse connectionId m h =
     (case settlement m of
        None \<Rightarrow> (h, [], False)
      | Some out \<Rightarrow>
          (case oget (pending h) (resp_id m) of
             None \<Rightarrow> (h, [], False)
           | Some p \<Rightarrow>
               if pr_connection p \<noteq> connectionId then (h, [], False)
               else (h\<lparr>pending := odel (resp_id m) (pending h)\<rparr>, [out], True)))"

section \<open>Sending\<close>

definition nextSequence :: "(string, nat) omap \<Rightarrow> string \<Rightarrow> nat" where
  "nextSequence s sessionId = (case oget s sessionId of Some n \<Rightarrow> n | None \<Rightarrow> 0) + 1"

record event_to_send =
  es_event :: string
  es_session :: "string option"
  es_data :: jv

definition has_session :: "event_to_send \<Rightarrow> string option" where
  "has_session e = (case es_session e of None \<Rightarrow> None | Some s \<Rightarrow> if s = [] then None else Some s)"

text \<open>The sequence number is consumed before the message is built, also when sending then fails.\<close>

definition sendEvent ::
  "(string \<Rightarrow> url option) \<Rightarrow> bool \<Rightarrow> string \<Rightarrow> string \<Rightarrow> string \<Rightarrow> event_to_send \<Rightarrow> hub \<Rightarrow> hub \<times> hub_output list \<times> bool" where
  "sendEvent url_parse send_ok uuid now connectionId e h =
     (case oget (connections h) connectionId of
        None \<Rightarrow> (h, [], False)
      | Some c \<Rightarrow>
          if \<not> cn_open c then (h, [], False)
          else
            let seq = (case has_session e of None \<Rightarrow> None | Some s \<Rightarrow> Some (nextSequence (cn_sequences c) s));
                h' = (case has_session e of None \<Rightarrow> h
                      | Some s \<Rightarrow> h\<lparr>connections := oset connectionId
                          (c\<lparr>cn_sequences := oset s (nextSequence (cn_sequences c) s) (cn_sequences c)\<rparr>) (connections h)\<rparr>)
            in (case scrubControlEvent url_parse (es_event e) (es_data e) of
                  Inl _ \<Rightarrow> (h', [], False)
                | Inr _ \<Rightarrow>
                    if send_ok
                    then (h', [Sent connectionId (CEvent (es_event e) uuid (es_session e) (map_option int seq) now (es_data e))], True)
                    else (h', [], False)))"

definition sendRaw :: "bool \<Rightarrow> string \<Rightarrow> control_message \<Rightarrow> hub \<Rightarrow> hub_output list \<times> bool" where
  "sendRaw send_ok connectionId m h =
     (case oget (connections h) connectionId of
        None \<Rightarrow> ([], False)
      | Some c \<Rightarrow> if \<not> cn_open c then ([], False)
                  else if send_ok then ([Sent connectionId m], True) else ([], False))"

text \<open>
  Broadcasting goes through the connections in order; the event has no session, so no sequence
  number is drawn. Each send has its own outcome and its own UUID.
\<close>

fun broadcast_to ::
  "(string \<Rightarrow> url option) \<Rightarrow> (string \<Rightarrow> bool) \<Rightarrow> (string \<Rightarrow> string) \<Rightarrow> string \<Rightarrow> string list \<Rightarrow> event_to_send \<Rightarrow> hub
   \<Rightarrow> hub \<times> hub_output list" where
  "broadcast_to url_parse send_ok uuid now [] e h = (h, [])"
| "broadcast_to url_parse send_ok uuid now (i # is) e h =
     (case sendEvent url_parse (send_ok i) (uuid i) now i e h of
        (h', out, _) \<Rightarrow> (case broadcast_to url_parse send_ok uuid now is e h' of (h'', outs) \<Rightarrow> (h'', out @ outs)))"

definition broadcastEvent ::
  "(string \<Rightarrow> url option) \<Rightarrow> (string \<Rightarrow> bool) \<Rightarrow> (string \<Rightarrow> string) \<Rightarrow> string \<Rightarrow> string \<Rightarrow> jv \<Rightarrow> hub \<Rightarrow> hub \<times> hub_output list" where
  "broadcastEvent url_parse send_ok uuid now event data h =
     broadcast_to url_parse send_ok uuid now (okeys (connections h)) \<lparr>es_event = event, es_session = None, es_data = data\<rparr> h"

text \<open>\<open>ws.close\<close> leaves the \<open>OPEN\<close> state at once; the \<open>close\<close> event follows later.\<close>

definition closeConnections :: "hub \<Rightarrow> hub \<times> hub_output list" where
  "closeConnections h =
     (h\<lparr>connections := map (\<lambda>(i, c). (i, c\<lparr>cn_open := False\<rparr>)) (connections h)\<rparr>,
      map (\<lambda>(i, c). Closing (cn_id c)) (connections h))"

section \<open>Disconnection\<close>

text \<open>The loop over the pending requests, deleting while it iterates.\<close>

fun reject_all :: "string \<Rightarrow> (string \<times> pending_request) list \<Rightarrow> (string, pending_request) omap
    \<Rightarrow> (string, pending_request) omap \<times> hub_output list" where
  "reject_all connectionId [] m = (m, [])"
| "reject_all connectionId ((i, p) # ps) m =
     (if pr_connection p \<noteq> connectionId then reject_all connectionId ps m
      else (case reject_all connectionId ps (odel i m) of
              (m', outs) \<Rightarrow> (m', Rejected i (ControlConnectionUnavailable
                 (''Control connection '' @ connectionId @ '' closed during '' @ pr_method p)) # outs)))"

definition removeConnection :: "string \<Rightarrow> hub \<Rightarrow> hub \<times> hub_output list" where
  "removeConnection connectionId h =
     (case oget (connections h) connectionId of
        None \<Rightarrow> (h, [])
      | Some _ \<Rightarrow>
          (case reject_all connectionId (pending h) (pending h) of
             (m, outs) \<Rightarrow> (\<lparr>connections = odel connectionId (connections h), pending = m\<rparr>,
                           outs @ [Disconnected connectionId])))"

definition unregisterConnection :: "string \<Rightarrow> hub \<Rightarrow> hub \<times> hub_output list" where
  "unregisterConnection connectionId h = removeConnection connectionId h"


section \<open>Runs\<close>

datatype hub_event =
  Connect string
| SocketClosing string
| SocketClosed string
| SetRoutes string "route_registration list"
| Request bool string string string jv
| RequestTimedOut string
| SendFailed string
| Response string control_message
| SendEvent bool string string string event_to_send
| Shutdown

definition socketClosing :: "string \<Rightarrow> hub \<Rightarrow> hub" where
  "socketClosing i h = (case oget (connections h) i of None \<Rightarrow> h
     | Some c \<Rightarrow> h\<lparr>connections := oset i (c\<lparr>cn_open := False\<rparr>) (connections h)\<rparr>)"

fun hub_step :: "(string \<Rightarrow> url option) \<Rightarrow> hub \<Rightarrow> hub_event \<Rightarrow> hub \<times> hub_output list" where
  "hub_step up h (Connect i) = (registerConnection i h, [])"
| "hub_step up h (SocketClosing i) = (socketClosing i h, [])"
| "hub_step up h (SocketClosed i) = removeConnection i h"
| "hub_step up h (SetRoutes i rs) = (case setRoutes i rs h of Inl _ \<Rightarrow> (h, []) | Inr (h', _) \<Rightarrow> (h', []))"
| "hub_step up h (Request ok i c m ps) = request up ok i c m ps h"
| "hub_step up h (RequestTimedOut i) = requestTimedOut i h"
| "hub_step up h (SendFailed i) = rejectPending i SendError h"
| "hub_step up h (Response c m) = (case handleResponse c m h of (h', out, _) \<Rightarrow> (h', out))"
| "hub_step up h (SendEvent ok u now c e) = (case sendEvent up ok u now c e h of (h', out, _) \<Rightarrow> (h', out))"
| "hub_step up h Shutdown = closeConnections h"

abbreviation hub_run :: "(string \<Rightarrow> url option) \<Rightarrow> hub \<Rightarrow> hub_event list \<Rightarrow> hub \<times> hub_output list" where
  "hub_run up \<equiv> steps (hub_step up)"

abbreviation hub_state :: "(string \<Rightarrow> url option) \<Rightarrow> hub \<Rightarrow> hub_event \<Rightarrow> hub" where
  "hub_state up h e \<equiv> fst (hub_step up h e)"

section \<open>The invariant\<close>

text \<open>
  Every connection is stored under its own id and claims distinct routes that no other connection
  claims and that point back to it; every pending request belongs to a connection that is there.
\<close>

definition routes_of :: "connection \<Rightarrow> string list" where
  "routes_of c = map routeKey (cn_routes c)"

definition connection_ok :: "string \<Rightarrow> connection \<Rightarrow> bool" where
  "connection_ok i c \<longleftrightarrow> cn_id c = i \<and> distinct (routes_of c)
     \<and> list_all (\<lambda>r. rc_url r = ''control://'' @ i) (cn_routes c)"

definition connections_ok :: "(string, connection) omap \<Rightarrow> bool" where
  "connections_ok m \<longleftrightarrow> owf m \<and> (\<forall>i c. oget m i = Some c \<longrightarrow> connection_ok i c)
     \<and> (\<forall>i j c d. oget m i = Some c \<longrightarrow> oget m j = Some d \<longrightarrow> i \<noteq> j \<longrightarrow> set (routes_of c) \<inter> set (routes_of d) = {})"

definition hub_inv :: "hub \<Rightarrow> bool" where
  "hub_inv h \<longleftrightarrow> connections_ok (connections h) \<and> owf (pending h)
     \<and> (\<forall>(i, p)\<in>set (pending h). ohas (connections h) (pr_connection p))"

lemma connections_okD:
  assumes "connections_ok m"
  shows "owf m" and "oget m i = Some c \<Longrightarrow> connection_ok i c"
    and "oget m i = Some c \<Longrightarrow> oget m j = Some d \<Longrightarrow> i \<noteq> j \<Longrightarrow> set (routes_of c) \<inter> set (routes_of d) = {}"
  using assms unfolding connections_ok_def by blast+

lemma connections_ok_oset:
  assumes "connections_ok m" and "connection_ok i c"
    and "\<And>j d. j \<noteq> i \<Longrightarrow> oget m j = Some d \<Longrightarrow> set (routes_of c) \<inter> set (routes_of d) = {}"
  shows "connections_ok (oset i c m)"
  unfolding connections_ok_def
proof (intro conjI allI impI)
  show "owf (oset i c m)" using connections_okD(1) [OF assms(1)] by simp
next
  fix j d assume "oget (oset i c m) j = Some d"
  then show "connection_ok j d"
    using assms(2) connections_okD(2) [OF assms(1)] by (auto split: if_splits)
next
  fix j k d e assume "oget (oset i c m) j = Some d" "oget (oset i c m) k = Some e" "j \<noteq> k"
  then show "set (routes_of d) \<inter> set (routes_of e) = {}"
    using assms(3) [of k e] assms(3) [of j d] connections_okD(3) [OF assms(1), of j d k e]
    by (simp split: if_splits) blast+
qed

lemma connection_ok_same_routes:
  "cn_id d = cn_id c \<Longrightarrow> cn_routes d = cn_routes c \<Longrightarrow> connection_ok i d = connection_ok i c \<and> routes_of d = routes_of c"
  by (simp add: connection_ok_def routes_of_def)

lemma connections_ok_same_routes:
  assumes "connections_ok m" and "oget m i = Some c" and "cn_id d = cn_id c" "cn_routes d = cn_routes c"
  shows "connections_ok (oset i d m)"
  using connections_okD(2,3) [OF assms(1)] assms connection_ok_same_routes [OF assms(3,4), of i]
  by (intro connections_ok_oset) auto

lemma connections_ok_odel: "connections_ok m \<Longrightarrow> connections_ok (odel i m)"
  by (auto simp: connections_ok_def)

lemma oget_map_values: "oget (map (\<lambda>(i, c). (i, f c)) m) k = map_option f (oget m k)"
  by (induction m) auto

lemma connections_ok_map:
  assumes "connections_ok m" and f: "\<And>c. cn_id (f c) = cn_id c \<and> cn_routes (f c) = cn_routes c"
  shows "connections_ok (map (\<lambda>(i, c). (i, f c)) m)"
proof -
  have keys: "map fst (map (\<lambda>(i, c). (i, f c)) m) = map fst m" by (induction m) auto
  have r: "connection_ok i (f c) = connection_ok i c" "routes_of (f c) = routes_of c" for i c
    using f [of c] connection_ok_same_routes [of "f c" c] by auto
  show ?thesis
    using assms(1) unfolding connections_ok_def keys oget_map_values
    by (auto simp: r) blast
qed

lemma check_duplicates_ok: "check_duplicates seen rs = Inr u \<Longrightarrow> distinct (map routeKey rs) \<and> set (map routeKey rs) \<inter> set seen = {}"
  by (induction seen rs rule: check_duplicates.induct) (auto split: if_splits)

lemma check_claimed_ok: "check_claimed cl rs = Inr u \<longleftrightarrow> set (map routeKey rs) \<inter> set cl = {}"
  by (induction cl rs rule: check_claimed.induct) auto

lemma check_others_ok:
  "check_others i rs cs = Inr u \<Longrightarrow> c \<in> set cs \<Longrightarrow> cn_id c \<noteq> i \<Longrightarrow> set (map routeKey rs) \<inter> set (routes_of c) = {}"
  by (induction i rs cs rule: check_others.induct)
    (auto simp: rbind_eq_Inr check_claimed_ok routes_of_def split: if_splits)

lemma setRoutes_connections_ok:
  assumes "connections_ok (connections h)" and "setRoutes i rs h = Inr (h', out)"
  shows "connections_ok (connections h')"
proof -
  obtain c where c: "oget (connections h) i = Some c"
    and d: "check_duplicates [] (map (control_route i) rs) = Inr ()"
    and o: "check_others i (map (control_route i) rs) (map snd (connections h)) = Inr ()"
    and h': "h' = h\<lparr>connections := oset i (c\<lparr>cn_routes := map (control_route i) rs\<rparr>) (connections h)\<rparr>"
    using assms(2)
    by (auto simp: setRoutes_def requireConnection_def assertRoutesAvailable_def rbind_eq_Inr Let_def
        split: option.splits sum.splits)
  note ok = connections_okD [OF assms(1)]
  have "connections_ok (oset i (c\<lparr>cn_routes := map (control_route i) rs\<rparr>) (connections h))"
  proof (rule connections_ok_oset [OF assms(1)])
    fix j d assume j: "j \<noteq> i" "oget (connections h) j = Some d"
    then have "d \<in> set (map snd (connections h))" and "cn_id d \<noteq> i"
      using ok(2) [of j d] by (force dest: oget_in simp: connection_ok_def)+
    from check_others_ok [OF o this]
    show "set (routes_of (c\<lparr>cn_routes := map (control_route i) rs\<rparr>)) \<inter> set (routes_of d) = {}"
      by (simp add: routes_of_def)
  qed (use c ok(2) check_duplicates_ok [OF d] in \<open>auto simp: routes_of_def connection_ok_def list_all_iff control_route_def\<close>)
  with h' show ?thesis by simp
qed

lemma owf_filter: "owf m \<Longrightarrow> owf (filter P m)"
  by (simp add: distinct_map_filter)

text \<open>What \<open>removeConnection\<close> does to the table of pending requests.\<close>

definition close_error :: "string \<Rightarrow> pending_request \<Rightarrow> hub_error" where
  "close_error c p = ControlConnectionUnavailable (''Control connection '' @ c @ '' closed during '' @ pr_method p)"

lemma reject_all_eq:
  "reject_all c ps m =
     (foldl (\<lambda>m k. odel k m) m (map fst (filter (\<lambda>(i, p). pr_connection p = c) ps)),
      map (\<lambda>(i, p). Rejected i (close_error c p)) (filter (\<lambda>(i, p). pr_connection p = c) ps))"
  by (induction c ps m rule: reject_all.induct) (auto simp: close_error_def)

lemma reject_all_self:
  assumes "owf m"
  shows "fst (reject_all c m m) = filter (\<lambda>(i, p). pr_connection p \<noteq> c) m"
proof -
  have "i \<notin> set (map fst (filter (\<lambda>(i, p). pr_connection p = c) m)) \<longleftrightarrow> pr_connection p \<noteq> c" if "(i, p) \<in> set m" for i p
    using assms that by (auto simp: image_iff dest: eq_key_imp_eq_value)
  then show ?thesis
    by (auto simp: reject_all_eq foldl_odel_filter intro!: filter_cong)
qed

lemma removeConnection_eq:
  assumes "owf (pending h)" and "oget (connections h) c = Some cn"
  shows "removeConnection c h =
     (\<lparr>connections = odel c (connections h), pending = filter (\<lambda>(i, p). pr_connection p \<noteq> c) (pending h)\<rparr>,
      map (\<lambda>(i, p). Rejected i (close_error c p)) (filter (\<lambda>(i, p). pr_connection p = c) (pending h)) @ [Disconnected c])"
  using assms reject_all_self [OF assms(1), of c]
  by (simp add: removeConnection_def reject_all_eq)


lemma hub_inv_iff:
  "hub_inv h \<longleftrightarrow> connections_ok (connections h) \<and> owf (pending h)
     \<and> (\<forall>i p. oget (pending h) i = Some p \<longrightarrow> ohas (connections h) (pr_connection p))"
  by (auto simp: hub_inv_def oget_iff)

lemma empty_hub_inv: "hub_inv empty_hub"
  by (simp add: hub_inv_def empty_hub_def connections_ok_def)

lemma register_inv [inv_intros]: "hub_inv h \<Longrightarrow> hub_inv (registerConnection i h)"
  unfolding hub_inv_iff registerConnection_def
  by (auto intro!: connections_ok_oset simp: connection_ok_def routes_of_def)

lemma closing_inv [inv_intros]: "hub_inv h \<Longrightarrow> hub_inv (socketClosing i h)"
  unfolding hub_inv_iff socketClosing_def
  by (auto intro: connections_ok_same_routes split: option.splits)

lemma setRoutes_inv: "hub_inv h \<Longrightarrow> setRoutes i rs h = Inr (h', out) \<Longrightarrow> hub_inv h'"
proof -
  assume h: "hub_inv h" and s: "setRoutes i rs h = Inr (h', out)"
  then have "connections_ok (connections h')" by (auto simp: hub_inv_def setRoutes_connections_ok)
  moreover have "pending h' = pending h" and "ohas (connections h) j \<Longrightarrow> ohas (connections h') j" for j
    using s by (cases "assertRoutesAvailable i (map (control_route i) rs) h";
        auto simp: setRoutes_def rbind_eq_Inr Let_def)+
  ultimately show "hub_inv h'" using h by (simp add: hub_inv_iff)
qed

lemma rejectPending_inv [inv_intros]: "hub_inv h \<Longrightarrow> hub_inv (fst (rejectPending i e h))"
  by (auto simp: hub_inv_iff rejectPending_def split: option.splits)

lemma timeout_inv [inv_intros]: "hub_inv h \<Longrightarrow> hub_inv (fst (requestTimedOut i h))"
  by (auto simp: hub_inv_iff requestTimedOut_def split: option.splits)

lemma request_inv [inv_intros]: "hub_inv h \<Longrightarrow> hub_inv (fst (request up ok i c m ps h))"
proof (cases "requireConnection c h")
  case (Inr cn)
  assume h: "hub_inv h"
  let ?h = "h\<lparr>pending := oset i \<lparr>pr_connection = c, pr_method = m, pr_sensitive = isSensitiveControlRequest m ps\<rparr> (pending h)\<rparr>"
  from h Inr have "hub_inv ?h"
    by (auto simp: hub_inv_iff requireConnection_def split: option.splits)
  with Inr show ?thesis
    by (auto simp: request_def Let_def intro: rejectPending_inv split: sum.splits)
qed (simp add: request_def)

lemma handleResponse_inv [inv_intros]: "hub_inv h \<Longrightarrow> hub_inv (fst (handleResponse c m h))"
  by (auto simp: hub_inv_iff handleResponse_def split: option.splits)

lemma sendEvent_inv [inv_intros]: "hub_inv h \<Longrightarrow> hub_inv (fst (sendEvent up ok u now c e h))"
proof -
  assume h: "hub_inv h"
  have "hub_inv (h\<lparr>connections := oset c (cn\<lparr>cn_sequences := q\<rparr>) (connections h)\<rparr>)"
    if "oget (connections h) c = Some cn" for cn q
    using h that by (auto simp: hub_inv_iff intro: connections_ok_same_routes)
  with h show ?thesis
    by (auto simp: sendEvent_def Let_def split: option.splits sum.splits)
qed

lemma close_inv [inv_intros]: "hub_inv h \<Longrightarrow> hub_inv (fst (closeConnections h))"
  by (auto simp: hub_inv_iff closeConnections_def oget_map_values intro!: connections_ok_map)

lemma filter_get: "owf m \<Longrightarrow> oget (filter (\<lambda>(i, p). P p) m) k = (case oget m k of Some p \<Rightarrow> if P p then Some p else None | None \<Rightarrow> None)"
proof (induction m)
  case (Cons q m)
  obtain i p where q: "q = (i, p)" by (cases q)
  with Cons.prems have "oget m i = None" by (simp add: map_of_eq_None_iff)
  with Cons q show ?case by (auto split: option.splits)
qed simp

lemma removeConnection_inv [inv_intros]: "hub_inv h \<Longrightarrow> hub_inv (fst (removeConnection c h))"
proof (cases "oget (connections h) c")
  case None
  assume "hub_inv h"
  with None show ?thesis by (simp add: removeConnection_def)
next
  case (Some cn)
  assume h: "hub_inv h"
  then have "owf (pending h)" by (simp add: hub_inv_def)
  from removeConnection_eq [OF this Some] this h show ?thesis
    by (auto simp: hub_inv_iff connections_ok_odel owf_filter filter_get split: option.splits if_splits)
qed

lemma hub_step_inv: "hub_inv h \<Longrightarrow> hub_inv (hub_state up h e)"
  by (cases e) (auto simp: inv_intros case_prod_beta split: sum.splits intro: setRoutes_inv)

lemma hub_run_inv: "hub_inv (fst (hub_run up empty_hub es))"
  using hub_step_inv empty_hub_inv by (induction es rule: rev_induct) (auto simp: steps_append case_prod_beta)

text \<open>The pairwise statement of the invariant as one about the whole table.\<close>

lemma distinct_concat_pairwise:
  assumes "owf m" and "\<And>i c. oget m i = Some c \<Longrightarrow> distinct (f c)"
    and "\<And>i j c d. oget m i = Some c \<Longrightarrow> oget m j = Some d \<Longrightarrow> i \<noteq> j \<Longrightarrow> set (f c) \<inter> set (f d) = {}"
  shows "distinct (concat (map (\<lambda>(i, c). f c) m))"
  using assms
proof (induction m)
  case (Cons q m)
  obtain i c where q: "q = (i, c)" by (cases q)
  have i: "oget m j = Some d \<Longrightarrow> j \<noteq> i" for j d
    using Cons.prems(1) q by (auto dest!: oget_in simp: image_iff)
  have "distinct (concat (map (\<lambda>(i, c). f c) m))"
  proof (rule Cons.IH)
    show "owf m" using Cons.prems(1) by simp
  next
    fix j d assume "oget m j = Some d"
    with i [OF this] Cons.prems(2) [of j d] q show "distinct (f d)" by simp
  next
    fix j k d e assume a: "oget m j = Some d" "oget m k = Some e" "j \<noteq> k"
    with i [OF a(1)] i [OF a(2)] Cons.prems(3) [of j d k e] q show "set (f d) \<inter> set (f e) = {}" by simp
  qed
  moreover have "set (f c) \<inter> set (f d) = {}" if "(j, d) \<in> set m" for j d
  proof -
    have j: "oget m j = Some d" using Cons.prems(1) that by (simp add: oget_iff)
    with i [OF j] Cons.prems(3) [of i c j d] q show ?thesis by simp
  qed
  moreover have "distinct (f c)" using Cons.prems(2) [of i c] q by simp
  ultimately show ?case using q by (auto simp: disjoint_iff)
qed simp

text \<open>
  C14. Whatever connections come and go and whatever routes they register, no route is ever claimed
  twice, by one connection or by two; every connection's routes point back to it; and every pending
  gateway request belongs to a connection that is still there.
\<close>

theorem hub_routes_unique:
  "distinct (concat (map (\<lambda>(i, c). map routeKey (cn_routes c)) (connections (fst (hub_run up empty_hub es)))))
   \<and> list_all (\<lambda>(i, c). list_all (\<lambda>r. rc_url r = ''control://'' @ i) (cn_routes c)) (connections (fst (hub_run up empty_hub es)))
   \<and> list_all (\<lambda>(i, p). isConnected (pr_connection p) (fst (hub_run up empty_hub es))) (pending (fst (hub_run up empty_hub es)))"
proof -
  let ?h = "fst (hub_run up empty_hub es)"
  have inv: "hub_inv ?h"
    by (rule hub_run_inv)
  then have ok: "connections_ok (connections ?h)" by (simp add: hub_inv_def)
  note c = connections_okD [OF ok]
  have "distinct (concat (map (\<lambda>(i, c). routes_of c) (connections ?h)))"
    using c(2,3) by (intro distinct_concat_pairwise [OF c(1)]) (auto simp: connection_ok_def)
  moreover have "list_all (\<lambda>(i, c). list_all (\<lambda>r. rc_url r = ''control://'' @ i) (cn_routes c)) (connections ?h)"
    using c(2) oget_iff [OF c(1)] by (fastforce simp: list_all_iff connection_ok_def)
  moreover have "list_all (\<lambda>(i, p). isConnected (pr_connection p) ?h) (pending ?h)"
    using inv by (auto simp: hub_inv_def list_all_iff isConnected_def)
  ultimately show ?thesis by (simp add: routes_of_def)
qed


section \<open>Every request is settled once\<close>

fun settled :: "hub_output \<Rightarrow> string option" where
  "settled (Resolved i r) = Some i"
| "settled (Rejected i e) = Some i"
| "settled _ = None"

fun requested :: "hub_event \<Rightarrow> string option" where
  "requested (Request ok i c m ps) = Some i"
| "requested _ = None"

definition pending_ids :: "hub \<Rightarrow> string multiset" where
  "pending_ids h = mset (okeys (pending h))"

lemma rejectPending_settles:
  "owf (pending h) \<Longrightarrow> ids settled (snd (rejectPending i e h)) + pending_ids (fst (rejectPending i e h)) = pending_ids h"
  using mset_okeys_odel [of "pending h" i] by (auto simp: pending_ids_def rejectPending_def split: option.splits)

lemma timeout_settles:
  "owf (pending h) \<Longrightarrow> ids settled (snd (requestTimedOut i h)) + pending_ids (fst (requestTimedOut i h)) = pending_ids h"
  using mset_okeys_odel [of "pending h" i] by (auto simp: pending_ids_def requestTimedOut_def split: option.splits)

lemma request_settles:
  assumes "\<not> ohas (pending h) i" and "owf (pending h)"
  shows "ids settled (snd (request up ok i c m ps h)) + pending_ids (fst (request up ok i c m ps h)) = {#i#} + pending_ids h"
proof (cases "requireConnection c h")
  case (Inr cn)
  let ?h = "h\<lparr>pending := oset i \<lparr>pr_connection = c, pr_method = m, pr_sensitive = isSensitiveControlRequest m ps\<rparr> (pending h)\<rparr>"
  have "okeys (pending ?h) = okeys (pending h) @ [i]"
    using okeys_oset_new [OF assms(1)] by simp
  then have p: "pending_ids ?h = {#i#} + pending_ids h" by (simp add: pending_ids_def del: mset_map)
  have w: "owf (pending ?h)" using assms(2) by simp
  from rejectPending_settles [OF w] p Inr show ?thesis
    by (auto simp: request_def Let_def split: sum.splits)
qed (simp add: request_def)

lemma handleResponse_settles:
  "owf (pending h) \<Longrightarrow> ids settled (fst (snd (handleResponse c m h))) + pending_ids (fst (handleResponse c m h)) = pending_ids h"
  using mset_okeys_odel [of "pending h" "resp_id m"]
  by (cases m) (auto simp: pending_ids_def handleResponse_def settlement_def split: option.splits)

lemma mset_filter_map: "mset (map fst (filter P m)) + mset (map fst (filter (\<lambda>x. \<not> P x) m)) = mset (map fst m)"
  by (induction m) auto

lemma settled_close: "ids settled (map (\<lambda>(i, p). Rejected i (f p)) ps) = mset (map fst ps)"
  by (induction ps) auto

lemma remove_settles:
  assumes "owf (pending h)"
  shows "ids settled (snd (removeConnection c h)) + pending_ids (fst (removeConnection c h)) = pending_ids h"
proof (cases "oget (connections h) c")
  case (Some cn)
  have f: "filter (\<lambda>x. \<not> (case x of (i, p) \<Rightarrow> pr_connection p = c)) (pending h) = filter (\<lambda>(i, p). pr_connection p \<noteq> c) (pending h)"
    by (rule filter_cong) auto
  from mset_filter_map [of "\<lambda>(i, p). pr_connection p = c" "pending h"]
  show ?thesis
    by (simp add: removeConnection_eq [OF assms Some] settled_close pending_ids_def f del: mset_map mset_filter)
qed (simp add: removeConnection_def)

lemma sendEvent_settles:
  "ids settled (fst (snd (sendEvent up ok u now c e h))) = {#}" "pending (fst (sendEvent up ok u now c e h)) = pending h"
  by (auto simp: sendEvent_def Let_def split: option.splits sum.splits)

lemma closing_settles: "ids settled (map (\<lambda>(i, c). Closing (cn_id c)) cs) = {#}"
  by (induction cs) auto

lemma in_pending_ids: "i \<in># pending_ids h \<longleftrightarrow> ohas (pending h) i"
  unfolding ohas_keys pending_ids_def by (simp del: mset_map)

lemma step_settles:
  assumes "hub_inv h" and "case requested e of None \<Rightarrow> True | Some i \<Rightarrow> i \<notin># pending_ids h"
  shows "ids settled (snd (hub_step up h e)) + pending_ids (fst (hub_step up h e)) = ids requested [e] + pending_ids h"
proof -
  have wf: "owf (pending h)" using assms(1) by (simp add: hub_inv_def)
  have r: "ids requested [e] = (case requested e of None \<Rightarrow> {#} | Some i \<Rightarrow> {#i#})"
    by simp
  have s: "pending_ids (fst (case setRoutes i rs h of Inl _ \<Rightarrow> (h, []) | Inr (h', _) \<Rightarrow> (h', []))) = pending_ids h" for i rs
    by (cases "assertRoutesAvailable i (map (control_route i) rs) h"; cases "oget (connections h) i")
      (auto simp: setRoutes_def requireConnection_def Let_def pending_ids_def)
  have s': "ids settled (snd (case setRoutes i rs h of Inl _ \<Rightarrow> (h, []) | Inr (h', _) \<Rightarrow> (h', []))) = {#}" for i rs
    by (simp split: sum.split prod.split)
  have p: "pending h' = pending h \<Longrightarrow> pending_ids h' = pending_ids h" for h' by (simp add: pending_ids_def)
  have c: "pending_ids (h\<lparr>connections := cs\<rparr>) = pending_ids h" for cs by (simp add: pending_ids_def)
  show ?thesis
    unfolding r
  proof (cases e)
    case (Request ok i c m ps)
    with assms(2) in_pending_ids [of i h] show "ids settled (snd (hub_step up h e)) + pending_ids (fst (hub_step up h e))
        = (case requested e of None \<Rightarrow> {#} | Some i \<Rightarrow> {#i#}) + pending_ids h"
      by (simp add: request_settles [OF _ wf])
  next
    case (Response c m)
    then show "ids settled (snd (hub_step up h e)) + pending_ids (fst (hub_step up h e))
        = (case requested e of None \<Rightarrow> {#} | Some i \<Rightarrow> {#i#}) + pending_ids h"
      using handleResponse_settles [OF wf, of c m] by (simp add: case_prod_beta)
  next
    case (SendEvent ok u n c ev)
    then show "ids settled (snd (hub_step up h e)) + pending_ids (fst (hub_step up h e))
        = (case requested e of None \<Rightarrow> {#} | Some i \<Rightarrow> {#i#}) + pending_ids h"
      by (simp add: case_prod_beta sendEvent_settles p [OF sendEvent_settles(2)])
  qed (simp_all add: rejectPending_settles [OF wf] timeout_settles [OF wf] remove_settles [OF wf] s s'
      registerConnection_def socketClosing_def closing_settles closeConnections_def c split: option.split)
qed

interpretation hub_ledger: steady_ledger "hub_step up" hub_inv pending_ids requested settled
  by unfold_locales (erule hub_step_inv, erule (1) step_settles, erule hub_step_inv)

text \<open>
  C13. Conservation of requests: when the request identifiers are distinct, then after any run every
  request ever issued is either still pending or has been settled exactly once, and nothing else is
  ever settled.
\<close>

theorem requests_settled_once:
  assumes "distinct (List.map_filter requested es)"
  shows "ids settled (snd (hub_run up empty_hub es)) + pending_ids (fst (hub_run up empty_hub es)) = ids requested es"
  by (rule hub_ledger.run_balance [OF empty_hub_inv _ assms]) (simp add: pending_ids_def empty_hub_def)

theorem requests_settled_once_witness:
  "ids settled (snd (hub_run (\<lambda>s. None) empty_hub
     [Connect ''c'', Request True ''1'' ''c'' ''sip.bye'' JUndef, Request True ''2'' ''c'' ''sip.bye'' JUndef,
      Response ''c'' (COk ''1'' JNull), Response ''c'' (COk ''1'' JNull)])) = {#''1''#}"
proof -
  let ?es = "[Connect ''c'', Request True ''1'' ''c'' ''sip.bye'' JUndef, Request True ''2'' ''c'' ''sip.bye'' JUndef,
      Response ''c'' (COk ''1'' JNull), Response ''c'' (COk ''1'' JNull)]"
  have r: "List.map_filter requested ?es = [''1'', ''2'']" by (simp add: List.map_filter_def)
  have p: "okeys (pending (fst (hub_run (\<lambda>s. None) empty_hub ?es))) = [''2'']" by code_simp
  have "ids settled (snd (hub_run (\<lambda>s. None) empty_hub ?es)) + mset [''2''] = mset [''1'', ''2'']"
    using requests_settled_once [of ?es "\<lambda>s. None"] unfolding r p pending_ids_def ids_def by simp
  then show ?thesis by simp
qed


section \<open>Who may answer\<close>

fun request_to :: "hub_event \<Rightarrow> (string \<times> string) option" where
  "request_to (Request ok i c m ps) = Some (i, c)"
| "request_to _ = None"

definition asked :: "hub_event list \<Rightarrow> string \<Rightarrow> string \<Rightarrow> bool" where
  "asked es i c \<longleftrightarrow> list_ex (\<lambda>e. request_to e = Some (i, c)) es"

definition answered :: "hub_event list \<Rightarrow> string \<Rightarrow> jv \<Rightarrow> bool" where
  "answered es i r \<longleftrightarrow>
     list_ex (\<lambda>e. case request_to e of Some (j, c) \<Rightarrow> j = i \<and> Response c (COk i r) \<in> set es | None \<Rightarrow> False) es"

lemma answered_iff: "answered es i r \<longleftrightarrow> (\<exists>c. asked es i c \<and> Response c (COk i r) \<in> set es)"
  by (auto simp: answered_def asked_def list_ex_iff split: option.splits) fastforce+

lemma asked_append [simp]: "asked (es @ fs) i c \<longleftrightarrow> asked es i c \<or> asked fs i c"
  by (simp add: asked_def)

lemma answered_mono: "answered es i r \<Longrightarrow> answered (es @ fs) i r"
  by (auto simp: answered_iff)

lemma asked_answered: "asked es i c \<Longrightarrow> answered (es @ [Response c (COk i r)]) i r"
  by (auto simp: answered_iff)

definition all_asked :: "hub_event list \<Rightarrow> hub \<Rightarrow> bool" where
  "all_asked es h \<longleftrightarrow> (\<forall>i p. oget (pending h) i = Some p \<longrightarrow> asked es i (pr_connection p))"

lemma all_asked_less:
  "all_asked es h \<Longrightarrow> (\<And>i p. oget (pending h') i = Some p \<Longrightarrow> oget (pending h) i = Some p) \<Longrightarrow> all_asked es h'"
  by (auto simp: all_asked_def)

lemma oget_filterD: "owf m \<Longrightarrow> oget (filter (\<lambda>(i, p). P p) m) k = Some v \<Longrightarrow> oget m k = Some v"
  by (auto simp: filter_get split: option.splits if_splits)

lemma step_pending:
  assumes "hub_inv h" "oget (pending (fst (hub_step up h e))) i = Some p"
  shows "oget (pending h) i = Some p \<or> asked [e] i (pr_connection p)"
proof -
  have wf: "owf (pending h)" using assms(1) by (simp add: hub_inv_def)
  have s: "pending (fst (case setRoutes i rs h of Inl _ \<Rightarrow> (h, []) | Inr (h', _) \<Rightarrow> (h', []))) = pending h" for i rs
    by (cases "assertRoutesAvailable i (map (control_route i) rs) h"; cases "oget (connections h) i")
      (auto simp: setRoutes_def requireConnection_def Let_def)
  show ?thesis
  proof (cases e)
    case (SocketClosed c)
    with assms(2) show ?thesis
      by (cases "oget (connections h) c")
        (auto simp: removeConnection_eq [OF wf] oget_filterD [OF wf], simp add: removeConnection_def)
  next
    case (Request ok j c m ps)
    with assms(2) show ?thesis
      by (auto simp: request_def rejectPending_def Let_def asked_def split: sum.splits if_splits)
  next
    case (Response c m)
    with assms(2) show ?thesis
      by (auto simp: handleResponse_def split: option.splits if_splits)
  qed (use assms(2) in \<open>auto simp: s registerConnection_def socketClosing_def closeConnections_def sendEvent_settles
      case_prod_beta requestTimedOut_def rejectPending_def split: option.splits if_splits\<close>)
qed

lemma step_resolves:
  assumes "Resolved i r \<in> set (snd (hub_step up h e))"
  shows "\<exists>c p. e = Response c (COk i r) \<and> oget (pending h) i = Some p \<and> pr_connection p = c"
proof (cases e)
  case (Response c m)
  with assms show ?thesis
    by (cases m) (auto simp: handleResponse_def settlement_def split: option.splits if_splits)
next
  case (SendEvent ok u n c ev)
  with assms show ?thesis
    by (auto simp: sendEvent_def Let_def split: option.splits sum.splits if_splits)
next
  case (SocketClosed c)
  with assms show ?thesis
    by (auto simp: removeConnection_def reject_all_eq split: option.splits)
next
  case (SetRoutes c rs)
  with assms show ?thesis by (simp split: sum.splits prod.splits)
next
  case (Request ok j c m ps)
  with assms show ?thesis
    by (auto simp: request_def rejectPending_def Let_def split: sum.splits if_splits)
qed (use assms in \<open>auto simp: closeConnections_def requestTimedOut_def rejectPending_def split: option.splits\<close>)

text \<open>
  A request is only ever resolved with the result of a response that came from the very
  connection the request was sent to, under the request's identifier.
\<close>

theorem resolved_by_its_connection:
  "list_all (\<lambda>out. case out of Resolved i r \<Rightarrow> answered es i r | _ \<Rightarrow> True) (snd (hub_run up empty_hub es))"
proof -
  have "all_asked es (fst (hub_run up empty_hub es)) \<and> (\<forall>i r. Resolved i r \<in> set (snd (hub_run up empty_hub es)) \<longrightarrow> answered es i r)"
  proof (induction es rule: rev_induct)
    case Nil
    show ?case by (simp add: all_asked_def empty_hub_def)
  next
    case (snoc e es)
    let ?h = "fst (hub_run up empty_hub es)"
    have inv: "hub_inv ?h"
      by (rule hub_run_inv)
    have a: "oget (pending ?h) i = Some p \<Longrightarrow> asked es i (pr_connection p)" for i p
      using snoc.IH by (simp add: all_asked_def)
    have "all_asked (es @ [e]) (fst (hub_step up ?h e))"
      using step_pending [OF inv] a by (fastforce simp: all_asked_def)
    moreover have "answered (es @ [e]) i r" if "Resolved i r \<in> set (snd (hub_step up ?h e))" for i r
      using step_resolves [OF that] a asked_answered by blast
    ultimately show ?case
      using snoc.IH answered_mono by (auto simp: steps_append case_prod_beta)
  qed
  then show ?thesis by (auto simp: list_all_iff split: hub_output.split)
qed

section \<open>Sequence numbers\<close>

fun sequence_sent :: "string \<Rightarrow> string \<Rightarrow> hub_output \<Rightarrow> int option" where
  "sequence_sent c s (Sent d (CEvent e i t q now data)) = (if d = c \<and> t = Some s then q else None)"
| "sequence_sent c s out = None"

definition sequences_sent :: "string \<Rightarrow> string \<Rightarrow> hub_output list \<Rightarrow> int list" where
  "sequences_sent c s outs = List.map_filter (sequence_sent c s) outs"

definition connected_ids :: "hub_event list \<Rightarrow> string list" where
  "connected_ids es = List.map_filter (\<lambda>e. case e of Connect i \<Rightarrow> Some i | _ \<Rightarrow> None) es"

definition counter :: "string \<Rightarrow> string \<Rightarrow> hub \<Rightarrow> int" where
  "counter c s h = (case oget (connections h) c of None \<Rightarrow> 0
     | Some cn \<Rightarrow> (case oget (cn_sequences cn) s of None \<Rightarrow> 0 | Some n \<Rightarrow> int n))"

lemma sequences_sent_simps [simp]:
  "sequences_sent c s [] = []" "sequences_sent c s (o1 # outs) = (case sequence_sent c s o1 of None \<Rightarrow> [] | Some q \<Rightarrow> [q]) @ sequences_sent c s outs"
  "sequences_sent c s (xs @ ys) = sequences_sent c s xs @ sequences_sent c s ys"
  by (auto simp: sequences_sent_def List.map_filter_def split: option.splits)

lemma no_sequences: "list_all (\<lambda>out. sequence_sent c s out = None) outs \<Longrightarrow> sequences_sent c s outs = []"
  by (induction outs) auto

lemma sendEvent_sequence:
  assumes "sendEvent up ok u now d ev h = (h', outs, b)"
  shows "sequences_sent c s outs = [] \<and> counter c s h \<le> counter c s h' \<or> sequences_sent c s outs = [counter c s h + 1] \<and> counter c s h' = counter c s h + 1"
    and "isConnected c h' = isConnected c h"
proof -
  show "isConnected c h' = isConnected c h"
    using assms by (auto simp: sendEvent_def Let_def isConnected_def split: option.splits sum.splits if_splits)
  show "sequences_sent c s outs = [] \<and> counter c s h \<le> counter c s h' \<or> sequences_sent c s outs = [counter c s h + 1] \<and> counter c s h' = counter c s h + 1"
    using assms
    by (auto simp: sendEvent_def Let_def counter_def has_session_def nextSequence_def split: option.splits sum.splits if_splits)
qed

lemma counter_same: "oget (connections h') c = oget (connections h) c \<Longrightarrow> counter c s h' = counter c s h \<and> isConnected c h' = isConnected c h"
  by (simp add: counter_def isConnected_def)

lemma counter_update:
  "oget (connections h') c = map_option f (oget (connections h) c) \<Longrightarrow> (\<And>cn. cn_sequences (f cn) = cn_sequences cn)
   \<Longrightarrow> counter c s h' = counter c s h \<and> isConnected c h' = isConnected c h"
  by (cases "oget (connections h) c") (simp_all add: counter_def isConnected_def)

text \<open>A step other than a send emits no numbered event and keeps the counters of a connection that stays.\<close>

lemma step_quiet:
  assumes "\<And>ok u n d ev. e \<noteq> SendEvent ok u n d ev" and "e \<noteq> Connect c"
  shows "sequences_sent c s (snd (hub_step up h e)) = []"
    and "counter c s (hub_state up h e) = counter c s h \<and> isConnected c (hub_state up h e) = isConnected c h
         \<or> e = SocketClosed c \<and> \<not> isConnected c (hub_state up h e)"
proof -
  show "sequences_sent c s (snd (hub_step up h e)) = []"
  proof (rule no_sequences, cases e)
    case (Request ok i d m ps)
    then show "list_all (\<lambda>out. sequence_sent c s out = None) (snd (hub_step up h e))"
      by (auto simp: request_def rejectPending_def Let_def split: sum.splits option.splits)
  next
    case (Response d m)
    then show "list_all (\<lambda>out. sequence_sent c s out = None) (snd (hub_step up h e))"
      by (cases m) (auto simp: handleResponse_def settlement_def split: option.splits)
  next
    case (SocketClosed d)
    then show "list_all (\<lambda>out. sequence_sent c s out = None) (snd (hub_step up h e))"
      by (auto simp: removeConnection_def reject_all_eq list_all_iff split: option.splits)
  next
    case (SetRoutes d rs)
    then show "list_all (\<lambda>out. sequence_sent c s out = None) (snd (hub_step up h e))"
      by (simp split: sum.splits prod.splits)
  qed (use assms in \<open>auto simp: closeConnections_def requestTimedOut_def rejectPending_def list_all_iff split: option.splits\<close>)
  show "counter c s (hub_state up h e) = counter c s h \<and> isConnected c (hub_state up h e) = isConnected c h
         \<or> e = SocketClosed c \<and> \<not> isConnected c (hub_state up h e)"
  proof (cases e)
    case (Connect d)
    then show ?thesis using assms(2) by (intro disjI1 counter_same) (simp add: registerConnection_def)
  next
    case (SocketClosing d)
    then show ?thesis
      by (cases "oget (connections h) d") (auto simp: socketClosing_def counter_def isConnected_def)
  next
    case (SocketClosed d)
    then show ?thesis
      by (cases "d = c") (auto simp: removeConnection_def isConnected_def counter_def split: option.splits prod.splits)
  next
    case (SetRoutes d rs)
    then show ?thesis
      by (cases "assertRoutesAvailable d (map (control_route d) rs) h"; cases "oget (connections h) d")
        (auto simp: setRoutes_def requireConnection_def Let_def counter_def isConnected_def)
  next
    case (Request ok i d m ps)
    then show ?thesis
      by (intro disjI1 counter_same) (auto simp: request_def rejectPending_def Let_def split: sum.splits option.splits)
  next
    case (Response d m)
    then show ?thesis
      by (intro disjI1 counter_same) (auto simp: handleResponse_def split: option.splits)
  next
    case Shutdown
    then show ?thesis
      by (intro disjI1 counter_update [where f = "\<lambda>cn. cn\<lparr>cn_open := False\<rparr>"]) (auto simp: closeConnections_def oget_map_values)
  qed (use assms in \<open>auto simp: requestTimedOut_def rejectPending_def counter_def isConnected_def split: option.splits\<close>)
qed

text \<open>The numbers sent so far increase and stay within the counter while the connection lasts.\<close>

definition numbered :: "string \<Rightarrow> string \<Rightarrow> hub_event list \<Rightarrow> hub \<Rightarrow> int list \<Rightarrow> bool" where
  "numbered c s es h qs \<longleftrightarrow> sorted_wrt (<) qs \<and> (\<forall>q\<in>set qs. 1 \<le> q) \<and> 0 \<le> counter c s h
     \<and> (isConnected c h \<longrightarrow> c \<in> set (connected_ids es) \<and> (\<forall>q\<in>set qs. q \<le> counter c s h))
     \<and> (qs \<noteq> [] \<longrightarrow> c \<in> set (connected_ids es))"

lemma connected_ids_snoc: "connected_ids (es @ [e]) = connected_ids es @ (case e of Connect i \<Rightarrow> [i] | _ \<Rightarrow> [])"
  by (auto simp: connected_ids_def List.map_filter_def split: hub_event.splits)

lemma step_numbered:
  assumes "numbered c s es h qs" and "distinct (connected_ids (es @ [e]))"
  shows "numbered c s (es @ [e]) (hub_state up h e) (qs @ sequences_sent c s (snd (hub_step up h e)))"
proof (cases "e = Connect c")
  case True
  with assms(2) have "c \<notin> set (connected_ids es)" by (simp add: connected_ids_snoc)
  with assms(1) have "qs = []" by (auto simp: numbered_def)
  with True show ?thesis
    by (simp add: numbered_def connected_ids_snoc registerConnection_def counter_def)
next
  case False
  have ids: "set (connected_ids es) \<subseteq> set (connected_ids (es @ [e]))" by (auto simp: connected_ids_snoc)
  show ?thesis
  proof (cases "\<exists>ok u n d ev. e = SendEvent ok u n d ev")
    case True
    then obtain ok u n d ev where e: "e = SendEvent ok u n d ev" by blast
    obtain h' outs b where r: "sendEvent up ok u n d ev h = (h', outs, b)" by (metis prod_cases3)
    have nc: "\<not> isConnected c h \<Longrightarrow> sequences_sent c s outs = []"
      using r by (auto simp: isConnected_def sendEvent_def Let_def split: option.splits sum.splits if_splits)
    show ?thesis
      using assms(1) ids sendEvent_sequence(1) [OF r, of c s] sendEvent_sequence(2) [OF r, of c] nc
      by (cases "isConnected c h") (auto simp: numbered_def e r sorted_wrt_append subset_iff)
  next
    case no_send: False
    have q: "sequences_sent c s (snd (hub_step up h e)) = []"
      using no_send False by (intro step_quiet(1)) auto
    have "counter c s (hub_state up h e) = counter c s h \<and> isConnected c (hub_state up h e) = isConnected c h
         \<or> e = SocketClosed c \<and> \<not> isConnected c (hub_state up h e)"
      using no_send False by (intro step_quiet(2)) auto
    moreover have "\<not> isConnected c (hub_state up h e) \<Longrightarrow> counter c s (hub_state up h e) = 0"
      by (auto simp: isConnected_def counter_def)
    ultimately show ?thesis
      using assms(1) ids by (auto simp: numbered_def q subset_iff)
  qed
qed

text \<open>
  When connection identifiers are never reused, the sequence numbers that reach a connection for
  a session are positive and strictly increasing over the whole life of the gateway.
\<close>

theorem sequences_increase:
  assumes "distinct (connected_ids es)"
  shows "sorted_wrt (<) (sequences_sent c s (snd (hub_run up empty_hub es)))
       \<and> list_all (\<lambda>q. 1 \<le> q) (sequences_sent c s (snd (hub_run up empty_hub es)))"
proof -
  have "numbered c s es (fst (hub_run up empty_hub es)) (sequences_sent c s (snd (hub_run up empty_hub es)))"
    using assms
  proof (induction es rule: rev_induct)
    case Nil
    show ?case by (simp add: numbered_def empty_hub_def counter_def isConnected_def)
  next
    case (snoc e es)
    then have "distinct (connected_ids es)" by (simp add: connected_ids_snoc)
    from step_numbered [OF snoc.IH [OF this] snoc.prems, of up] show ?case
      by (simp add: steps_append case_prod_beta)
  qed
  then show ?thesis by (simp add: numbered_def list_all_iff)
qed

definition sample_event :: "string \<Rightarrow> event_to_send" where
  "sample_event s = \<lparr>es_event = ''sip.bye'', es_session = Some s, es_data = JUndef\<rparr>"

theorem sequences_increase_witness:
  "sorted_wrt (<) (sequences_sent ''c'' ''s'' (snd (hub_run (\<lambda>s. None) empty_hub
     [Connect ''c'', SendEvent True ''u1'' ''t'' ''c'' (sample_event ''s''), SendEvent False ''u2'' ''t'' ''c'' (sample_event ''s''),
      SendEvent True ''u3'' ''t'' ''c'' (sample_event ''r''), SendEvent True ''u4'' ''t'' ''c'' (sample_event ''s'')])))
   \<and> sequences_sent ''c'' ''s'' (snd (hub_run (\<lambda>s. None) empty_hub
     [Connect ''c'', SendEvent True ''u1'' ''t'' ''c'' (sample_event ''s''), SendEvent False ''u2'' ''t'' ''c'' (sample_event ''s''),
      SendEvent True ''u3'' ''t'' ''c'' (sample_event ''r''), SendEvent True ''u4'' ''t'' ''c'' (sample_event ''s'')])) = [1, 3]"
proof (rule conjI)
  let ?es = "[Connect ''c'', SendEvent True ''u1'' ''t'' ''c'' (sample_event ''s''), SendEvent False ''u2'' ''t'' ''c'' (sample_event ''s''),
      SendEvent True ''u3'' ''t'' ''c'' (sample_event ''r''), SendEvent True ''u4'' ''t'' ''c'' (sample_event ''s'')]"
  have "distinct (connected_ids ?es)" by code_simp
  from sequences_increase [OF this] show "sorted_wrt (<) (sequences_sent ''c'' ''s'' (snd (hub_run (\<lambda>s. None) empty_hub ?es)))" by blast
  show "sequences_sent ''c'' ''s'' (snd (hub_run (\<lambda>s. None) empty_hub ?es)) = [1, 3]" by code_simp
qed

section \<open>Finding the owner of a destination\<close>

lemma find_in_eq: "find_in d cs = (case find (\<lambda>c. matchRoute (cn_routes c) d \<noteq> None) cs of
     None \<Rightarrow> None | Some c \<Rightarrow> Some (cn_id c, the (matchRoute (cn_routes c) d)))"
  by (induction cs) (auto split: option.splits)

text \<open>
  In every reachable state a destination is offered to the first connection, in the order of
  connecting, one of whose routes matches, by the first such route of that connection, which names
  the connection in its URL; nothing is found only when no route of any connection matches.
\<close>

theorem findRoute_owner:
  "let h = fst (hub_run up empty_hub es) in
   case findRoute d h of
     None \<Rightarrow> list_all (\<lambda>(i, c). matchRoute (cn_routes c) d = None) (connections h)
   | Some (i, r) \<Rightarrow> (\<exists>before c after. connections h = before @ (i, c) # after
       \<and> list_all (\<lambda>(j, b). matchRoute (cn_routes b) d = None) before
       \<and> matchRoute (cn_routes c) d = Some r \<and> rc_url r = ''control://'' @ i)"
proof -
  define h where "h = fst (hub_run up empty_hub es)"
  have inv: "hub_inv h"
    unfolding h_def by (rule hub_run_inv)
  then have ok: "connections_ok (connections h)" by (simp add: hub_inv_def)
  let ?P = "\<lambda>c. matchRoute (cn_routes c) d \<noteq> None"
  have "case findRoute d h of
     None \<Rightarrow> list_all (\<lambda>(i, c). matchRoute (cn_routes c) d = None) (connections h)
   | Some (i, r) \<Rightarrow> (\<exists>before c after. connections h = before @ (i, c) # after
       \<and> list_all (\<lambda>(j, b). matchRoute (cn_routes b) d = None) before
       \<and> matchRoute (cn_routes c) d = Some r \<and> rc_url r = ''control://'' @ i)"
  proof (cases "find ?P (map snd (connections h))")
    case None
    then have "findRoute d h = None" by (simp add: findRoute_def find_in_eq)
    moreover from None have "list_all (\<lambda>(i, c). matchRoute (cn_routes c) d = None) (connections h)"
      by (auto simp: find_None_iff list_all_iff)
    ultimately show ?thesis by simp
  next
    case (Some c)
    then obtain ys zs where s: "map snd (connections h) = ys @ c # zs" "?P c" "\<forall>y\<in>set ys. \<not> ?P y"
      by (auto simp: find_first)
    then obtain before i after where h: "connections h = before @ (i, c) # after" "map snd before = ys"
      by (auto simp: map_eq_append_conv map_eq_Cons_conv)
    obtain r where r: "matchRoute (cn_routes c) d = Some r" using s(2) by blast
    have get: "oget (connections h) i = Some c"
      using oget_iff [OF connections_okD(1) [OF ok], of i c] unfolding h(1) by simp
    have "r \<in> set (cn_routes c)" using r by (auto simp: matchRoute_dest find_first)
    with connections_okD(2) [OF ok get] have i: "cn_id c = i" "rc_url r = ''control://'' @ i"
      by (auto simp: connection_ok_def list_all_iff)
    have "list_all (\<lambda>(j, b). matchRoute (cn_routes b) d = None) before"
      using s(3) unfolding h(2) [symmetric] by (fastforce simp: list_all_iff)
    with Some r i h(1) show ?thesis by (auto simp: findRoute_def find_in_eq)
  qed
  then show ?thesis unfolding Let_def h_def .
qed

end
