(* ===== verification/Commands.thy ===== *)
theory Commands
  imports CallRegistry HttpContract ControlProtocol
begin

text \<open>
  The command layer (\<open>src/session-commands.ts\<close>): how a control or HTTP request is validated and
  turned into one call on the SIP gateway or the media controller, and which error code a failure
  gets. A decoded \<open>command\<close> is that call with its arguments; the steps follow the evaluation order
  of the code, so the first failing check is the error that is reported.
\<close>

section \<open>Errors\<close>

text \<open>The error classes of the gateway, by their message; \<open>OtherError\<close> is any other \<open>Error\<close>.\<close>

datatype gw_error =
  GatewayDrainingError
| CommandNotImplementedError string
| CommandValidationError string
| InvalidHttpActionError string
| MediaActionConflictError string
| CallNotFoundError string
| InvalidCallStateError string
| MediaSessionNotFoundError string
| MediaEndpointNotFoundError string
| MediaBackendNotFoundError string
| MediaUnavailableError string
| MediaBackendUnavailableError string
| MediaRecordingProxyError int string
| ControlProtocolError string string
| OtherError string
| ThrownValue

definition draining_message :: string where
  "draining_message = ''Gateway is draining; send new calls and sessions to another instance''"

definition controlErrorForCommand :: "gw_error \<Rightarrow> (string \<times> string) option" where
  "controlErrorForCommand err =
     (case err of
        GatewayDrainingError \<Rightarrow> Some (''SHUTTING_DOWN'', draining_message)
      | CommandNotImplementedError m \<Rightarrow> Some (''NOT_IMPLEMENTED'', m)
      | CommandValidationError m \<Rightarrow> Some (''BAD_REQUEST'', m)
      | InvalidHttpActionError m \<Rightarrow> Some (''BAD_REQUEST'', m)
      | MediaActionConflictError m \<Rightarrow> Some (''CONFLICT'', m)
      | CallNotFoundError m \<Rightarrow> Some (''NOT_FOUND'', m)
      | MediaSessionNotFoundError m \<Rightarrow> Some (''NOT_FOUND'', m)
      | MediaEndpointNotFoundError m \<Rightarrow> Some (''NOT_FOUND'', m)
      | MediaBackendNotFoundError m \<Rightarrow> Some (''NOT_FOUND'', m)
      | MediaUnavailableError m \<Rightarrow> Some (''MEDIA_UNAVAILABLE'', m)
      | MediaBackendUnavailableError m \<Rightarrow> Some (''MEDIA_UNAVAILABLE'', m)
      | MediaRecordingProxyError status m \<Rightarrow>
          Some (if status = 400 then ''BAD_REQUEST'' else if status = 404 then ''NOT_FOUND'' else ''RECORDING_PROXY_ERROR'', m)
      | _ \<Rightarrow> None)"

section \<open>Validators\<close>

definition requireObject :: "jv \<Rightarrow> (gw_error, jv) result" where
  "requireObject v = (if is_record v then Inr v else Inl (CommandValidationError ''params must be an object''))"

definition optionalObject :: "jv \<Rightarrow> (gw_error, jv) result" where
  "optionalObject v = (if nullish v then Inr (JObj []) else requireObject v)"

definition requiredString :: "jv \<Rightarrow> string \<Rightarrow> (gw_error, string) result" where
  "requiredString v name = require (CommandValidationError (name @ '' is required'')) (nonblank_str v)"

definition optionalString :: "jv \<Rightarrow> string \<Rightarrow> (gw_error, string option) result" where
  "optionalString v name =
     (if nullish v then Inr None
      else rbind (require (CommandValidationError (name @ '' must be a non-empty string'')) (nonblank_str v)) (\<lambda>s. Inr (Some s)))"

definition optionalBoolean :: "jv \<Rightarrow> string \<Rightarrow> (gw_error, bool option) result" where
  "optionalBoolean v name =
     (if nullish v then Inr None
      else rbind (require (CommandValidationError (name @ '' must be a boolean'')) (bool_of v)) (\<lambda>b. Inr (Some b)))"

definition optionalInteger :: "jv \<Rightarrow> string \<Rightarrow> (gw_error, int option) result" where
  "optionalInteger v name =
     (if nullish v then Inr None
      else rbind (require (CommandValidationError (name @ '' must be an integer'')) (int_of v)) (\<lambda>i. Inr (Some i)))"

definition optionalNumber :: "jv \<Rightarrow> string \<Rightarrow> (gw_error, rat option) result" where
  "optionalNumber v name =
     (if nullish v then Inr None
      else case v of JNum (Fin r) \<Rightarrow> Inr (Some r)
           | _ \<Rightarrow> Inl (CommandValidationError (name @ '' must be a number'')))"

definition optionalNonNegativeInteger :: "jv \<Rightarrow> string \<Rightarrow> (gw_error, int option) result" where
  "optionalNonNegativeInteger v name =
     rbind (optionalInteger v name) (\<lambda>i.
     rbind (guard (case i of None \<Rightarrow> True | Some n \<Rightarrow> 0 \<le> n) (CommandValidationError (name @ '' must be a non-negative integer'')))
       (\<lambda>_. Inr i))"

definition optionalPositiveInteger :: "jv \<Rightarrow> string \<Rightarrow> (gw_error, int option) result" where
  "optionalPositiveInteger v name =
     rbind (optionalInteger v name) (\<lambda>i.
     rbind (guard (case i of None \<Rightarrow> True | Some n \<Rightarrow> 0 < n) (CommandValidationError (name @ '' must be a positive integer'')))
       (\<lambda>_. Inr i))"

text \<open>\<open>undefined\<close>, \<open>null\<close> or an integer: \<open>None\<close>, \<open>Some None\<close>, \<open>Some (Some i)\<close>.\<close>

definition optionalNullableInteger :: "jv \<Rightarrow> string \<Rightarrow> (gw_error, int option option) result" where
  "optionalNullableInteger v name =
     (if v = JUndef then Inr None
      else if v = JNull then Inr (Some None)
      else rbind (require (CommandValidationError (name @ '' must be an integer or null'')) (int_of v)) (\<lambda>i. Inr (Some (Some i))))"

definition directions :: "string list" where
  "directions = [''sendrecv'', ''recvonly'', ''sendonly'', ''inactive'']"

definition requiredDirection :: "jv \<Rightarrow> (gw_error, string) result" where
  "requiredDirection v =
     rbind (requiredString v ''direction'') (\<lambda>d.
     rbind (guard (d \<in> set directions)
       (CommandValidationError ''direction must be one of sendrecv, recvonly, sendonly, inactive'')) (\<lambda>_. Inr d))"

definition optionalDirection :: "jv \<Rightarrow> (gw_error, string option) result" where
  "optionalDirection v = (if nullish v then Inr None else rbind (requiredDirection v) (\<lambda>d. Inr (Some d)))"

definition parseOptionalSipAuth :: "jv \<Rightarrow> (gw_error, (string \<times> string) option) result" where
  "parseOptionalSipAuth v =
     (if nullish v then Inr None
      else rbind (requireObject v) (\<lambda>auth.
           rbind (requiredString (fld auth ''username'') ''auth.username'') (\<lambda>u.
           rbind (requiredString (fld auth ''password'') ''auth.password'') (\<lambda>p.
           Inr (Some (u, p))))))"

definition optionalHeaders :: "jv \<Rightarrow> (gw_error, sip_headers option) result" where
  "optionalHeaders v =
     (case parseOptionalHeaders v of
        Inr h \<Rightarrow> Inr h
      | Inl (InvalidHttpAction m) \<Rightarrow> Inl (InvalidHttpActionError m)
      | Inl UrlTypeError \<Rightarrow> Inl (OtherError ''Invalid URL''))"

text \<open>\<open>codecs !== undefined && (!Array.isArray(codecs) || codecs.some(...))\<close>\<close>

definition optionalCodecs :: "jv \<Rightarrow> (gw_error, string list option) result" where
  "optionalCodecs v =
     (if v = JUndef then Inr None
      else case arr_of v of
             None \<Rightarrow> Inl (CommandValidationError ''codecs must be an array of strings'')
           | Some xs \<Rightarrow>
               rbind (rmap (\<lambda>x. require (CommandValidationError ''codecs must be an array of strings'') (nonblank_str x)) xs)
                 (\<lambda>cs. Inr (Some cs)))"

definition optionalGeneration :: "jv \<Rightarrow> (gw_error, int option) result" where
  "optionalGeneration v =
     (if v = JUndef then Inr None
      else case int_of v of
             None \<Rightarrow> Inl (CommandValidationError ''offerGeneration must be a non-negative integer'')
           | Some i \<Rightarrow> if i < 0 then Inl (CommandValidationError ''offerGeneration must be a non-negative integer'')
                       else Inr (Some i))"

section \<open>Commands\<close>

record gather_params =
  gp_endpointId :: string
  gp_numDigits :: "int option"
  gp_timeoutMs :: "int option"
  gp_interDigitTimeoutMs :: "int option"
  gp_terminator :: "string option"
  gp_sensitive :: "bool option"

record play_gather_params = gather_params +
  pg_source :: string
  pg_loopCount :: "int option option"
  pg_cacheTtlSecs :: "int option"
  pg_headers :: "sip_headers option"
  pg_stopPlaybackOnDigit :: "bool option"
  pg_postPlaybackTimeoutMs :: "int option"

record leave_message_params =
  lm_endpointId :: string
  lm_messageSource :: "string option"
  lm_maxWaitMs :: "int option"
  lm_playbackTimeoutMs :: "int option"
  lm_silenceIntervalMs :: "int option"
  lm_speechThreshold :: "rat option"
  lm_terminator :: "string option"

datatype command =
  ListSessions
| GetCall string
| GetMediaSession string
| DestroySession string
| Bye string "string option" "sip_headers option"
| CreateSession "string option" "string option"
| CreateOutbound outbound_params
| CancelOutbound string "string option"
| Reinvite string string "sip_headers option"
| CreateWebrtcOffer string "string option"
| CreateWebrtcFromOffer string string "string option"
| AcceptWebrtcAnswer string string "int option"
| AcceptWebrtcOffer string string
| RestartIce string
| CreateRtpOffer string "string option" "bool option" "bool option" "string list option"
| CreateRtpFromOffer string string "string option"
| AcceptRtpAnswer string string
| RtpReinvite string string
| Play string string "int option option" "int option" "sip_headers option"
| PlayAndWait string string "int option"
| StopMedia string
| UpdateDirection string string
| Bridge string string "string option"
| Unbridge string
| Gather string gather_params
| PlayAndGather string play_gather_params
| LeaveMessage string leave_message_params
| InjectDtmf string string
| StartRecording string "string option" "string option"
| StopRecording string
| ListRecordings "string option" "string option" "int option" "int option"
| DeleteRecording string string
| Acknowledge

text \<open>
  What the handler consults while decoding: the registry, the sessions of the media controller when
  there is one, whether the gateway can cancel, whether it is draining, and who is asking.
\<close>

record command_context =
  cx_registry :: registry
  cx_media :: "string list option"
  cx_canCancel :: bool
  cx_draining :: bool
  cx_connection :: "string option"

definition requireMedia :: "command_context \<Rightarrow> (gw_error, unit) result" where
  "requireMedia cx = guard (cx_media cx \<noteq> None) (MediaUnavailableError ''Media commands require RTPBRIDGE_HOST'')"

definition media_has :: "command_context \<Rightarrow> string \<Rightarrow> bool" where
  "media_has cx i = (case cx_media cx of None \<Rightarrow> False | Some known \<Rightarrow> i \<in> set known)"

definition accepting :: "command_context \<Rightarrow> (gw_error, unit) result" where
  "accepting cx = guard (\<not> cx_draining cx) GatewayDrainingError"

definition truthy_opt :: "string option \<Rightarrow> bool" where
  "truthy_opt s = (case s of None \<Rightarrow> False | Some t \<Rightarrow> t \<noteq> [])"

section \<open>Decoding\<close>

definition getSession :: "command_context \<Rightarrow> jv \<Rightarrow> (gw_error, command) result" where
  "getSession cx params =
     rbind (requireObject params) (\<lambda>b.
     rbind (requiredString (fld b ''sessionId'') ''sessionId'') (\<lambda>i.
     if get_call (cx_registry cx) i \<noteq> None then Inr (GetCall i)
     else if media_has cx i then Inr (GetMediaSession i)
     else Inl (CallNotFoundError (''Session '' @ i @ '' not found''))))"

definition deleteSession :: "command_context \<Rightarrow> jv \<Rightarrow> (gw_error, command) result" where
  "deleteSession cx params =
     rbind (requireObject params) (\<lambda>b.
     rbind (requiredString (fld b ''sessionId'') ''sessionId'') (\<lambda>i.
     if media_has cx i then Inr (DestroySession i)
     else rbind (optionalHeaders (fld b ''headers'')) (\<lambda>h. Inr (Bye i (str_of (fld b ''reason'')) h))))"

definition createMediaSession :: "command_context \<Rightarrow> jv \<Rightarrow> (gw_error, command) result" where
  "createMediaSession cx params =
     rbind (optionalObject params) (\<lambda>b.
     rbind (optionalString (fld b ''callId'') ''callId'') (\<lambda>callId.
     rbind (if (case callId of None \<Rightarrow> True | Some c \<Rightarrow> \<not> hasCallOrReservation (cx_registry cx) c)
            then accepting cx else Inr ()) (\<lambda>_.
     rbind (requireMedia cx) (\<lambda>_. Inr (CreateSession callId (cx_connection cx))))))"

definition createOutbound :: "command_context \<Rightarrow> jv \<Rightarrow> (gw_error, command) result" where
  "createOutbound cx params =
     rbind (accepting cx) (\<lambda>_.
     rbind (requireObject params) (\<lambda>b.
     rbind (optionalString (fld b ''receiverUrl'') ''receiverUrl'') (\<lambda>receiverUrl.
     rbind (guard (truthy_opt (cx_connection cx) \<or> receiverUrl \<noteq> None)
       (CommandValidationError ''receiverUrl is required when sip.createOutbound is not sent over the control WebSocket'')) (\<lambda>_.
     rbind (parseOptionalSipAuth (fld b ''auth'')) (\<lambda>auth.
     rbind (optionalString (fld b ''outboundAttemptId'') ''outboundAttemptId'') (\<lambda>attempt.
     rbind (requiredString (fld b ''requestUri'') ''requestUri'') (\<lambda>uri.
     rbind (requiredString (fld b ''sdp'') ''sdp'') (\<lambda>sdp.
     rbind (optionalHeaders (fld b ''headers'')) (\<lambda>headers.
     rbind (optionalString (fld b ''callingNumber'') ''callingNumber'') (\<lambda>num.
     rbind (optionalString (fld b ''callingName'') ''callingName'') (\<lambda>nam.
     rbind (optionalString (fld b ''proxy'') ''proxy'') (\<lambda>proxy.
     Inr (CreateOutbound \<lparr>op_requestUri = uri, op_sdp = sdp, op_headers = headers, op_receiverUrl = receiverUrl,
        op_controlConnectionId = cx_connection cx, op_callingNumber = num, op_callingName = nam, op_proxy = proxy,
        op_outboundAttemptId = attempt, op_auth = auth\<rparr>)))))))))))))"

definition cancelOutbound :: "command_context \<Rightarrow> jv \<Rightarrow> (gw_error, command) result" where
  "cancelOutbound cx params =
     rbind (guard (cx_canCancel cx) (CommandNotImplementedError ''sip.cancelOutbound is not implemented'')) (\<lambda>_.
     rbind (requireObject params) (\<lambda>b.
     rbind (requiredString (fld b ''outboundAttemptId'') ''outboundAttemptId'') (\<lambda>a.
     Inr (CancelOutbound a (cx_connection cx)))))"

text \<open>\<open>typeof sessionId === 'string' ? sessionId : callId\<close>, which must be a nonblank string.\<close>

definition target_id :: "jv \<Rightarrow> (gw_error, string) result" where
  "target_id b =
     requiredString (if str_of (fld b ''sessionId'') \<noteq> None then fld b ''sessionId'' else fld b ''callId'') ''sessionId''"

definition reinvite :: "jv \<Rightarrow> (gw_error, command) result" where
  "reinvite params =
     rbind (requireObject params) (\<lambda>b.
     rbind (target_id b) (\<lambda>i.
     rbind (requiredString (fld b ''sdp'') ''sdp'') (\<lambda>sdp.
     rbind (optionalHeaders (fld b ''headers'')) (\<lambda>h. Inr (Reinvite i sdp h)))))"

definition bye :: "jv \<Rightarrow> (gw_error, command) result" where
  "bye params =
     rbind (requireObject params) (\<lambda>b.
     rbind (target_id b) (\<lambda>i.
     rbind (optionalHeaders (fld b ''headers'')) (\<lambda>h. Inr (Bye i (str_of (fld b ''reason'')) h))))"

text \<open>
  The shape shared by the media commands: an object, then the media controller, then the id that
  names the session or endpoint, then the rest of the arguments.
\<close>

definition media_command ::
  "command_context \<Rightarrow> jv \<Rightarrow> string \<Rightarrow> (jv \<Rightarrow> string \<Rightarrow> (gw_error, command) result) \<Rightarrow> (gw_error, command) result" where
  "media_command cx params key rest =
     rbind (requireObject params) (\<lambda>b.
     rbind (requireMedia cx) (\<lambda>_.
     rbind (requiredString (fld b key) key) (\<lambda>i. rest b i)))"

definition createWebrtcOffer :: "command_context \<Rightarrow> jv \<Rightarrow> (gw_error, command) result" where
  "createWebrtcOffer cx params = media_command cx params ''sessionId'' (\<lambda>b i.
     rbind (optionalString (fld b ''direction'') ''direction'') (\<lambda>d. Inr (CreateWebrtcOffer i d)))"

definition createWebrtcFromOffer :: "command_context \<Rightarrow> jv \<Rightarrow> (gw_error, command) result" where
  "createWebrtcFromOffer cx params = media_command cx params ''sessionId'' (\<lambda>b i.
     rbind (requiredString (fld b ''sdp'') ''sdp'') (\<lambda>sdp.
     rbind (optionalString (fld b ''direction'') ''direction'') (\<lambda>d. Inr (CreateWebrtcFromOffer i sdp d))))"

definition acceptWebrtcAnswer :: "command_context \<Rightarrow> jv \<Rightarrow> (gw_error, command) result" where
  "acceptWebrtcAnswer cx params =
     rbind (requireObject params) (\<lambda>b.
     rbind (optionalGeneration (fld b ''offerGeneration'')) (\<lambda>g.
     rbind (requireMedia cx) (\<lambda>_.
     rbind (requiredString (fld b ''endpointId'') ''endpointId'') (\<lambda>i.
     rbind (requiredString (fld b ''sdp'') ''sdp'') (\<lambda>sdp. Inr (AcceptWebrtcAnswer i sdp g))))))"

definition acceptWebrtcOffer :: "command_context \<Rightarrow> jv \<Rightarrow> (gw_error, command) result" where
  "acceptWebrtcOffer cx params = media_command cx params ''endpointId'' (\<lambda>b i.
     rbind (requiredString (fld b ''sdp'') ''sdp'') (\<lambda>sdp. Inr (AcceptWebrtcOffer i sdp)))"

definition restartIce :: "command_context \<Rightarrow> jv \<Rightarrow> (gw_error, command) result" where
  "restartIce cx params = media_command cx params ''endpointId'' (\<lambda>b i. Inr (RestartIce i))"

definition createRtpOffer :: "command_context \<Rightarrow> jv \<Rightarrow> (gw_error, command) result" where
  "createRtpOffer cx params =
     rbind (requireObject params) (\<lambda>b.
     rbind (optionalCodecs (fld b ''codecs'')) (\<lambda>codecs.
     rbind (optionalBoolean (fld b ''srtp'') ''srtp'') (\<lambda>srtp.
     rbind (optionalBoolean (fld b ''srtpOptional'') ''srtpOptional'') (\<lambda>srtpOptional.
     rbind (guard (\<not> (srtp = Some True \<and> srtpOptional = Some True))
       (CommandValidationError ''srtp and srtpOptional cannot both be enabled'')) (\<lambda>_.
     rbind (requireMedia cx) (\<lambda>_.
     rbind (requiredString (fld b ''sessionId'') ''sessionId'') (\<lambda>i.
     rbind (optionalString (fld b ''direction'') ''direction'') (\<lambda>d.
     Inr (CreateRtpOffer i d srtp srtpOptional codecs)))))))))"

definition createRtpFromOffer :: "command_context \<Rightarrow> jv \<Rightarrow> (gw_error, command) result" where
  "createRtpFromOffer cx params = media_command cx params ''sessionId'' (\<lambda>b i.
     rbind (requiredString (fld b ''sdp'') ''sdp'') (\<lambda>sdp.
     rbind (optionalString (fld b ''direction'') ''direction'') (\<lambda>d. Inr (CreateRtpFromOffer i sdp d))))"

definition acceptRtpAnswer :: "command_context \<Rightarrow> jv \<Rightarrow> (gw_error, command) result" where
  "acceptRtpAnswer cx params = media_command cx params ''endpointId'' (\<lambda>b i.
     rbind (requiredString (fld b ''sdp'') ''sdp'') (\<lambda>sdp. Inr (AcceptRtpAnswer i sdp)))"

definition rtpReinvite :: "command_context \<Rightarrow> jv \<Rightarrow> (gw_error, command) result" where
  "rtpReinvite cx params = media_command cx params ''endpointId'' (\<lambda>b i.
     rbind (requiredString (fld b ''sdp'') ''sdp'') (\<lambda>sdp. Inr (RtpReinvite i sdp)))"

definition play :: "command_context \<Rightarrow> jv \<Rightarrow> (gw_error, command) result" where
  "play cx params = media_command cx params ''sessionId'' (\<lambda>b i.
     rbind (requiredString (fld b ''source'') ''source'') (\<lambda>src.
     rbind (optionalNullableInteger (fld b ''loopCount'') ''loopCount'') (\<lambda>loops.
     rbind (optionalInteger (fld b ''cacheTtlSecs'') ''cacheTtlSecs'') (\<lambda>ttl.
     rbind (optionalHeaders (fld b ''headers'')) (\<lambda>h. Inr (Play i src loops ttl h))))))"

definition playAndWait :: "command_context \<Rightarrow> jv \<Rightarrow> (gw_error, command) result" where
  "playAndWait cx params = media_command cx params ''sessionId'' (\<lambda>b i.
     rbind (requiredString (fld b ''source'') ''source'') (\<lambda>src.
     rbind (optionalPositiveInteger (fld b ''playbackTimeoutMs'') ''playbackTimeoutMs'') (\<lambda>t. Inr (PlayAndWait i src t))))"

definition stopMedia :: "command_context \<Rightarrow> jv \<Rightarrow> (gw_error, command) result" where
  "stopMedia cx params = media_command cx params ''endpointId'' (\<lambda>b i. Inr (StopMedia i))"

definition updateDirection :: "command_context \<Rightarrow> jv \<Rightarrow> (gw_error, command) result" where
  "updateDirection cx params =
     rbind (requireObject params) (\<lambda>b.
     rbind (requiredDirection (fld b ''direction'')) (\<lambda>d.
     rbind (requireMedia cx) (\<lambda>_.
     rbind (requiredString (fld b ''endpointId'') ''endpointId'') (\<lambda>i. Inr (UpdateDirection i d)))))"

definition bridge :: "command_context \<Rightarrow> jv \<Rightarrow> (gw_error, command) result" where
  "bridge cx params = media_command cx params ''sessionId'' (\<lambda>b i.
     rbind (requiredString (coalesce (fld b ''targetSessionId'') (fld b ''target_session_id'')) ''targetSessionId'') (\<lambda>t.
     rbind (optionalDirection (fld b ''direction'')) (\<lambda>d. Inr (Bridge i t d))))"

definition unbridge :: "command_context \<Rightarrow> jv \<Rightarrow> (gw_error, command) result" where
  "unbridge cx params = media_command cx params ''endpointId'' (\<lambda>b i. Inr (Unbridge i))"

definition gather :: "command_context \<Rightarrow> jv \<Rightarrow> (gw_error, command) result" where
  "gather cx params = media_command cx params ''sessionId'' (\<lambda>b i.
     rbind (requiredString (fld b ''endpointId'') ''endpointId'') (\<lambda>e.
     rbind (optionalPositiveInteger (fld b ''numDigits'') ''numDigits'') (\<lambda>n.
     rbind (optionalPositiveInteger (fld b ''timeoutMs'') ''timeoutMs'') (\<lambda>t.
     rbind (optionalPositiveInteger (fld b ''interDigitTimeoutMs'') ''interDigitTimeoutMs'') (\<lambda>d.
     rbind (optionalString (fld b ''terminator'') ''terminator'') (\<lambda>x.
     rbind (optionalBoolean (fld b ''sensitive'') ''sensitive'') (\<lambda>s.
     Inr (Gather i \<lparr>gp_endpointId = e, gp_numDigits = n, gp_timeoutMs = t, gp_interDigitTimeoutMs = d,
        gp_terminator = x, gp_sensitive = s\<rparr>))))))))"

definition playAndGather :: "command_context \<Rightarrow> jv \<Rightarrow> (gw_error, command) result" where
  "playAndGather cx params = media_command cx params ''sessionId'' (\<lambda>b i.
     rbind (requiredString (fld b ''endpointId'') ''endpointId'') (\<lambda>e.
     rbind (requiredString (fld b ''source'') ''source'') (\<lambda>src.
     rbind (optionalNullableInteger (fld b ''loopCount'') ''loopCount'') (\<lambda>loops.
     rbind (optionalInteger (fld b ''cacheTtlSecs'') ''cacheTtlSecs'') (\<lambda>ttl.
     rbind (optionalHeaders (fld b ''headers'')) (\<lambda>h.
     rbind (optionalPositiveInteger (fld b ''numDigits'') ''numDigits'') (\<lambda>n.
     rbind (optionalPositiveInteger (fld b ''timeoutMs'') ''timeoutMs'') (\<lambda>t.
     rbind (optionalPositiveInteger (fld b ''interDigitTimeoutMs'') ''interDigitTimeoutMs'') (\<lambda>d.
     rbind (optionalString (fld b ''terminator'') ''terminator'') (\<lambda>x.
     rbind (optionalBoolean (fld b ''stopPlaybackOnDigit'') ''stopPlaybackOnDigit'') (\<lambda>stop.
     rbind (optionalPositiveInteger (fld b ''postPlaybackTimeoutMs'') ''postPlaybackTimeoutMs'') (\<lambda>post.
     rbind (optionalBoolean (fld b ''sensitive'') ''sensitive'') (\<lambda>s.
     Inr (PlayAndGather i \<lparr>gp_endpointId = e, gp_numDigits = n, gp_timeoutMs = t, gp_interDigitTimeoutMs = d,
        gp_terminator = x, gp_sensitive = s, pg_source = src, pg_loopCount = loops, pg_cacheTtlSecs = ttl,
        pg_headers = h, pg_stopPlaybackOnDigit = stop, pg_postPlaybackTimeoutMs = post\<rparr>))))))))))))))"

text \<open>
  \<open>optionalString(messageSource) ?? optionalString(promptSource)\<close>: the second is looked at only when
  the first is absent.
\<close>

definition message_source :: "jv \<Rightarrow> (gw_error, string option) result" where
  "message_source b =
     rbind (optionalString (fld b ''messageSource'') ''messageSource'') (\<lambda>m.
       if m \<noteq> None then Inr m else optionalString (fld b ''promptSource'') ''promptSource'')"

definition leaveMessage :: "command_context \<Rightarrow> jv \<Rightarrow> (gw_error, command) result" where
  "leaveMessage cx params = media_command cx params ''sessionId'' (\<lambda>b i.
     rbind (requiredString (fld b ''endpointId'') ''endpointId'') (\<lambda>e.
     rbind (message_source b) (\<lambda>src.
     rbind (optionalPositiveInteger (coalesce (fld b ''maxWaitMs'') (fld b ''maxDurationMs'')) ''maxWaitMs'') (\<lambda>w.
     rbind (optionalPositiveInteger (fld b ''playbackTimeoutMs'') ''playbackTimeoutMs'') (\<lambda>t.
     rbind (optionalPositiveInteger (fld b ''silenceIntervalMs'') ''silenceIntervalMs'') (\<lambda>q.
     rbind (optionalNumber (fld b ''speechThreshold'') ''speechThreshold'') (\<lambda>th.
     rbind (optionalString (fld b ''terminator'') ''terminator'') (\<lambda>x.
     Inr (LeaveMessage i \<lparr>lm_endpointId = e, lm_messageSource = src, lm_maxWaitMs = w, lm_playbackTimeoutMs = t,
        lm_silenceIntervalMs = q, lm_speechThreshold = th, lm_terminator = x\<rparr>)))))))))"

definition injectDtmf :: "command_context \<Rightarrow> jv \<Rightarrow> (gw_error, command) result" where
  "injectDtmf cx params = media_command cx params ''endpointId'' (\<lambda>b i.
     rbind (requiredString (fld b ''digit'') ''digit'') (\<lambda>d. Inr (InjectDtmf i d)))"

definition startRecording :: "command_context \<Rightarrow> jv \<Rightarrow> (gw_error, command) result" where
  "startRecording cx params =
     rbind (requireObject params) (\<lambda>b.
     rbind (guard (\<not> ohas (entries b) ''recordOutbound'' \<and> \<not> ohas (entries b) ''record_outbound'')
       (CommandValidationError ''recordOutbound is no longer supported; rtpbridge records inbound sources'')) (\<lambda>_.
     rbind (requireMedia cx) (\<lambda>_.
     rbind (requiredString (fld b ''sessionId'') ''sessionId'') (\<lambda>i.
     rbind (optionalString (fld b ''endpointId'') ''endpointId'') (\<lambda>e.
     rbind (optionalString (fld b ''filePath'') ''filePath'') (\<lambda>f. Inr (StartRecording i e f)))))))"

definition stopRecording :: "command_context \<Rightarrow> jv \<Rightarrow> (gw_error, command) result" where
  "stopRecording cx params = media_command cx params ''recordingId'' (\<lambda>b i. Inr (StopRecording i))"

definition listRecordings :: "command_context \<Rightarrow> jv \<Rightarrow> (gw_error, command) result" where
  "listRecordings cx params =
     rbind (optionalObject params) (\<lambda>b.
     rbind (requireMedia cx) (\<lambda>_.
     rbind (optionalString (fld b ''backendId'') ''backendId'') (\<lambda>i.
     rbind (optionalString (fld b ''startsWith'') ''startsWith'') (\<lambda>p.
     rbind (optionalNonNegativeInteger (fld b ''skip'') ''skip'') (\<lambda>s.
     rbind (optionalPositiveInteger (fld b ''limit'') ''limit'') (\<lambda>l. Inr (ListRecordings i p s l)))))))"

definition deleteRecording :: "command_context \<Rightarrow> jv \<Rightarrow> (gw_error, command) result" where
  "deleteRecording cx params = media_command cx params ''backendId'' (\<lambda>b i.
     rbind (requiredString (fld b ''path'') ''path'') (\<lambda>p. Inr (DeleteRecording i p)))"

text \<open>The \<open>switch\<close> of \<open>execute\<close>, in its order.\<close>

definition dispatch_table :: "(string \<times> (command_context \<Rightarrow> jv \<Rightarrow> (gw_error, command) result)) list" where
  "dispatch_table =
     [(''session.list'', \<lambda>cx p. Inr ListSessions),
      (''session.get'', getSession),
      (''session.delete'', deleteSession),
      (''session.create'', createMediaSession),
      (''sip.createOutbound'', createOutbound),
      (''sip.cancelOutbound'', cancelOutbound),
      (''sip.reinvite'', \<lambda>cx p. reinvite p),
      (''sip.bye'', \<lambda>cx p. bye p),
      (''webrtc.createOffer'', createWebrtcOffer),
      (''webrtc.createFromOffer'', createWebrtcFromOffer),
      (''webrtc.acceptAnswer'', acceptWebrtcAnswer),
      (''webrtc.acceptOffer'', acceptWebrtcOffer),
      (''webrtc.restartIce'', restartIce),
      (''rtp.createOffer'', createRtpOffer),
      (''rtp.createFromOffer'', createRtpFromOffer),
      (''rtp.acceptAnswer'', acceptRtpAnswer),
      (''rtp.reinvite'', rtpReinvite),
      (''media.play'', play),
      (''media.playAndWait'', playAndWait),
      (''media.stop'', stopMedia),
      (''endpoint.updateDirection'', updateDirection),
      (''media.bridge'', bridge),
      (''media.unbridge'', unbridge),
      (''media.gather'', gather),
      (''media.playAndGather'', playAndGather),
      (''media.leaveMessage'', leaveMessage),
      (''dtmf.inject'', injectDtmf),
      (''recording.start'', startRecording),
      (''recording.stop'', stopRecording),
      (''recording.list'', listRecordings),
      (''recording.delete'', deleteRecording),
      (''event.ack'', \<lambda>cx p. Inr Acknowledge)]"

definition decode :: "command_context \<Rightarrow> string \<Rightarrow> jv \<Rightarrow> (gw_error, command) result" where
  "decode cx method params =
     (case map_of dispatch_table method of
        Some f \<Rightarrow> f cx params
      | None \<Rightarrow>
          if method \<in> set [''sip.answer'', ''sip.reject'']
          then Inl (CommandNotImplementedError (method @ '' is not implemented in this gateway slice yet''))
          else if method \<in> set [''vad.start'', ''vad.stop'', ''amd.start'', ''amd.stop'']
          then Inl (CommandNotImplementedError (method @ '' is intentionally deferred''))
          else Inl (CommandValidationError (''Unknown method '' @ method)))"

text \<open>\<open>execute\<close>: the decoded call is made on the gateway or the media controller, \<open>perform\<close>.\<close>

definition execute ::
  "(command \<Rightarrow> (gw_error, jv) result) \<Rightarrow> command_context \<Rightarrow> string \<Rightarrow> jv \<Rightarrow> (gw_error, jv) result" where
  "execute perform cx method params = rbind (decode cx method params) perform"


section \<open>What a decoded command looks like\<close>

definition some_nonblank :: "string option \<Rightarrow> bool" where
  "some_nonblank s = (case s of None \<Rightarrow> True | Some t \<Rightarrow> \<not> blank t)"

definition some_positive :: "int option \<Rightarrow> bool" where
  "some_positive i = (case i of None \<Rightarrow> True | Some n \<Rightarrow> 0 < n)"

definition some_nonnegative :: "int option \<Rightarrow> bool" where
  "some_nonnegative i = (case i of None \<Rightarrow> True | Some n \<Rightarrow> 0 \<le> n)"

definition some_auth :: "(string \<times> string) option \<Rightarrow> bool" where
  "some_auth a = (case a of None \<Rightarrow> True | Some (u, p) \<Rightarrow> \<not> blank u \<and> \<not> blank p)"

definition valid_gather :: "('a) gather_params_scheme \<Rightarrow> bool" where
  "valid_gather g \<longleftrightarrow> \<not> blank (gp_endpointId g) \<and> some_positive (gp_numDigits g) \<and> some_positive (gp_timeoutMs g)
     \<and> some_positive (gp_interDigitTimeoutMs g) \<and> some_nonblank (gp_terminator g)"

fun valid_command :: "command \<Rightarrow> bool" where
  "valid_command ListSessions = True"
| "valid_command (GetCall i) \<longleftrightarrow> \<not> blank i"
| "valid_command (GetMediaSession i) \<longleftrightarrow> \<not> blank i"
| "valid_command (DestroySession i) \<longleftrightarrow> \<not> blank i"
| "valid_command (Bye i r h) \<longleftrightarrow> \<not> blank i \<and> valid_headers h"
| "valid_command (CreateSession c cn) \<longleftrightarrow> some_nonblank c"
| "valid_command (CreateOutbound o1) \<longleftrightarrow> \<not> blank (op_requestUri o1) \<and> \<not> blank (op_sdp o1) \<and> valid_headers (op_headers o1)
     \<and> some_nonblank (op_receiverUrl o1) \<and> some_nonblank (op_callingNumber o1) \<and> some_nonblank (op_callingName o1)
     \<and> some_nonblank (op_proxy o1) \<and> some_nonblank (op_outboundAttemptId o1) \<and> some_auth (op_auth o1)
     \<and> (truthy_opt (op_controlConnectionId o1) \<or> op_receiverUrl o1 \<noteq> None)"
| "valid_command (CancelOutbound a cn) \<longleftrightarrow> \<not> blank a"
| "valid_command (Reinvite i sdp h) \<longleftrightarrow> \<not> blank i \<and> \<not> blank sdp \<and> valid_headers h"
| "valid_command (CreateWebrtcOffer i d) \<longleftrightarrow> \<not> blank i \<and> some_nonblank d"
| "valid_command (CreateWebrtcFromOffer i sdp d) \<longleftrightarrow> \<not> blank i \<and> \<not> blank sdp \<and> some_nonblank d"
| "valid_command (AcceptWebrtcAnswer i sdp g) \<longleftrightarrow> \<not> blank i \<and> \<not> blank sdp \<and> some_nonnegative g"
| "valid_command (AcceptWebrtcOffer i sdp) \<longleftrightarrow> \<not> blank i \<and> \<not> blank sdp"
| "valid_command (RestartIce i) \<longleftrightarrow> \<not> blank i"
| "valid_command (CreateRtpOffer i d srtp opt codecs) \<longleftrightarrow> \<not> blank i \<and> some_nonblank d \<and> \<not> (srtp = Some True \<and> opt = Some True)
     \<and> (case codecs of None \<Rightarrow> True | Some cs \<Rightarrow> list_all (\<lambda>c. \<not> blank c) cs)"
| "valid_command (CreateRtpFromOffer i sdp d) \<longleftrightarrow> \<not> blank i \<and> \<not> blank sdp \<and> some_nonblank d"
| "valid_command (AcceptRtpAnswer i sdp) \<longleftrightarrow> \<not> blank i \<and> \<not> blank sdp"
| "valid_command (RtpReinvite i sdp) \<longleftrightarrow> \<not> blank i \<and> \<not> blank sdp"
| "valid_command (Play i src loops ttl h) \<longleftrightarrow> \<not> blank i \<and> \<not> blank src \<and> valid_headers h"
| "valid_command (PlayAndWait i src t) \<longleftrightarrow> \<not> blank i \<and> \<not> blank src \<and> some_positive t"
| "valid_command (StopMedia i) \<longleftrightarrow> \<not> blank i"
| "valid_command (UpdateDirection i d) \<longleftrightarrow> \<not> blank i \<and> d \<in> set directions"
| "valid_command (Bridge i t d) \<longleftrightarrow> \<not> blank i \<and> \<not> blank t \<and> (case d of None \<Rightarrow> True | Some x \<Rightarrow> x \<in> set directions)"
| "valid_command (Unbridge i) \<longleftrightarrow> \<not> blank i"
| "valid_command (Gather i g) \<longleftrightarrow> \<not> blank i \<and> valid_gather g"
| "valid_command (PlayAndGather i g) \<longleftrightarrow> \<not> blank i \<and> valid_gather g \<and> \<not> blank (pg_source g) \<and> valid_headers (pg_headers g)
     \<and> some_positive (pg_postPlaybackTimeoutMs g)"
| "valid_command (LeaveMessage i l) \<longleftrightarrow> \<not> blank i \<and> \<not> blank (lm_endpointId l) \<and> some_nonblank (lm_messageSource l)
     \<and> some_positive (lm_maxWaitMs l) \<and> some_positive (lm_playbackTimeoutMs l) \<and> some_positive (lm_silenceIntervalMs l)
     \<and> some_nonblank (lm_terminator l)"
| "valid_command (InjectDtmf i d) \<longleftrightarrow> \<not> blank i \<and> \<not> blank d"
| "valid_command (StartRecording i e f) \<longleftrightarrow> \<not> blank i \<and> some_nonblank e \<and> some_nonblank f"
| "valid_command (StopRecording i) \<longleftrightarrow> \<not> blank i"
| "valid_command (ListRecordings b p s l) \<longleftrightarrow> some_nonblank b \<and> some_nonblank p \<and> some_nonnegative s \<and> some_positive l"
| "valid_command (DeleteRecording b p) \<longleftrightarrow> \<not> blank b \<and> \<not> blank p"
| "valid_command Acknowledge = True"

text \<open>What the state of the gateway lets through.\<close>

fun admitted :: "command_context \<Rightarrow> command \<Rightarrow> bool" where
  "admitted cx ListSessions = True"
| "admitted cx (GetCall i) \<longleftrightarrow> get_call (cx_registry cx) i \<noteq> None"
| "admitted cx (GetMediaSession i) \<longleftrightarrow> get_call (cx_registry cx) i = None \<and> media_has cx i"
| "admitted cx (DestroySession i) \<longleftrightarrow> media_has cx i"
| "admitted cx (Bye i r h) = True"
| "admitted cx (Reinvite i sdp h) = True"
| "admitted cx Acknowledge = True"
| "admitted cx (CreateSession c cn) \<longleftrightarrow> cn = cx_connection cx \<and> cx_media cx \<noteq> None
     \<and> (\<not> cx_draining cx \<or> (case c of None \<Rightarrow> False | Some i \<Rightarrow> hasCallOrReservation (cx_registry cx) i))"
| "admitted cx (CreateOutbound o1) \<longleftrightarrow> op_controlConnectionId o1 = cx_connection cx \<and> \<not> cx_draining cx"
| "admitted cx (CancelOutbound a cn) \<longleftrightarrow> cn = cx_connection cx \<and> cx_canCancel cx"
| "admitted cx c \<longleftrightarrow> cx_media cx \<noteq> None"

lemma nonblank_Some: "nonblank_str v = Some s \<Longrightarrow> v = JStr s \<and> \<not> blank s"
  by (simp add: nonblank_str_Some)

text \<open>What a validator lets through.\<close>

lemma requiredString_valid: "requiredString v n = Inr s \<Longrightarrow> \<not> blank s"
  by (auto simp: requiredString_def dest: nonblank_Some)

lemma optionalString_valid: "optionalString v n = Inr s \<Longrightarrow> some_nonblank s"
  by (auto simp: optionalString_def some_nonblank_def rbind_eq_Inr split: if_splits dest: nonblank_Some)

lemma optionalPositive_valid: "optionalPositiveInteger v n = Inr i \<Longrightarrow> some_positive i"
  by (auto simp: optionalPositiveInteger_def some_positive_def rbind_eq_Inr)

lemma optionalNonNegative_valid: "optionalNonNegativeInteger v n = Inr i \<Longrightarrow> some_nonnegative i"
  by (auto simp: optionalNonNegativeInteger_def some_nonnegative_def rbind_eq_Inr)

lemma optionalGeneration_valid: "optionalGeneration v = Inr i \<Longrightarrow> some_nonnegative i"
  by (auto simp: optionalGeneration_def some_nonnegative_def split: if_splits option.splits)

lemma requiredDirection_valid: "requiredDirection v = Inr d \<Longrightarrow> d \<in> set directions"
  by (auto simp: requiredDirection_def rbind_eq_Inr)

lemma optionalDirection_valid: "optionalDirection v = Inr d \<Longrightarrow> case d of None \<Rightarrow> True | Some x \<Rightarrow> x \<in> set directions"
  by (auto simp: optionalDirection_def rbind_eq_Inr split: if_splits dest: requiredDirection_valid)

lemma optionalHeaders_valid: "optionalHeaders v = Inr h \<Longrightarrow> valid_headers h"
  by (auto simp: optionalHeaders_def split: sum.splits action_error.splits dest: parseOptionalHeaders_valid)

lemma optionalAuth_valid: "parseOptionalSipAuth v = Inr a \<Longrightarrow> some_auth a"
  by (auto simp: parseOptionalSipAuth_def some_auth_def rbind_eq_Inr split: if_splits dest: requiredString_valid)

lemma optionalCodecs_valid: "optionalCodecs v = Inr c \<Longrightarrow> case c of None \<Rightarrow> True | Some cs \<Rightarrow> list_all (\<lambda>c. \<not> blank c) cs"
  by (auto simp: optionalCodecs_def rbind_eq_Inr list_all_iff split: if_splits option.splits
      dest!: rmap_Inr_set dest: nonblank_Some)

lemma message_source_valid: "message_source b = Inr s \<Longrightarrow> some_nonblank s"
  by (auto simp: message_source_def rbind_eq_Inr split: if_splits dest: optionalString_valid)

lemma target_id_valid: "target_id b = Inr i \<Longrightarrow> \<not> blank i"
  by (auto simp: target_id_def dest: requiredString_valid)

lemma requireMedia_Inr [simp]: "requireMedia cx = Inr u \<longleftrightarrow> cx_media cx \<noteq> None"
  by (simp add: requireMedia_def)

lemma accepting_Inr [simp]: "accepting cx = Inr u \<longleftrightarrow> \<not> cx_draining cx"
  by (simp add: accepting_def)

lemmas validator_dests = requiredString_valid optionalString_valid optionalPositive_valid optionalNonNegative_valid
  optionalGeneration_valid requiredDirection_valid optionalDirection_valid optionalHeaders_valid optionalAuth_valid
  optionalCodecs_valid message_source_valid target_id_valid

lemmas sip_handlers = getSession_def deleteSession_def createMediaSession_def createOutbound_def cancelOutbound_def
  reinvite_def bye_def

lemmas media_handlers = createWebrtcOffer_def createWebrtcFromOffer_def acceptWebrtcAnswer_def acceptWebrtcOffer_def
  restartIce_def createRtpOffer_def createRtpFromOffer_def acceptRtpAnswer_def rtpReinvite_def play_def playAndWait_def
  stopMedia_def updateDirection_def bridge_def unbridge_def gather_def playAndGather_def leaveMessage_def
  injectDtmf_def startRecording_def stopRecording_def listRecordings_def deleteRecording_def media_command_def

lemma sip_handlers_ok:
  "getSession cx p = Inr c \<Longrightarrow> valid_command c \<and> admitted cx c"
  "deleteSession cx p = Inr c \<Longrightarrow> valid_command c \<and> admitted cx c"
  "createMediaSession cx p = Inr c \<Longrightarrow> valid_command c \<and> admitted cx c"
  "createOutbound cx p = Inr c \<Longrightarrow> valid_command c \<and> admitted cx c"
  "cancelOutbound cx p = Inr c \<Longrightarrow> valid_command c \<and> admitted cx c"
  "reinvite p = Inr c \<Longrightarrow> valid_command c \<and> admitted cx c"
  "bye p = Inr c \<Longrightarrow> valid_command c \<and> admitted cx c"
  by (auto simp: sip_handlers rbind_eq_Inr split: if_splits option.splits dest!: validator_dests)

lemma media_handlers_ok:
  "createWebrtcOffer cx p = Inr c \<Longrightarrow> valid_command c \<and> admitted cx c"
  "createWebrtcFromOffer cx p = Inr c \<Longrightarrow> valid_command c \<and> admitted cx c"
  "acceptWebrtcAnswer cx p = Inr c \<Longrightarrow> valid_command c \<and> admitted cx c"
  "acceptWebrtcOffer cx p = Inr c \<Longrightarrow> valid_command c \<and> admitted cx c"
  "restartIce cx p = Inr c \<Longrightarrow> valid_command c \<and> admitted cx c"
  "createRtpOffer cx p = Inr c \<Longrightarrow> valid_command c \<and> admitted cx c"
  "createRtpFromOffer cx p = Inr c \<Longrightarrow> valid_command c \<and> admitted cx c"
  "acceptRtpAnswer cx p = Inr c \<Longrightarrow> valid_command c \<and> admitted cx c"
  "rtpReinvite cx p = Inr c \<Longrightarrow> valid_command c \<and> admitted cx c"
  "play cx p = Inr c \<Longrightarrow> valid_command c \<and> admitted cx c"
  "playAndWait cx p = Inr c \<Longrightarrow> valid_command c \<and> admitted cx c"
  "stopMedia cx p = Inr c \<Longrightarrow> valid_command c \<and> admitted cx c"
  "updateDirection cx p = Inr c \<Longrightarrow> valid_command c \<and> admitted cx c"
  "bridge cx p = Inr c \<Longrightarrow> valid_command c \<and> admitted cx c"
  "unbridge cx p = Inr c \<Longrightarrow> valid_command c \<and> admitted cx c"
  "gather cx p = Inr c \<Longrightarrow> valid_command c \<and> admitted cx c"
  "playAndGather cx p = Inr c \<Longrightarrow> valid_command c \<and> admitted cx c"
  "leaveMessage cx p = Inr c \<Longrightarrow> valid_command c \<and> admitted cx c"
  "injectDtmf cx p = Inr c \<Longrightarrow> valid_command c \<and> admitted cx c"
  "startRecording cx p = Inr c \<Longrightarrow> valid_command c \<and> admitted cx c"
  "stopRecording cx p = Inr c \<Longrightarrow> valid_command c \<and> admitted cx c"
  "listRecordings cx p = Inr c \<Longrightarrow> valid_command c \<and> admitted cx c"
  "deleteRecording cx p = Inr c \<Longrightarrow> valid_command c \<and> admitted cx c"
  by (auto simp: media_handlers valid_gather_def rbind_eq_Inr dest!: validator_dests)

lemma dispatch_ok: "map_of dispatch_table m = Some f \<Longrightarrow> f cx p = Inr c \<Longrightarrow> valid_command c \<and> admitted cx c"
proof -
  assume m: "map_of dispatch_table m = Some f" and c: "f cx p = Inr c"
  from m have "(m, f) \<in> set dispatch_table" by (rule map_of_SomeD)
  then show ?thesis
    unfolding dispatch_table_def using c
    by (auto dest: sip_handlers_ok media_handlers_ok)
qed

lemma decode_ok: "decode cx m p = Inr c \<Longrightarrow> valid_command c \<and> admitted cx c"
  by (auto simp: decode_def split: option.splits if_splits dest: dispatch_ok)


section \<open>What a client sends\<close>

definition opt_bool :: "bool option \<Rightarrow> jv" where
  "opt_bool b = (case b of None \<Rightarrow> JUndef | Some x \<Rightarrow> JBool x)"

definition opt_rat :: "rat option \<Rightarrow> jv" where
  "opt_rat r = (case r of None \<Rightarrow> JUndef | Some x \<Rightarrow> JNum (Fin x))"

definition opt_nullable :: "int option option \<Rightarrow> jv" where
  "opt_nullable i = (case i of None \<Rightarrow> JUndef | Some None \<Rightarrow> JNull | Some (Some n) \<Rightarrow> jint n)"

definition opt_strings :: "string list option \<Rightarrow> jv" where
  "opt_strings s = (case s of None \<Rightarrow> JUndef | Some xs \<Rightarrow> JArr (map JStr xs))"

definition auth_jv :: "(string \<times> string) option \<Rightarrow> jv" where
  "auth_jv a = (case a of None \<Rightarrow> JUndef | Some (u, p) \<Rightarrow> JObj [(''username'', JStr u), (''password'', JStr p)])"

definition gather_fields :: "('a) gather_params_scheme \<Rightarrow> (string \<times> jv) list" where
  "gather_fields g = [(''endpointId'', JStr (gp_endpointId g)), (''numDigits'', opt_int (gp_numDigits g)),
     (''timeoutMs'', opt_int (gp_timeoutMs g)), (''interDigitTimeoutMs'', opt_int (gp_interDigitTimeoutMs g)),
     (''terminator'', opt_str (gp_terminator g)), (''sensitive'', opt_bool (gp_sensitive g))]"

fun client_request :: "command \<Rightarrow> string \<times> (string \<times> jv) list" where
  "client_request ListSessions = (''session.list'', [])"
| "client_request (GetCall i) = (''session.get'', [(''sessionId'', JStr i)])"
| "client_request (GetMediaSession i) = (''session.get'', [(''sessionId'', JStr i)])"
| "client_request (DestroySession i) = (''session.delete'', [(''sessionId'', JStr i)])"
| "client_request (Bye i r h) = (''sip.bye'', [(''sessionId'', JStr i), (''reason'', opt_str r), (''headers'', headers_jv h)])"
| "client_request (CreateSession c cn) = (''session.create'', [(''callId'', opt_str c)])"
| "client_request (CreateOutbound o1) = (''sip.createOutbound'',
     [(''requestUri'', JStr (op_requestUri o1)), (''sdp'', JStr (op_sdp o1)), (''headers'', headers_jv (op_headers o1)),
      (''receiverUrl'', opt_str (op_receiverUrl o1)), (''callingNumber'', opt_str (op_callingNumber o1)),
      (''callingName'', opt_str (op_callingName o1)), (''proxy'', opt_str (op_proxy o1)),
      (''outboundAttemptId'', opt_str (op_outboundAttemptId o1)), (''auth'', auth_jv (op_auth o1))])"
| "client_request (CancelOutbound a cn) = (''sip.cancelOutbound'', [(''outboundAttemptId'', JStr a)])"
| "client_request (Reinvite i sdp h) = (''sip.reinvite'', [(''sessionId'', JStr i), (''sdp'', JStr sdp), (''headers'', headers_jv h)])"
| "client_request (CreateWebrtcOffer i d) = (''webrtc.createOffer'', [(''sessionId'', JStr i), (''direction'', opt_str d)])"
| "client_request (CreateWebrtcFromOffer i sdp d) =
     (''webrtc.createFromOffer'', [(''sessionId'', JStr i), (''sdp'', JStr sdp), (''direction'', opt_str d)])"
| "client_request (AcceptWebrtcAnswer i sdp g) =
     (''webrtc.acceptAnswer'', [(''endpointId'', JStr i), (''sdp'', JStr sdp), (''offerGeneration'', opt_int g)])"
| "client_request (AcceptWebrtcOffer i sdp) = (''webrtc.acceptOffer'', [(''endpointId'', JStr i), (''sdp'', JStr sdp)])"
| "client_request (RestartIce i) = (''webrtc.restartIce'', [(''endpointId'', JStr i)])"
| "client_request (CreateRtpOffer i d srtp opt codecs) =
     (''rtp.createOffer'', [(''sessionId'', JStr i), (''direction'', opt_str d), (''srtp'', opt_bool srtp),
        (''srtpOptional'', opt_bool opt), (''codecs'', opt_strings codecs)])"
| "client_request (CreateRtpFromOffer i sdp d) =
     (''rtp.createFromOffer'', [(''sessionId'', JStr i), (''sdp'', JStr sdp), (''direction'', opt_str d)])"
| "client_request (AcceptRtpAnswer i sdp) = (''rtp.acceptAnswer'', [(''endpointId'', JStr i), (''sdp'', JStr sdp)])"
| "client_request (RtpReinvite i sdp) = (''rtp.reinvite'', [(''endpointId'', JStr i), (''sdp'', JStr sdp)])"
| "client_request (Play i src loops ttl h) =
     (''media.play'', [(''sessionId'', JStr i), (''source'', JStr src), (''loopCount'', opt_nullable loops),
        (''cacheTtlSecs'', opt_int ttl), (''headers'', headers_jv h)])"
| "client_request (PlayAndWait i src t) =
     (''media.playAndWait'', [(''sessionId'', JStr i), (''source'', JStr src), (''playbackTimeoutMs'', opt_int t)])"
| "client_request (StopMedia i) = (''media.stop'', [(''endpointId'', JStr i)])"
| "client_request (UpdateDirection i d) = (''endpoint.updateDirection'', [(''endpointId'', JStr i), (''direction'', JStr d)])"
| "client_request (Bridge i t d) =
     (''media.bridge'', [(''sessionId'', JStr i), (''targetSessionId'', JStr t), (''direction'', opt_str d)])"
| "client_request (Unbridge i) = (''media.unbridge'', [(''endpointId'', JStr i)])"
| "client_request (Gather i g) = (''media.gather'', (''sessionId'', JStr i) # gather_fields g)"
| "client_request (PlayAndGather i g) =
     (''media.playAndGather'', (''sessionId'', JStr i) # gather_fields g @
        [(''source'', JStr (pg_source g)), (''loopCount'', opt_nullable (pg_loopCount g)),
         (''cacheTtlSecs'', opt_int (pg_cacheTtlSecs g)), (''headers'', headers_jv (pg_headers g)),
         (''stopPlaybackOnDigit'', opt_bool (pg_stopPlaybackOnDigit g)),
         (''postPlaybackTimeoutMs'', opt_int (pg_postPlaybackTimeoutMs g))])"
| "client_request (LeaveMessage i l) =
     (''media.leaveMessage'', [(''sessionId'', JStr i), (''endpointId'', JStr (lm_endpointId l)),
        (''messageSource'', opt_str (lm_messageSource l)), (''maxWaitMs'', opt_int (lm_maxWaitMs l)),
        (''playbackTimeoutMs'', opt_int (lm_playbackTimeoutMs l)), (''silenceIntervalMs'', opt_int (lm_silenceIntervalMs l)),
        (''speechThreshold'', opt_rat (lm_speechThreshold l)), (''terminator'', opt_str (lm_terminator l))])"
| "client_request (InjectDtmf i d) = (''dtmf.inject'', [(''endpointId'', JStr i), (''digit'', JStr d)])"
| "client_request (StartRecording i e f) =
     (''recording.start'', [(''sessionId'', JStr i), (''endpointId'', opt_str e), (''filePath'', opt_str f)])"
| "client_request (StopRecording i) = (''recording.stop'', [(''recordingId'', JStr i)])"
| "client_request (ListRecordings b p s l) =
     (''recording.list'', [(''backendId'', opt_str b), (''startsWith'', opt_str p), (''skip'', opt_int s), (''limit'', opt_int l)])"
| "client_request (DeleteRecording b p) = (''recording.delete'', [(''backendId'', JStr b), (''path'', JStr p)])"
| "client_request Acknowledge = (''event.ack'', [])"

abbreviation client_method :: "command \<Rightarrow> string" where
  "client_method c \<equiv> fst (client_request c)"

abbreviation client_params :: "command \<Rightarrow> jv" where
  "client_params c \<equiv> JObj (snd (client_request c))"

text \<open>Reading a rendered value gives it back.\<close>

lemma wire_opts [simp]: "wire (opt_bool b) = opt_bool b" "wire (opt_rat r) = opt_rat r" "wire (opt_nullable n) = opt_nullable n"
  "wire (opt_strings s) = opt_strings s" "wire (auth_jv a) = auth_jv a"
  by (auto simp: opt_bool_def opt_rat_def opt_nullable_def opt_strings_def auth_jv_def map_idI split: option.splits)

lemma read_requiredString: "\<not> blank s \<Longrightarrow> requiredString (JStr s) n = Inr s"
  by (simp add: requiredString_def)

lemma read_optionalString: "some_nonblank s \<Longrightarrow> optionalString (opt_str s) n = Inr s"
  by (auto simp: optionalString_def some_nonblank_def opt_str_def split: option.splits)

lemma read_optionalBoolean: "optionalBoolean (opt_bool b) n = Inr b"
  by (auto simp: optionalBoolean_def opt_bool_def split: option.splits)

lemma read_optionalInteger: "optionalInteger (opt_int i) n = Inr i"
  by (auto simp: optionalInteger_def opt_int_def split: option.splits)

lemma read_optionalPositive: "some_positive i \<Longrightarrow> optionalPositiveInteger (opt_int i) n = Inr i"
  by (simp add: optionalPositiveInteger_def read_optionalInteger some_positive_def)

lemma read_optionalNonNegative: "some_nonnegative i \<Longrightarrow> optionalNonNegativeInteger (opt_int i) n = Inr i"
  by (simp add: optionalNonNegativeInteger_def read_optionalInteger some_nonnegative_def)

lemma read_optionalNumber: "optionalNumber (opt_rat r) n = Inr r"
  by (auto simp: optionalNumber_def opt_rat_def split: option.splits)

lemma read_nullable: "optionalNullableInteger (opt_nullable i) n = Inr i"
  by (auto simp: optionalNullableInteger_def opt_nullable_def split: option.splits)

lemma read_generation: "some_nonnegative i \<Longrightarrow> optionalGeneration (opt_int i) = Inr i"
  by (auto simp: optionalGeneration_def opt_int_def some_nonnegative_def split: option.splits)

lemma read_headers: "valid_headers h \<Longrightarrow> optionalHeaders (wire (headers_jv h)) = Inr h"
  by (simp add: optionalHeaders_def parse_rendered_headers)

lemma read_auth: "some_auth a \<Longrightarrow> parseOptionalSipAuth (auth_jv a) = Inr a"
  by (auto simp: parseOptionalSipAuth_def auth_jv_def some_auth_def requireObject_def read_requiredString split: option.splits)

lemma rmap_strings: "list_all (\<lambda>c. \<not> blank c) cs \<Longrightarrow> rmap (\<lambda>x. require e (nonblank_str x)) (map JStr cs) = Inr cs"
  by (induction cs) auto

lemma read_codecs: "(case c of None \<Rightarrow> True | Some cs \<Rightarrow> list_all (\<lambda>c. \<not> blank c) cs) \<Longrightarrow> optionalCodecs (opt_strings c) = Inr c"
  by (auto simp: optionalCodecs_def opt_strings_def rmap_strings split: option.splits)

lemma direction_nonblank: "d \<in> set directions \<Longrightarrow> \<not> blank d"
proof -
  have "list_all (\<lambda>d. \<not> blank d) directions" by code_simp
  then show "d \<in> set directions \<Longrightarrow> \<not> blank d" by (auto simp: list_all_iff)
qed

lemma read_direction: "d \<in> set directions \<Longrightarrow> requiredDirection (JStr d) = Inr d"
  by (simp add: requiredDirection_def read_requiredString direction_nonblank)

lemma read_optionalDirection:
  "(case d of None \<Rightarrow> True | Some x \<Rightarrow> x \<in> set directions) \<Longrightarrow> optionalDirection (opt_str d) = Inr d"
  by (auto simp: optionalDirection_def opt_str_def read_direction split: option.splits)

lemma read_message_source:
  "some_nonblank s \<Longrightarrow> fld b ''messageSource'' = opt_str s \<Longrightarrow> fld b ''promptSource'' = JUndef \<Longrightarrow> message_source b = Inr s"
  by (cases s) (simp_all add: message_source_def optionalString_def opt_str_def some_nonblank_def)

lemma coalesce_JUndef: "v \<noteq> JNull \<Longrightarrow> coalesce v JUndef = v"
  by (auto simp: coalesce_def nullish_def)

lemma coalesce_JStr [simp]: "coalesce (JStr s) v = JStr s"
  by (simp add: coalesce_def)

lemma opt_int_JNull [simp]: "opt_int i \<noteq> JNull"
  by (simp add: opt_int_def split: option.splits)

lemmas read_rendered = read_requiredString read_optionalString read_optionalBoolean read_optionalInteger read_optionalPositive
  read_optionalNonNegative read_optionalNumber read_nullable read_generation read_headers read_auth read_codecs
  read_direction read_optionalDirection coalesce_JUndef

lemma client_keys: "distinct (map fst (snd (client_request c)))"
  by (cases c) (simp_all add: gather_fields_def)

lemma entries_wire: "distinct (map fst fs) \<Longrightarrow> map_of (entries (wire (JObj fs))) k = None \<longleftrightarrow> fld (JObj fs) k = JUndef"
  by (auto simp: entries_def map_of_wire_fields split: option.splits)

lemma client_roundtrip:
  assumes "valid_command c" and "admitted cx c"
  shows "decode cx (client_method c) (wire (client_params c)) = Inr c"
proof -
  define p where "p = wire (client_params c)"
  have r: "requireObject p = Inr p" "optionalObject p = Inr p"
    by (simp_all add: p_def requireObject_def optionalObject_def)
  have f: "\<And>k. fld p k = wire (fld (client_params c) k)"
    unfolding p_def by (rule fld_wire) (rule client_keys)
  have e: "\<And>k. (map_of (entries p) k = None) = (fld (client_params c) k = JUndef)"
    unfolding p_def by (rule entries_wire) (rule client_keys)
  have m: "c = LeaveMessage i l \<Longrightarrow> message_source p = Inr (lm_messageSource l)" for i l
    using assms(1) by (intro read_message_source) (simp_all add: f)
  note handlers = decode_def dispatch_table_def sip_handlers media_handlers target_id_def requireMedia_def accepting_def
  show ?thesis
    unfolding p_def [symmetric]
    using assms m
    by (cases c; simp add: handlers r f e read_rendered valid_gather_def gather_fields_def; fastforce split: option.splits)
qed


section \<open>Properties\<close>

text \<open>
  C26. The command layer is exact. What it decodes, for any method and any untrusted parameters, is a
  well-formed command (nonblank identifiers and SDP, positive counts and timeouts, known directions,
  no contradictory SRTP flags) that the state of the gateway admits; and every well-formed, admitted
  command, sent by a client in its documented form, is decoded to exactly itself. In particular a
  draining gateway starts no outbound call and no session of a call it does not know.
\<close>

theorem decode_exact:
  "(\<exists>method params. decode cx method params = Inr c) = (valid_command c \<and> admitted cx c)
   \<and> (decode cx (client_method c) (wire (client_params c)) = Inr c) = (valid_command c \<and> admitted cx c)"
  using decode_ok client_roundtrip by blast

definition expected_error :: "gw_error \<Rightarrow> bool" where
  "expected_error e \<longleftrightarrow> (case controlErrorForCommand e of
     None \<Rightarrow> False
   | Some (c, _) \<Rightarrow> c \<in> set [''BAD_REQUEST'', ''NOT_FOUND'', ''NOT_IMPLEMENTED'', ''SHUTTING_DOWN'', ''MEDIA_UNAVAILABLE''])"

lemma expected_errors [simp]:
  "expected_error (CommandValidationError m)" "expected_error (InvalidHttpActionError m)"
  "expected_error GatewayDrainingError" "expected_error (CommandNotImplementedError m)"
  "expected_error (CallNotFoundError m)" "expected_error (MediaUnavailableError m)"
  by (simp_all add: expected_error_def controlErrorForCommand_def)

abbreviation expected :: "(gw_error, 'a) result \<Rightarrow> bool" where
  "expected r \<equiv> only_fails expected_error r"

lemma collect_headers_error: "collect_headers acc fs = Inl e \<Longrightarrow> \<exists>m. e = InvalidHttpAction m"
  by (induction acc fs rule: collect_headers.induct) (auto split: option.splits if_splits)

lemma expected_headers: "expected (optionalHeaders v)"
proof -
  have "parseOptionalHeaders v \<noteq> Inl UrlTypeError"
    using collect_headers_error by (auto simp: parseOptionalHeaders_def rbind_eq_Inl)
  then show ?thesis by (auto simp: optionalHeaders_def split: sum.splits action_error.splits)
qed

lemma expected_validators:
  "expected (requireObject v)" "expected (optionalObject v)" "expected (requiredString v n)" "expected (optionalString v n)"
  "expected (optionalBoolean v n)" "expected (optionalInteger v n)" "expected (optionalNumber v n)"
  "expected (optionalNullableInteger v n)" "expected (optionalGeneration v)"
  by (auto simp: requireObject_def optionalObject_def requiredString_def optionalString_def optionalBoolean_def
      optionalInteger_def optionalNumber_def optionalNullableInteger_def optionalGeneration_def
      split: jv.split jnum.split option.split)

lemma expected_compound:
  "expected (optionalNonNegativeInteger v n)" "expected (optionalPositiveInteger v n)" "expected (requiredDirection v)"
  "expected (parseOptionalSipAuth v)" "expected (optionalCodecs v)" "expected (target_id v)" "expected (message_source v)"
  by (auto simp: optionalNonNegativeInteger_def optionalPositiveInteger_def requiredDirection_def parseOptionalSipAuth_def
      optionalCodecs_def target_id_def message_source_def intro!: only_fails_rbind only_fails_rmap expected_validators
      split: option.split)

lemma expected_direction: "expected (optionalDirection v)"
  by (auto simp: optionalDirection_def intro!: only_fails_rbind expected_compound)

lemma expected_guards: "expected (requireMedia cx)" "expected (accepting cx)"
  by (simp_all add: requireMedia_def accepting_def)

lemmas expected_intros = only_fails_rbind only_fails_Inr expected_validators expected_compound expected_direction
  expected_headers expected_guards

lemma expected_sip:
  "expected (getSession cx p)" "expected (deleteSession cx p)" "expected (createMediaSession cx p)" "expected (createOutbound cx p)"
  "expected (cancelOutbound cx p)" "expected (reinvite p)" "expected (bye p)"
  unfolding sip_handlers by (intro expected_intros | simp add: expected_intros)+

lemma expected_media:
  "expected (createWebrtcOffer cx p)" "expected (createWebrtcFromOffer cx p)" "expected (acceptWebrtcAnswer cx p)"
  "expected (acceptWebrtcOffer cx p)" "expected (restartIce cx p)" "expected (createRtpOffer cx p)"
  "expected (createRtpFromOffer cx p)" "expected (acceptRtpAnswer cx p)" "expected (rtpReinvite cx p)"
  "expected (play cx p)" "expected (playAndWait cx p)" "expected (stopMedia cx p)" "expected (updateDirection cx p)"
  "expected (bridge cx p)" "expected (unbridge cx p)" "expected (gather cx p)" "expected (playAndGather cx p)"
  "expected (leaveMessage cx p)" "expected (injectDtmf cx p)" "expected (startRecording cx p)" "expected (stopRecording cx p)"
  "expected (listRecordings cx p)" "expected (deleteRecording cx p)"
  unfolding media_handlers by (intro expected_intros | simp add: expected_intros)+

lemma expected_decode: "expected (decode cx m p)"
proof (cases "map_of dispatch_table m")
  case None
  then show ?thesis by (simp add: decode_def)
next
  case (Some f)
  then have "(m, f) \<in> set dispatch_table" by (rule map_of_SomeD)
  then have "expected (f cx p)"
    unfolding dispatch_table_def using expected_sip expected_media by auto
  with Some show ?thesis by (simp add: decode_def)
qed

text \<open>
  Whatever the method and the parameters, a request that the command layer refuses is answered
  with one of the codes \<open>BAD_REQUEST\<close>, \<open>NOT_FOUND\<close>, \<open>NOT_IMPLEMENTED\<close>, \<open>SHUTTING_DOWN\<close> or
  \<open>MEDIA_UNAVAILABLE\<close>; malformed input is never reported as an internal error.
\<close>

theorem decode_error_codes:
  "case decode cx m ps of
     Inr _ \<Rightarrow> True
   | Inl e \<Rightarrow> (\<exists>code message. controlErrorForCommand e = Some (code, message)
       \<and> code \<in> set [''BAD_REQUEST'', ''NOT_FOUND'', ''NOT_IMPLEMENTED'', ''SHUTTING_DOWN'', ''MEDIA_UNAVAILABLE''])"
  using expected_decode [of cx m ps]
  by (auto simp: expected_error_def simp del: set_simps split: sum.split option.splits)

end
