(* ===== verification/Lifecycle.thy ===== *)
theory Lifecycle
  imports Prelude
begin

text \<open>
  The lifecycle of the gateway (\<open>src/gateway-lifecycle.ts\<close>): admission of operations, draining and
  stopping. The closure that \<open>beginOperation\<close> returns is a handle into the list of the closures'
  \<open>finished\<close> flags. The poll interval, the deadline and the cleanup race are events; a timer's
  event has an effect only while the timer is armed.
\<close>

section \<open>The interface of admission\<close>

text \<open>
  What the servers rely on: beginning an operation yields a fresh handle and counts it, finishing a
  handle takes it off the count, once.
\<close>

locale admission =
  fixes begin_op :: "'s \<Rightarrow> ('e, 's \<times> 'h) result"
    and finish_op :: "'h \<Rightarrow> 's \<Rightarrow> 's"
    and live :: "'s \<Rightarrow> 'h set"
    and count :: "'s \<Rightarrow> int"
    and wf :: "'s \<Rightarrow> bool"
  assumes count_live: "wf s \<Longrightarrow> finite (live s) \<and> count s = int (card (live s))"
    and begin_live: "wf s \<Longrightarrow> begin_op s = Inr (s', h) \<Longrightarrow> wf s' \<and> h \<notin> live s \<and> live s' = insert h (live s)"
    and finish_live: "wf s \<Longrightarrow> wf (finish_op h s) \<and> live (finish_op h s) = live s - {h}"
begin

lemma count_begin: "wf s \<Longrightarrow> begin_op s = Inr (s', h) \<Longrightarrow> count s' = count s + 1"
  using begin_live [of s s' h] count_live [of s] count_live [of s'] by simp

lemma count_finish: "wf s \<Longrightarrow> count (finish_op h s) = (if h \<in> live s then count s - 1 else count s)"
proof -
  assume s: "wf s"
  have f: "wf (finish_op h s)" "live (finish_op h s) = live s - {h}"
    using finish_live [OF s, of h] by blast+
  have c: "count (finish_op h s) = int (card (live s - {h}))"
    using count_live [OF f(1)] unfolding f(2) by (rule conjunct2)
  have n: "count s = int (card (live s))" and fin: "finite (live s)"
    using count_live [OF s] by blast+
  show ?thesis
  proof (cases "h \<in> live s")
    case True
    then have "card (live s) = Suc (card (live s - {h}))"
      by (rule card_Suc_Diff1 [OF fin, symmetric])
    with True show ?thesis unfolding c n by simp
  next
    case False
    then have "live s - {h} = live s" by blast
    with False show ?thesis unfolding c n by simp
  qed
qed

lemma finish_twice: "wf s \<Longrightarrow> count (finish_op h (finish_op h s)) = count (finish_op h s)"
  using finish_live [of s h] by (simp add: count_finish)

lemma count_nonneg: "wf s \<Longrightarrow> 0 \<le> count s"
  by (simp add: count_live)

text \<open>
  A bracketed operation: whatever other operations begin or finish while it runs, the operation
  itself is counted from its beginning to its end and leaves the others' count behind.
\<close>

lemma bracket:
  assumes "wf s" "begin_op s = Inr (s1, h)" "wf s2" "live s2 = insert h others" "h \<notin> others"
  shows "live (finish_op h s2) = others" and "0 < count s2"
proof -
  show "live (finish_op h s2) = others" using finish_live [OF assms(3), of h] assms(4,5) by simp
  have "finite (live s2)" and "live s2 \<noteq> {}" using count_live [OF assms(3)] assms(4) by auto
  then show "0 < count s2" using count_live [OF assms(3)] by (simp add: card_gt_0_iff)
qed

end

section \<open>State and operations\<close>

record lifecycle =
  pendingOperations :: int
  finishedFlags :: "bool list"
  hasCompletion :: bool
  completionResolved :: bool
  pollArmed :: bool
  deadlineArmed :: bool
  cleaningUp :: bool
  isDraining :: bool
  isStopping :: bool

definition new_lifecycle :: lifecycle where
  "new_lifecycle = \<lparr>pendingOperations = 0, finishedFlags = [], hasCompletion = False, completionResolved = False,
     pollArmed = False, deadlineArmed = False, cleaningUp = False, isDraining = False, isStopping = False\<rparr>"

datatype lifecycle_error = GatewayDraining

datatype lifecycle_output = DrainingEvent string nat | StopCalled bool | CompletionResolved | StoppedEvent

definition assertAccepting :: "lifecycle \<Rightarrow> (lifecycle_error, unit) result" where
  "assertAccepting s = guard (\<not> isDraining s) GatewayDraining"

definition assertRunning :: "lifecycle \<Rightarrow> (lifecycle_error, unit) result" where
  "assertRunning s = guard (\<not> isStopping s) GatewayDraining"

definition beginOperation :: "lifecycle \<Rightarrow> (lifecycle_error, lifecycle \<times> nat) result" where
  "beginOperation s =
     rbind (assertRunning s) (\<lambda>_.
       Inr (s\<lparr>pendingOperations := pendingOperations s + 1, finishedFlags := finishedFlags s @ [False]\<rparr>,
            length (finishedFlags s)))"

definition finishOperation :: "nat \<Rightarrow> lifecycle \<Rightarrow> lifecycle" where
  "finishOperation h s =
     (if h \<ge> length (finishedFlags s) \<or> finishedFlags s ! h then s
      else s\<lparr>pendingOperations := pendingOperations s - 1, finishedFlags := (finishedFlags s)[h := True]\<rparr>)"

definition drain :: "nat \<Rightarrow> string \<Rightarrow> lifecycle \<Rightarrow> lifecycle \<times> lifecycle_output list" where
  "drain maxWaitMs reason s =
     (if hasCompletion s then (s, [])
      else (s\<lparr>isDraining := True, hasCompletion := True, pollArmed := True, deadlineArmed := True\<rparr>,
            [DrainingEvent reason maxWaitMs]))"

text \<open>\<open>stop\<close> up to its \<open>await\<close>, and what follows it: \<open>options.stop\<close> done or failed, or out of time.\<close>

definition stop :: "bool \<Rightarrow> lifecycle \<Rightarrow> lifecycle \<times> lifecycle_output list" where
  "stop forced s =
     (if isStopping s then (s, [])
      else (s\<lparr>isStopping := True, pollArmed := False, deadlineArmed := False, cleaningUp := True\<rparr>, [StopCalled forced]))"

definition cleanup_over :: "lifecycle \<Rightarrow> lifecycle \<times> lifecycle_output list" where
  "cleanup_over s =
     (if cleaningUp s
      then (s\<lparr>cleaningUp := False, completionResolved := hasCompletion s\<rparr>,
            (if hasCompletion s then [CompletionResolved] else []) @ [StoppedEvent])
      else (s, []))"

definition poll :: "nat \<Rightarrow> lifecycle \<Rightarrow> lifecycle \<times> lifecycle_output list" where
  "poll activeResources s =
     (if pollArmed s \<and> pendingOperations s = 0 \<and> activeResources = 0 then stop False s else (s, []))"

definition deadline :: "lifecycle \<Rightarrow> lifecycle \<times> lifecycle_output list" where
  "deadline s = (if deadlineArmed s then stop True s else (s, []))"

datatype lifecycle_event =
  Begin | Finish nat | Drain nat string | PollTick nat | DeadlineTick | CleanupOver

fun lifecycle_step :: "lifecycle \<Rightarrow> lifecycle_event \<Rightarrow> lifecycle \<times> lifecycle_output list" where
  "lifecycle_step s Begin = (case beginOperation s of Inl _ \<Rightarrow> (s, []) | Inr (s', _) \<Rightarrow> (s', []))"
| "lifecycle_step s (Finish h) = (finishOperation h s, [])"
| "lifecycle_step s (Drain w r) = drain w r s"
| "lifecycle_step s (PollTick n) = poll n s"
| "lifecycle_step s DeadlineTick = deadline s"
| "lifecycle_step s CleanupOver = cleanup_over s"

abbreviation lifecycle_run :: "lifecycle \<Rightarrow> lifecycle_event list \<Rightarrow> lifecycle \<times> lifecycle_output list" where
  "lifecycle_run \<equiv> steps lifecycle_step"

abbreviation lifecycle_state :: "lifecycle \<Rightarrow> lifecycle_event \<Rightarrow> lifecycle" where
  "lifecycle_state s e \<equiv> fst (lifecycle_step s e)"

section \<open>The invariant\<close>

definition live_handles :: "lifecycle \<Rightarrow> nat set" where
  "live_handles s = {h. h < length (finishedFlags s) \<and> \<not> finishedFlags s ! h}"

definition balanced :: "lifecycle \<Rightarrow> bool" where
  "balanced s \<longleftrightarrow> pendingOperations s = int (card (live_handles s))"

lemma finite_live [simp]: "finite (live_handles s)"
  by (simp add: live_handles_def)

lemma live_begin: "beginOperation s = Inr (s', h) \<Longrightarrow> h \<notin> live_handles s \<and> live_handles s' = insert h (live_handles s)"
  by (auto simp: beginOperation_def rbind_eq_Inr live_handles_def nth_append less_Suc_eq)

lemma live_finish: "live_handles (finishOperation h s) = live_handles s - {h}"
  by (auto simp: finishOperation_def live_handles_def nth_list_update)

lemma begin_balanced: "balanced s \<Longrightarrow> beginOperation s = Inr (s', h) \<Longrightarrow> balanced s'"
  using live_begin [of s s' h] by (auto simp: balanced_def beginOperation_def rbind_eq_Inr)

lemma finish_balanced: "balanced s \<Longrightarrow> balanced (finishOperation h s)"
proof (cases "h \<in> live_handles s")
  case True
  assume b: "balanced s"
  have "card (live_handles s - {h}) = card (live_handles s) - 1" and "1 \<le> card (live_handles s)"
    using True by (auto simp: Suc_le_eq card_gt_0_iff)
  with b True show ?thesis
    using live_finish [of h s] by (auto simp: balanced_def finishOperation_def live_handles_def of_nat_diff)
next
  case False
  then have "finishOperation h s = s" by (auto simp: finishOperation_def live_handles_def)
  then show "balanced s \<Longrightarrow> ?thesis" by simp
qed

interpretation adm: admission beginOperation finishOperation live_handles pendingOperations balanced
proof unfold_locales
  fix s s' h
  show "balanced s \<Longrightarrow> finite (live_handles s) \<and> pendingOperations s = int (card (live_handles s))"
    by (simp add: balanced_def)
  show "balanced s \<Longrightarrow> beginOperation s = Inr (s', h) \<Longrightarrow>
      balanced s' \<and> h \<notin> live_handles s \<and> live_handles s' = insert h (live_handles s)"
    using live_begin begin_balanced by blast
  show "balanced s \<Longrightarrow> balanced (finishOperation h s) \<and> live_handles (finishOperation h s) = live_handles s - {h}"
    using live_finish finish_balanced by blast
qed

definition lifecycle_inv :: "lifecycle \<Rightarrow> bool" where
  "lifecycle_inv s \<longleftrightarrow> balanced s \<and> hasCompletion s = isDraining s
     \<and> (isStopping s \<longrightarrow> isDraining s)
     \<and> pollArmed s = (isDraining s \<and> \<not> isStopping s) \<and> deadlineArmed s = (isDraining s \<and> \<not> isStopping s)
     \<and> completionResolved s = (isStopping s \<and> \<not> cleaningUp s) \<and> (cleaningUp s \<longrightarrow> isStopping s)"

lemma new_lifecycle_inv: "lifecycle_inv new_lifecycle"
  by (simp add: lifecycle_inv_def new_lifecycle_def balanced_def live_handles_def)

lemma balanced_updates [simp]:
  "balanced (s\<lparr>hasCompletion := b\<rparr>) = balanced s" "balanced (s\<lparr>completionResolved := b\<rparr>) = balanced s"
  "balanced (s\<lparr>pollArmed := b\<rparr>) = balanced s" "balanced (s\<lparr>deadlineArmed := b\<rparr>) = balanced s"
  "balanced (s\<lparr>cleaningUp := b\<rparr>) = balanced s" "balanced (s\<lparr>isDraining := b\<rparr>) = balanced s"
  "balanced (s\<lparr>isStopping := b\<rparr>) = balanced s"
  by (simp_all add: balanced_def live_handles_def)

lemma stop_inv [inv_intros]: "lifecycle_inv s \<Longrightarrow> isDraining s \<Longrightarrow> lifecycle_inv (fst (stop f s))"
  by (auto simp: lifecycle_inv_def stop_def)

lemma step_lifecycle_inv: "lifecycle_inv s \<Longrightarrow> lifecycle_inv (lifecycle_state s e)"
proof (cases e)
  case Begin
  assume s: "lifecycle_inv s"
  show ?thesis
  proof (cases "beginOperation s")
    case (Inr r)
    with s Begin begin_balanced [of s "fst r" "snd r"] show ?thesis
      by (cases r) (auto simp: lifecycle_inv_def beginOperation_def rbind_eq_Inr)
  qed (use s Begin in simp)
next
  case (Finish h)
  assume "lifecycle_inv s"
  with Finish finish_balanced [of s h] show ?thesis
    by (simp add: lifecycle_inv_def finishOperation_def)
next
  case (Drain w r)
  assume "lifecycle_inv s"
  with Drain show ?thesis by (auto simp: lifecycle_inv_def drain_def)
next
  case CleanupOver
  assume "lifecycle_inv s"
  with CleanupOver show ?thesis by (auto simp: lifecycle_inv_def cleanup_over_def)
next
  case (PollTick n)
  assume s: "lifecycle_inv s"
  then have "pollArmed s \<Longrightarrow> isDraining s" by (simp add: lifecycle_inv_def)
  with s PollTick show ?thesis by (simp add: poll_def stop_inv)
next
  case DeadlineTick
  assume s: "lifecycle_inv s"
  then have "deadlineArmed s \<Longrightarrow> isDraining s" by (simp add: lifecycle_inv_def)
  with s DeadlineTick show ?thesis by (simp add: deadline_def stop_inv)
qed

text \<open>The phases: accepting, draining, stopping, stopped. No step goes back.\<close>

definition phase :: "lifecycle \<Rightarrow> nat" where
  "phase s = (if \<not> isDraining s then 0 else if \<not> isStopping s then 1 else if \<not> completionResolved s then 2 else 3)"

lemma step_phase: "lifecycle_inv s \<Longrightarrow> phase s \<le> phase (lifecycle_state s e)"
  by (cases e)
    (auto simp: phase_def lifecycle_inv_def beginOperation_def finishOperation_def drain_def poll_def deadline_def
      stop_def cleanup_over_def rbind_eq_Inr split: sum.splits)

interpretation life: monotone_component lifecycle_state lifecycle_inv phase
  by unfold_locales (auto intro: step_lifecycle_inv step_phase)

lemma run_lifecycle_inv: "lifecycle_inv (fst (lifecycle_run new_lifecycle es))"
  unfolding steps_state by (rule life.run_inv) (rule new_lifecycle_inv)

section \<open>Properties\<close>

text \<open>
  Every operation is counted exactly while it runs: in every reachable state the number of pending
  operations is the number of begun and unfinished ones (however often a handle is finished), so it
  is never negative; and the gateway only moves forward through accepting, draining, stopping and
  stopped.
\<close>

theorem operations_balanced:
  "pendingOperations (fst (lifecycle_run new_lifecycle es))
     = int (length (filter (\<lambda>f. \<not> f) (finishedFlags (fst (lifecycle_run new_lifecycle es)))))
   \<and> phase (fst (lifecycle_run new_lifecycle es)) \<le> phase (fst (lifecycle_run new_lifecycle (es @ fs)))"
proof
  let ?s = "fst (lifecycle_run new_lifecycle es)"
  have "card (live_handles ?s) = length (filter (\<lambda>f. \<not> f) (finishedFlags ?s))"
    by (simp add: live_handles_def length_filter_conv_card)
  then show "pendingOperations ?s = int (length (filter (\<lambda>f. \<not> f) (finishedFlags ?s)))"
    using run_lifecycle_inv [of es] by (simp add: lifecycle_inv_def balanced_def)
  show "phase ?s \<le> phase (fst (lifecycle_run new_lifecycle (es @ fs)))"
    using life.run_level [OF run_lifecycle_inv [of es], of fs] by (simp add: steps_append steps_state)
qed

text \<open>
  An unforced stop never cuts anything off: it happens only at a poll that finds no pending
  operation and no active resource. A forced stop happens only at the deadline.
\<close>

theorem graceful_stop_is_idle:
  "StopCalled False \<in> set (snd (lifecycle_step (fst (lifecycle_run new_lifecycle es)) e)) \<longleftrightarrow>
     e = PollTick 0 \<and> pendingOperations (fst (lifecycle_run new_lifecycle es)) = 0
     \<and> phase (fst (lifecycle_run new_lifecycle es)) = 1"
proof -
  let ?s = "fst (lifecycle_run new_lifecycle es)"
  have inv: "lifecycle_inv ?s" by (rule run_lifecycle_inv)
  have "pollArmed ?s \<longleftrightarrow> phase ?s = 1" using inv by (auto simp: lifecycle_inv_def phase_def)
  moreover have "pollArmed ?s \<Longrightarrow> \<not> isStopping ?s" using inv by (simp add: lifecycle_inv_def)
  ultimately show ?thesis
    by (cases e) (auto simp: poll_def stop_def deadline_def drain_def cleanup_over_def split: sum.splits)
qed

definition stops :: "lifecycle_output list \<Rightarrow> nat" where
  "stops outs = length (filter (\<lambda>out. case out of StopCalled _ \<Rightarrow> True | _ \<Rightarrow> False) outs)"

definition resolutions :: "lifecycle_output list \<Rightarrow> nat" where
  "resolutions outs = length (filter (\<lambda>out. out = CompletionResolved) outs)"

lemma stops_simps [simp]: "stops [] = 0" "stops (xs @ ys) = stops xs + stops ys"
  "stops (out # outs) = (case out of StopCalled _ \<Rightarrow> 1 | _ \<Rightarrow> 0) + stops outs"
  by (auto simp: stops_def split: lifecycle_output.splits)

lemma resolutions_simps [simp]: "resolutions [] = 0" "resolutions (xs @ ys) = resolutions xs + resolutions ys"
  "resolutions (out # outs) = (if out = CompletionResolved then 1 else 0) + resolutions outs"
  by (auto simp: resolutions_def)

lemma step_counts:
  assumes "lifecycle_inv s" and "lifecycle_step s e = (s', outs)"
  shows "stops outs + (if isStopping s then 1 else 0) = (if isStopping s' then 1 else 0)
      \<and> resolutions outs + (if completionResolved s then 1 else 0) = (if completionResolved s' then 1 else 0)"
proof (cases e)
  case Begin
  with assms(2) show ?thesis
    by (cases "isStopping s") (auto simp: beginOperation_def assertRunning_def)
next
  case (Finish h)
  with assms(2) show ?thesis by (auto simp: finishOperation_def split: if_splits)
next
  case (Drain w r)
  with assms(2) show ?thesis by (auto simp: drain_def split: if_splits)
next
  case (PollTick n)
  with assms show ?thesis by (auto simp: poll_def stop_def split: if_splits)
next
  case DeadlineTick
  with assms show ?thesis by (auto simp: deadline_def stop_def split: if_splits)
next
  case CleanupOver
  with assms show ?thesis by (auto simp: cleanup_over_def lifecycle_inv_def split: if_splits)
qed

text \<open>
  C25. The stop callback runs at most once and the promise of \<open>drain\<close> is resolved at most once, both
  exactly when the state says so; and from every reachable state a drain, its deadline and the end of
  the cleanup, which has a timeout of its own, resolve the promise: a drain always completes.
\<close>

theorem drain_completes_once:
  "stops (snd (lifecycle_run new_lifecycle es)) = (if phase (fst (lifecycle_run new_lifecycle es)) \<ge> 2 then 1 else 0)
   \<and> resolutions (snd (lifecycle_run new_lifecycle es)) = (if phase (fst (lifecycle_run new_lifecycle es)) = 3 then 1 else 0)
   \<and> phase (fst (lifecycle_run new_lifecycle (es @ [Drain w r, DeadlineTick, CleanupOver]))) = 3"
proof -
  let ?s = "\<lambda>es. fst (lifecycle_run new_lifecycle es)"
  have "stops (snd (lifecycle_run new_lifecycle es)) = (if isStopping (?s es) then 1 else 0)
      \<and> resolutions (snd (lifecycle_run new_lifecycle es)) = (if completionResolved (?s es) then 1 else 0)"
  proof (induction es rule: rev_induct)
    case Nil
    show ?case by (simp add: new_lifecycle_def)
  next
    case (snoc e es)
    obtain s' outs where st: "lifecycle_step (?s es) e = (s', outs)" by fastforce
    from step_counts [OF run_lifecycle_inv st] snoc.IH st show ?case
      by (simp add: steps_append)
  qed
  moreover have "phase (?s es) \<ge> 2 \<longleftrightarrow> isStopping (?s es)" and "phase (?s es) = 3 \<longleftrightarrow> completionResolved (?s es)"
    using run_lifecycle_inv [of es] by (auto simp: lifecycle_inv_def phase_def)
  moreover have "phase (?s (es @ [Drain w r, DeadlineTick, CleanupOver])) = 3"
    using run_lifecycle_inv [of es]
    by (auto simp: steps_append lifecycle_inv_def phase_def drain_def deadline_def stop_def cleanup_over_def)
  ultimately show ?thesis by simp
qed

end
