(* ===== verification/ControlServer.thy ===== *)
theory ControlServer
  imports ControlHub Commands Lifecycle
begin

text \<open>
  The control WebSocket server (\<open>src/control-server.ts\<close>): the upgrade of a connection, the dispatch
  of its messages, and the handling of a request from its admission to its response.

  The server is modelled as \<open>src/index.ts\<close> wires it, with a lifecycle. A request whose command is
  awaited is kept in \<open>running\<close> under the handle of its admission until \<open>commandDone\<close>. A reply is the
  pair of a connection and a message; \<open>deliver\<close> hands it to the hub. The log lines are modelled where
  building them can throw.
\<close>

section \<open>Upgrade\<close>

record control_config =
  cc_path :: string
  cc_auth_mode :: "string option"
  cc_auth_token :: "string option"

definition isAuthorized :: "control_config \<Rightarrow> string option \<Rightarrow> bool" where
  "isAuthorized cfg header =
     (let mode = (case cc_auth_mode cfg of Some m \<Rightarrow> m
                  | None \<Rightarrow> if truthy_opt (cc_auth_token cfg) then ''bearer'' else ''none'')
      in if mode = ''none'' then True
         else case cc_auth_token cfg of
                None \<Rightarrow> False
              | Some t \<Rightarrow> if t = [] then False else header = Some (''Bearer '' @ t))"

datatype upgrade_outcome = NotMine | Unauthorized | Unavailable | Upgraded

definition upgrade :: "control_config \<Rightarrow> string option \<Rightarrow> string option \<Rightarrow> lifecycle \<Rightarrow> upgrade_outcome" where
  "upgrade cfg url header life =
     (if hd (split_on (CHR ''?'') (case url of Some u \<Rightarrow> u | None \<Rightarrow> [])) \<noteq> cc_path cfg then NotMine
      else if \<not> isAuthorized cfg header then Unauthorized
      else if isDraining life then Unavailable
      else Upgraded)"

definition connected_event :: "string \<Rightarrow> string \<Rightarrow> control_message" where
  "connected_event i now = CEvent ''control.connected'' i None None now (JObj [(''connectionId'', JStr i)])"

text \<open>The callback of \<open>handleUpgrade\<close>: the connection is registered and greeted on its own socket.\<close>

definition connect :: "string \<Rightarrow> string \<Rightarrow> hub \<Rightarrow> hub \<times> hub_output list" where
  "connect i now h = (registerConnection i h, [Sent i (connected_event i now)])"

section \<open>Requests\<close>

record running_request =
  rq_connection :: string
  rq_id :: string
  rq_command :: command

record server =
  sv_hub :: hub
  sv_life :: lifecycle
  sv_running :: "(nat, running_request) omap"

type_synonym reply = "string \<times> control_message"

definition errorForCommand :: "gw_error \<Rightarrow> control_error" where
  "errorForCommand e =
     (case controlErrorForCommand e of
        Some (c, m) \<Rightarrow> makeControlError c m JUndef
      | None \<Rightarrow>
          (case e of
             CallNotFoundError m \<Rightarrow> makeControlError ''NOT_FOUND'' m JUndef
           | InvalidCallStateError m \<Rightarrow> makeControlError ''CONFLICT'' m JUndef
           | ControlProtocolError m c \<Rightarrow> makeControlError c m JUndef
           | OtherError m \<Rightarrow> makeControlError ''INTERNAL_ERROR'' m JUndef
           | _ \<Rightarrow> makeControlError ''INTERNAL_ERROR'' ''Internal error'' JUndef))"

definition of_protocol :: "protocol_error \<Rightarrow> gw_error" where
  "of_protocol e = ControlProtocolError (pe_message e) (pe_code e)"

definition of_hub :: "hub_error \<Rightarrow> gw_error" where
  "of_hub e = (case e of
     HubProtocolError p \<Rightarrow> of_protocol p
   | ControlConnectionUnavailable m \<Rightarrow> OtherError m
   | ControlRequestError c \<Rightarrow> OtherError (err_message c)
   | _ \<Rightarrow> OtherError [])"

definition lift_error :: "('e \<Rightarrow> 'f) \<Rightarrow> ('e, 'a) result \<Rightarrow> ('f, 'a) result" where
  "lift_error f r = (case r of Inl e \<Rightarrow> Inl (f e) | Inr a \<Rightarrow> Inr a)"

definition route_jv :: "route_config \<Rightarrow> jv" where
  "route_jv r = JObj [(''match'', JStr (match_name (rc_match r))), (''value'', JStr (rc_value r)), (''url'', JStr (rc_url r))]"

definition register_routes :: "string \<Rightarrow> jv \<Rightarrow> server \<Rightarrow> (gw_error, server \<times> jv) result" where
  "register_routes connectionId params sv =
     rbind (lift_error (\<lambda>_. GatewayDrainingError) (assertAccepting (sv_life sv))) (\<lambda>_.
     rbind (lift_error of_protocol (parseRouteRegistrations params)) (\<lambda>routes.
     rbind (lift_error of_hub (setRoutes connectionId routes (sv_hub sv))) (\<lambda>(h, rs).
     Inr (sv\<lparr>sv_hub := h\<rparr>, JObj [(''routes'', JArr (map route_jv rs))]))))"

definition respond :: "string \<Rightarrow> string \<Rightarrow> (gw_error, jv) result \<Rightarrow> reply" where
  "respond connectionId i r =
     (connectionId, case r of Inr v \<Rightarrow> COk i v | Inl e \<Rightarrow> CFail i (errorForCommand e))"

definition finish :: "nat \<Rightarrow> server \<Rightarrow> server" where
  "finish t sv = sv\<lparr>sv_life := finishOperation t (sv_life sv), sv_running := odel t (sv_running sv)\<rparr>"

text \<open>
  \<open>handleRequest\<close> up to the \<open>await\<close>. The log context is built outside the \<open>try\<close>: when that throws,
  the caller only logs, and there is no response.
\<close>

definition handleRequest ::
  "(string \<Rightarrow> url option) \<Rightarrow> command_context \<Rightarrow> string \<Rightarrow> string \<Rightarrow> string \<Rightarrow> jv \<Rightarrow> server \<Rightarrow> server \<times> reply list" where
  "handleRequest url_parse cx connectionId i method params sv =
     (case scrubControlRequest url_parse (JStr i) method params of
        Inl _ \<Rightarrow> (sv, [])
      | Inr _ \<Rightarrow>
     (case beginOperation (sv_life sv) of
        Inl _ \<Rightarrow> (sv, [respond connectionId i (Inl GatewayDrainingError)])
      | Inr (life, t) \<Rightarrow>
          let sv1 = sv\<lparr>sv_life := life\<rparr>
          in if method = ''route.register''
             then (case register_routes connectionId params sv1 of
                     Inl e \<Rightarrow> (finish t sv1, [respond connectionId i (Inl e)])
                   | Inr (sv2, v) \<Rightarrow> (finish t sv2, [respond connectionId i (Inr v)]))
             else (case decode (cx\<lparr>cx_draining := isDraining life, cx_connection := Some connectionId\<rparr>) method params of
                     Inl e \<Rightarrow> (finish t sv1, [respond connectionId i (Inl e)])
                   | Inr c \<Rightarrow> (sv1\<lparr>sv_running := oset t \<lparr>rq_connection = connectionId, rq_id = i, rq_command = c\<rparr>
                                    (sv_running sv1)\<rparr>, []))))"

text \<open>The rest of \<open>handleRequest\<close>, when the command has returned or thrown.\<close>

definition commandDone :: "nat \<Rightarrow> (gw_error, jv) result \<Rightarrow> server \<Rightarrow> server \<times> reply list" where
  "commandDone t r sv =
     (case oget (sv_running sv) t of
        None \<Rightarrow> (sv, [])
      | Some q \<Rightarrow> (finish t sv, [respond (rq_connection q) (rq_id q) r]))"

definition protocol_reply :: "string \<Rightarrow> protocol_error \<Rightarrow> reply" where
  "protocol_reply connectionId e = (connectionId, CFail [] (makeControlError (pe_code e) (pe_message e) JUndef))"

definition handleMessage ::
  "(string \<Rightarrow> url option) \<Rightarrow> (string \<Rightarrow> (string, jv) result) \<Rightarrow> command_context \<Rightarrow> string \<Rightarrow> string \<Rightarrow> server
   \<Rightarrow> server \<times> hub_output list \<times> reply list" where
  "handleMessage url_parse json_parse cx connectionId raw sv =
     (case rbind (lift_error bad_message (json_parse raw)) parseControlMessage of
        Inl e \<Rightarrow> (sv, [], [protocol_reply connectionId e])
      | Inr m \<Rightarrow>
          (case m of
             CRequest i method params \<Rightarrow>
               (case handleRequest url_parse cx connectionId i method params sv of (sv', rs) \<Rightarrow> (sv', [], rs))
           | CEvent _ _ _ _ _ _ \<Rightarrow> (sv, [], [])
           | _ \<Rightarrow> (case handleResponse connectionId m (sv_hub sv) of (h, outs, _) \<Rightarrow> (sv\<lparr>sv_hub := h\<rparr>, outs, []))))"

definition deliver :: "bool \<Rightarrow> hub \<Rightarrow> reply \<Rightarrow> hub_output list" where
  "deliver send_ok h r = fst (sendRaw send_ok (fst r) (snd r) h)"

section \<open>The invariant\<close>

text \<open>Every running request holds a live handle of the lifecycle, a handle of its own.\<close>

definition server_inv :: "server \<Rightarrow> bool" where
  "server_inv sv \<longleftrightarrow> balanced (sv_life sv) \<and> owf (sv_running sv) \<and> hub_inv (sv_hub sv)
     \<and> set (okeys (sv_running sv)) \<subseteq> live_handles (sv_life sv)"

definition empty_server :: server where
  "empty_server = \<lparr>sv_hub = empty_hub, sv_life = new_lifecycle, sv_running = []\<rparr>"

lemma empty_server_inv: "server_inv empty_server"
  using empty_hub_inv new_lifecycle_inv by (simp add: server_inv_def empty_server_def lifecycle_inv_def)

lemma finish_server_inv:
  assumes "server_inv sv" shows "server_inv (finish t sv)"
  using assms finish_balanced [of "sv_life sv" t] live_finish [of t "sv_life sv"]
  by (auto simp: server_inv_def finish_def om.keys_del simp del: set_map)

lemma register_routes_frame:
  assumes "register_routes c p sv = Inr (sv', v)"
  shows "sv_life sv' = sv_life sv \<and> sv_running sv' = sv_running sv \<and> (hub_inv (sv_hub sv) \<longrightarrow> hub_inv (sv_hub sv'))"
  using assms setRoutes_inv
  by (auto simp: register_routes_def rbind_eq_Inr lift_error_def split: sum.splits prod.splits)

lemma begin_fresh:
  assumes "server_inv sv" and "beginOperation (sv_life sv) = Inr (life, t)"
  shows "server_inv (sv\<lparr>sv_life := life\<rparr>)" and "t \<in> live_handles life" and "t \<notin> set (okeys (sv_running sv))"
    and "finishOperation t life = life\<lparr>pendingOperations := pendingOperations (sv_life sv),
           finishedFlags := finishedFlags (sv_life sv) @ [True]\<rparr>"
proof -
  note l = live_begin [OF assms(2)]
  show "server_inv (sv\<lparr>sv_life := life\<rparr>)"
    using assms(1) begin_balanced [OF _ assms(2)] l by (auto simp: server_inv_def)
  show "t \<in> live_handles life" and "t \<notin> set (okeys (sv_running sv))"
    using assms(1) l by (auto simp: server_inv_def)
  show "finishOperation t life = life\<lparr>pendingOperations := pendingOperations (sv_life sv),
      finishedFlags := finishedFlags (sv_life sv) @ [True]\<rparr>"
    using assms(2) by (auto simp: beginOperation_def rbind_eq_Inr finishOperation_def)
qed


text \<open>
  The events of the server. A lifecycle event of another component cannot finish the handle of a
  running request: the closure is private to \<open>handleRequest\<close>.
\<close>

datatype server_event =
  Incoming command_context string string
| CommandReturned nat "(gw_error, jv) result"
| HubEvent hub_event
| LifeEvent lifecycle_event

fun server_step ::
  "(string \<Rightarrow> url option) \<Rightarrow> (string \<Rightarrow> (string, jv) result) \<Rightarrow> server \<Rightarrow> server_event \<Rightarrow> server" where
  "server_step up jp sv (Incoming cx c raw) = fst (handleMessage up jp cx c raw sv)"
| "server_step up jp sv (CommandReturned t r) = fst (commandDone t r sv)"
| "server_step up jp sv (HubEvent e) = sv\<lparr>sv_hub := hub_state up (sv_hub sv) e\<rparr>"
| "server_step up jp sv (LifeEvent e) =
     (case e of Finish t \<Rightarrow> if ohas (sv_running sv) t then sv else sv\<lparr>sv_life := lifecycle_state (sv_life sv) e\<rparr>
      | _ \<Rightarrow> sv\<lparr>sv_life := lifecycle_state (sv_life sv) e\<rparr>)"

lemma handleRequest_inv:
  assumes inv: "server_inv sv"
  shows "server_inv (fst (handleRequest up cx c i m p sv))"
proof (cases "scrubControlRequest up (JStr i) m p")
  case (Inr l)
  show ?thesis
  proof (cases "beginOperation (sv_life sv)")
    case b: (Inr r)
    obtain life t where r: "r = (life, t)" by (cases r)
    note f = begin_fresh [OF inv b [unfolded r]]
    let ?sv = "sv\<lparr>sv_life := life\<rparr>"
    have reg: "server_inv (finish t sv2)" if "register_routes c p ?sv = Inr (sv2, v)" for sv2 v
      using f(1) register_routes_frame [OF that] by (intro finish_server_inv) (auto simp: server_inv_def)
    have run: "server_inv (?sv\<lparr>sv_running := oset t q (sv_running ?sv)\<rparr>)" for q
      using f(1,2) by (auto simp: server_inv_def om.keys_put simp del: set_map)
    show ?thesis
      using Inr b r f(1) reg run finish_server_inv [OF f(1), of t]
      by (auto simp: handleRequest_def Let_def split: sum.splits prod.splits)
  qed (use Inr inv in \<open>simp add: handleRequest_def\<close>)
qed (use inv in \<open>simp add: handleRequest_def\<close>)

lemma life_event_live: "lifecycle_step s e = (s', outs) \<Longrightarrow> (\<And>t. e \<noteq> Finish t) \<Longrightarrow> live_handles s \<subseteq> live_handles s'"
  by (cases e) (auto simp: live_handles_def beginOperation_def drain_def poll_def deadline_def stop_def cleanup_over_def
      rbind_eq_Inr nth_append split: sum.splits if_splits)

lemma life_event_balanced: "balanced s \<Longrightarrow> balanced (lifecycle_state s e)"
  using begin_balanced finish_balanced
  by (cases e) (auto simp: drain_def poll_def deadline_def stop_def cleanup_over_def split: sum.split prod.split)

lemma server_step_inv:
  assumes inv: "server_inv sv"
  shows "server_inv (server_step up jp sv e)"
proof (cases e)
  case (Incoming cx c raw)
  have "server_inv (sv\<lparr>sv_hub := fst (handleResponse c m (sv_hub sv))\<rparr>)" for m
    using inv handleResponse_inv by (simp add: server_inv_def)
  then show ?thesis
    using Incoming inv handleRequest_inv [OF inv]
    by (auto simp: handleMessage_def case_prod_beta split: sum.split control_message.split)
next
  case (CommandReturned t r)
  with inv show ?thesis by (auto simp: commandDone_def finish_server_inv split: option.split)
next
  case (HubEvent ev)
  with inv hub_step_inv show ?thesis by (simp add: server_inv_def)
next
  case (LifeEvent ev)
  have b: "balanced (lifecycle_state (sv_life sv) ev)" using inv life_event_balanced by (simp add: server_inv_def)
  show ?thesis
  proof (cases "\<exists>t. ev = Finish t")
    case True
    then obtain t where t: "ev = Finish t" by blast
    show ?thesis
    proof (cases "ohas (sv_running sv) t")
      case False
      then have "t \<notin> set (okeys (sv_running sv))" unfolding ohas_keys .
      with inv b t live_finish [of t "sv_life sv"] have "server_inv (sv\<lparr>sv_life := lifecycle_state (sv_life sv) ev\<rparr>)"
        by (auto simp: server_inv_def simp del: set_map)
      with LifeEvent t False show ?thesis by simp
    qed (use LifeEvent t inv in simp)
  next
    case False
    have "live_handles (sv_life sv) \<subseteq> live_handles (lifecycle_state (sv_life sv) ev)"
      using False by (intro life_event_live [of _ _ _ "snd (lifecycle_step (sv_life sv) ev)"]) auto
    with inv b have "server_inv (sv\<lparr>sv_life := lifecycle_state (sv_life sv) ev\<rparr>)"
      by (auto simp: server_inv_def)
    with LifeEvent False show ?thesis by (cases ev) auto
  qed
qed

interpretation csrv: component "server_step up jp" server_inv
  by unfold_locales (rule server_step_inv)

definition server_run ::
  "(string \<Rightarrow> url option) \<Rightarrow> (string \<Rightarrow> (string, jv) result) \<Rightarrow> server_event list \<Rightarrow> server" where
  "server_run up jp es = foldl (server_step up jp) empty_server es"

lemma server_run_inv: "server_inv (server_run up jp es)"
  unfolding server_run_def by (rule csrv.run_inv) (rule empty_server_inv)

section \<open>Properties\<close>

definition answers :: "string \<Rightarrow> reply \<Rightarrow> bool" where
  "answers i r = (case snd r of COk j _ \<Rightarrow> j = i | CFail j _ \<Rightarrow> j = i | _ \<Rightarrow> False)"

lemma answers_respond [simp]: "answers i (respond c i r)"
  by (simp add: answers_def respond_def split: sum.split)

lemma fst_respond [simp]: "fst (respond c i r) = c"
  by (simp add: respond_def)

lemma finish_same:
  assumes "server_inv sv" "beginOperation (sv_life sv) = Inr (life, t)" "sv_running sv' = sv_running sv" "sv_life sv' = life"
  shows "sv_running (finish t sv') = sv_running sv" and "pendingOperations (sv_life (finish t sv')) = pendingOperations (sv_life sv)"
proof -
  note f = begin_fresh [OF assms(1,2)]
  have "\<not> ohas (sv_running sv) t" unfolding ohas_keys by (rule f(3))
  with assms(3) show "sv_running (finish t sv') = sv_running sv" by (simp add: finish_def odel_absent)
  show "pendingOperations (sv_life (finish t sv')) = pendingOperations (sv_life sv)"
    using assms(4) f(4) by (simp add: finish_def)
qed

lemma done_after_start:
  assumes "server_inv sv" "beginOperation (sv_life sv) = Inr (life, t)"
    "sv' = sv\<lparr>sv_life := life, sv_running := oset t q (sv_running sv)\<rparr>"
  shows "snd (commandDone t r sv') = [respond (rq_connection q) (rq_id q) r]"
    and "pendingOperations (sv_life (fst (commandDone t r sv'))) = pendingOperations (sv_life sv)"
    and "oget (sv_running (fst (commandDone t r sv'))) t = None"
  using assms(3) begin_fresh(4) [OF assms(1,2)] by (simp_all add: commandDone_def finish_def)

text \<open>A request answered at once, and a request whose only answer is the one its command will give.\<close>

definition answered_now :: "string \<Rightarrow> string \<Rightarrow> server \<Rightarrow> server \<times> reply list \<Rightarrow> bool" where
  "answered_now c i sv out \<longleftrightarrow>
     (\<exists>r. snd out = [r] \<and> fst r = c \<and> answers i r) \<and> sv_running (fst out) = sv_running sv
     \<and> pendingOperations (sv_life (fst out)) = pendingOperations (sv_life sv)"

definition answered_later :: "string \<Rightarrow> string \<Rightarrow> server \<Rightarrow> server \<times> reply list \<Rightarrow> bool" where
  "answered_later c i sv out \<longleftrightarrow>
     snd out = [] \<and> pendingOperations (sv_life (fst out)) = pendingOperations (sv_life sv) + 1
     \<and> (\<exists>t. oget (sv_running sv) t = None \<and> (\<forall>res. (\<exists>r. snd (commandDone t res (fst out)) = [r] \<and> fst r = c \<and> answers i r)
          \<and> pendingOperations (sv_life (fst (commandDone t res (fst out)))) = pendingOperations (sv_life sv)
          \<and> oget (sv_running (fst (commandDone t res (fst out)))) t = None))"

lemma answered_finish:
  assumes "server_inv sv" "beginOperation (sv_life sv) = Inr (life, t)" "sv_running sv2 = sv_running sv" "sv_life sv2 = life"
  shows "answered_now c i sv (finish t sv2, [respond c i r])"
  using finish_same [OF assms] by (simp add: answered_now_def)

lemma answered_running:
  assumes "server_inv sv" "beginOperation (sv_life sv) = Inr (life, t)"
  shows "answered_later c i sv
     (sv\<lparr>sv_life := life, sv_running := oset t \<lparr>rq_connection = c, rq_id = i, rq_command = cmd\<rparr> (sv_running sv)\<rparr>, [])"
proof -
  have "oget (sv_running sv) t = None" using begin_fresh(3) [OF assms] unfolding ohas_keys [symmetric] by simp
  moreover have "pendingOperations life = pendingOperations (sv_life sv) + 1"
    using assms(2) by (auto simp: beginOperation_def rbind_eq_Inr)
  ultimately show ?thesis
    using done_after_start [OF assms refl] unfolding answered_later_def
    by (intro conjI exI [of _ t] allI) simp_all
qed

lemma handleRequest_admitted:
  assumes inv: "server_inv sv" and b: "beginOperation (sv_life sv) = Inr (life, t)"
    and l: "scrubControlRequest up (JStr i) m p = Inr l"
  shows "answered_now c i sv (handleRequest up cx c i m p sv) \<or> answered_later c i sv (handleRequest up cx c i m p sv)"
proof (cases "m = ''route.register''")
  case True
  show ?thesis
  proof (cases "register_routes c p (sv\<lparr>sv_life := life\<rparr>)")
    case (Inl e)
    with True b l answered_finish [OF inv b, of "sv\<lparr>sv_life := life\<rparr>"] show ?thesis
      by (simp add: handleRequest_def Let_def)
  next
    case (Inr x)
    with True b l register_routes_frame [of c p "sv\<lparr>sv_life := life\<rparr>"] answered_finish [OF inv b, of "fst x"] show ?thesis
      by (cases x) (simp add: handleRequest_def Let_def)
  qed
next
  case False
  show ?thesis
  proof (cases "decode (cx\<lparr>cx_draining := isDraining life, cx_connection := Some c\<rparr>) m p")
    case (Inl e)
    with False b l answered_finish [OF inv b, of "sv\<lparr>sv_life := life\<rparr>"] show ?thesis
      by (simp add: handleRequest_def Let_def)
  next
    case (Inr cmd)
    with False b l answered_running [OF inv b, of c i cmd] show ?thesis
      by (simp add: handleRequest_def Let_def)
  qed
qed


text \<open>
  A graceful shutdown waits for the control requests: in every reachable state in which some
  request is still awaited, polling does nothing, even when the media and SIP sides are idle.
\<close>

theorem graceful_stop_waits:
  "if sv_running (server_run up jp es) = [] then True
   else poll n (sv_life (server_run up jp es)) = (sv_life (server_run up jp es), [])"
proof -
  let ?sv = "server_run up jp es"
  have "0 < pendingOperations (sv_life ?sv)" if "sv_running ?sv \<noteq> []"
  proof -
    obtain t q rest where "sv_running ?sv = (t, q) # rest" using \<open>sv_running ?sv \<noteq> []\<close> by (metis list.exhaust surj_pair)
    then have "t \<in> set (okeys (sv_running ?sv))" by simp
    then have "t \<in> live_handles (sv_life ?sv)" using server_run_inv [of up jp es] by (auto simp: server_inv_def)
    moreover have "balanced (sv_life ?sv)" using server_run_inv [of up jp es] by (simp add: server_inv_def)
    ultimately show ?thesis
      using adm.bracket(2) [of "sv_life ?sv" _ t "sv_life ?sv" "live_handles (sv_life ?sv) - {t}"]
      by (auto simp: balanced_def card_gt_0_iff)
  qed
  then show ?thesis by (auto simp: poll_def)
qed

text \<open>
  When a token is configured and authentication is not switched off, an upgrade succeeds only for
  the control path, only with exactly the header \<open>Bearer\<close> and that token, and never while draining.
\<close>

theorem upgrade_needs_token:
  assumes "cc_auth_token cfg = Some t" "t \<noteq> []" "cc_auth_mode cfg \<noteq> Some ''none''"
  shows "upgrade cfg url header life = Upgraded \<longleftrightarrow>
     hd (split_on (CHR ''?'') (case url of Some u \<Rightarrow> u | None \<Rightarrow> [])) = cc_path cfg
     \<and> header = Some (''Bearer '' @ t) \<and> phase life = 0"
  using assms
  by (auto simp: upgrade_def isAuthorized_def truthy_opt_def phase_def Let_def split: option.splits)

theorem upgrade_needs_token_witness:
  "upgrade \<lparr>cc_path = ''/v1/control'', cc_auth_mode = None, cc_auth_token = Some ''s3''\<rparr> (Some ''/v1/control?x=1'')
     (Some ''Bearer s3'') new_lifecycle = Upgraded"
proof -
  have "phase new_lifecycle = 0" by (simp add: phase_def new_lifecycle_def)
  moreover have "hd (split_on (CHR ''?'') ''/v1/control?x=1'') = ''/v1/control''" by code_simp
  ultimately show ?thesis
    using upgrade_needs_token [of "\<lparr>cc_path = ''/v1/control'', cc_auth_mode = None, cc_auth_token = Some ''s3''\<rparr>" "''s3''"
        "Some ''/v1/control?x=1''" "Some ''Bearer s3''" new_lifecycle] by simp
qed

end
