(* ===== verification/EndpointCatalog.thy ===== *)
theory EndpointCatalog
  imports Routing
begin

text \<open>
  The endpoint catalog (\<open>src/endpoint-catalog.ts\<close>): how a catalog file is validated, and how the
  accepted view, its error and its file signature change when the file is read again.

  \<open>new URL\<close>, \<open>isIP\<close>, \<open>Date.parse\<close> and \<open>JSON.parse\<close> are arguments; a read of the file is a value of
  \<open>file_read\<close>. An error is its message.
\<close>

record media_backend =
  mb_id :: string
  mb_url :: string
  mb_httpUrl :: string
  mb_acceptNew :: "bool option"
  mb_serverName :: "string option"
  mb_recordingServerName :: "string option"
  mb_turnUrls :: "string list option"

record endpoint_catalog =
  ca_revision :: string
  ca_validUntil :: "string option"
  ca_backends :: "media_backend list"

section \<open>Validation\<close>

definition object :: "jv \<Rightarrow> string \<Rightarrow> (string, jv) result" where
  "object v label = (if is_record v then Inr v else Inl (label @ '' must be an object''))"

definition boundedString :: "jv \<Rightarrow> string \<Rightarrow> nat \<Rightarrow> (string, string) result" where
  "boundedString v label m =
     (case str_of v of
        None \<Rightarrow> Inl (label @ '' must be a bounded nonempty string'')
      | Some s \<Rightarrow> if s = [] \<or> length s > m \<or> list_ex (\<lambda>c. js_space c \<or> code c < 32) s
                  then Inl (label @ '' must be a bounded nonempty string'') else Inr s)"

definition validHost :: "(string \<Rightarrow> nat) \<Rightarrow> string \<Rightarrow> bool" where
  "validHost is_ip v \<longleftrightarrow> is_ip v \<noteq> 0 \<or> validHostname v"

definition optional_bounded :: "jv \<Rightarrow> string \<Rightarrow> nat \<Rightarrow> (string, string option) result" where
  "optional_bounded v label m =
     (if v = JUndef then Inr None else rbind (boundedString v label m) (\<lambda>s. Inr (Some s)))"

definition check_endpoint_url :: "url \<Rightarrow> string \<Rightarrow> string \<Rightarrow> bool \<Rightarrow> (string, unit) result" where
  "check_endpoint_url u label scheme allowPlaintext =
     rbind (guard (u_protocol u = scheme @ ''s:'' \<or> allowPlaintext \<and> u_protocol u = scheme @ '':'')
              (label @ '' requires a secure URL'')) (\<lambda>_.
     guard (u_pathname u = ''/'' \<and> u_search u = [] \<and> u_hash u = [] \<and> u_username u = [] \<and> u_password u = [])
       (label @ '' requires a root URL without credentials''))"

definition valid_name :: "(string \<Rightarrow> nat) \<Rightarrow> string option \<Rightarrow> bool" where
  "valid_name is_ip n = (case n of None \<Rightarrow> True | Some s \<Rightarrow> validHost is_ip s)"

definition endpoint ::
  "(string \<Rightarrow> url option) \<Rightarrow> (string \<Rightarrow> nat) \<Rightarrow> jv \<Rightarrow> string \<Rightarrow> string \<Rightarrow> bool \<Rightarrow> (string, string \<times> string option) result" where
  "endpoint url_parse is_ip v label scheme allowPlaintext =
     rbind (object v label) (\<lambda>entry.
     rbind (boundedString (fld entry ''url'') (label @ ''.url'') 2048) (\<lambda>text.
     rbind (require ''Invalid URL'' (url_parse text)) (\<lambda>u.
     rbind (check_endpoint_url u label scheme allowPlaintext) (\<lambda>_.
     rbind (optional_bounded (fld entry ''tlsServerName'') (label @ ''.tlsServerName'') 253) (\<lambda>serverName.
     rbind (guard (valid_name is_ip serverName) (label @ '' has an invalid TLS name'')) (\<lambda>_.
     Inr (u_href u, serverName)))))))"

text \<open>
  The ICE URL expression
  \<open>/^(stun|turn|turns):(\[[a-fA-F0-9:]+\]|[a-zA-Z0-9.-]+)(?::(\d+))?(?:\?transport=(udp|tcp))?$/\<close>:
  the host without brackets and the digits of the port.
\<close>

definition is_hex :: "char \<Rightarrow> bool" where
  "is_hex c \<longleftrightarrow> is_digit c \<or> 65 \<le> code c \<and> code c \<le> 70 \<or> 97 \<le> code c \<and> code c \<le> 102"

definition ice_host :: "string \<Rightarrow> (string \<times> string) option" where
  "ice_host s =
     (if s \<noteq> [] \<and> hd s = CHR ''[''
      then (let h = takeWhile (\<lambda>c. is_hex c \<or> c = CHR '':'') (tl s); rest = drop (length h) (tl s)
            in if h \<noteq> [] \<and> rest \<noteq> [] \<and> hd rest = CHR '']'' then Some (h, tl rest) else None)
      else (let h = takeWhile (\<lambda>c. is_alnum c \<or> c = CHR ''.'' \<or> c = CHR ''-'') s
            in if h \<noteq> [] then Some (h, drop (length h) s) else None))"

definition ice_port :: "string \<Rightarrow> string option \<times> string" where
  "ice_port s =
     (let p = takeWhile is_digit (tl s)
      in if s \<noteq> [] \<and> hd s = CHR '':'' \<and> p \<noteq> [] then (Some p, drop (length p) (tl s)) else (None, s))"

definition ice_match :: "string \<Rightarrow> (string \<times> string option) option" where
  "ice_match s =
     (let scheme = takeWhile (\<lambda>c. c \<noteq> CHR '':'') s
      in if scheme \<notin> set [''stun'', ''turn'', ''turns''] \<or> length scheme = length s then None
         else case ice_host (drop (Suc (length scheme)) s) of
                None \<Rightarrow> None
              | Some (host, rest) \<Rightarrow>
                  (case ice_port rest of (port, rest') \<Rightarrow>
                     if rest' \<in> set [[], ''?transport=udp'', ''?transport=tcp''] then Some (host, port) else None))"

definition port_ok :: "string option \<Rightarrow> bool" where
  "port_ok port = (case port of None \<Rightarrow> True | Some p \<Rightarrow> 1 \<le> read_nat p \<and> read_nat p \<le> 65535)"

definition parse_ice_url :: "(string \<Rightarrow> nat) \<Rightarrow> jv \<Rightarrow> (string, string) result" where
  "parse_ice_url is_ip candidate =
     rbind (boundedString candidate ''TURN URL'' 1024) (\<lambda>u.
     rbind (require ''Invalid ICE server URL'' (ice_match u)) (\<lambda>(host, port).
     rbind (guard (port_ok port) ''Invalid ICE server URL'') (\<lambda>_.
     rbind (guard (validHost is_ip host) ''Invalid ICE hostname or address'') (\<lambda>_. Inr u))))"

definition parseIceUrls :: "(string \<Rightarrow> nat) \<Rightarrow> jv \<Rightarrow> (string, string list) result" where
  "parseIceUrls is_ip v =
     (case arr_of v of
        None \<Rightarrow> Inl ''TURN URLs must be a nonempty array of at most 32 URLs''
      | Some xs \<Rightarrow>
          if xs = [] \<or> length xs > 32 then Inl ''TURN URLs must be a nonempty array of at most 32 URLs''
          else rmap (parse_ice_url is_ip) xs)"

definition backend_id_char :: "char \<Rightarrow> bool" where
  "backend_id_char c \<longleftrightarrow> is_alnum c \<or> c \<in> set ''._:-''"

definition ws_to_http :: "string \<Rightarrow> string" where
  "ws_to_http u = (if starts_with u ''ws'' then ''http'' @ drop 2 u else u)"

definition parse_backend ::
  "(string \<Rightarrow> url option) \<Rightarrow> (string \<Rightarrow> nat) \<Rightarrow> bool \<Rightarrow> string list \<Rightarrow> nat \<Rightarrow> jv \<Rightarrow> (string, media_backend) result" where
  "parse_backend url_parse is_ip allowPlaintext taken index v =
     rbind (object v (''backend '' @ show_nat index)) (\<lambda>entry.
     rbind (boundedString (fld entry ''id'') ''backend ID'' 127) (\<lambda>i.
     rbind (guard (list_all backend_id_char i \<and> i \<notin> set taken) ''Invalid or duplicate backend ID'') (\<lambda>_.
     rbind (require ''Backend acceptNew must be boolean'' (bool_of (fld entry ''acceptNew''))) (\<lambda>acceptNew.
         rbind (endpoint url_parse is_ip (fld entry ''control'') ''control'' ''ws'' allowPlaintext) (\<lambda>(url, serverName).
         rbind (if fld entry ''recordings'' = JUndef then Inr (ws_to_http url, serverName)
                else endpoint url_parse is_ip (fld entry ''recordings'') ''recordings'' ''http'' allowPlaintext) (\<lambda>(rurl, rname).
         rbind (if fld entry ''turn'' = JUndef then Inr None
                else rbind (object (fld entry ''turn'') ''turn'') (\<lambda>turn.
                     rbind (parseIceUrls is_ip (fld turn ''urls'')) (\<lambda>us. Inr (Some us)))) (\<lambda>turnUrls.
         Inr \<lparr>mb_id = i, mb_url = url, mb_httpUrl = rurl, mb_acceptNew = Some acceptNew, mb_serverName = serverName,
              mb_recordingServerName = rname, mb_turnUrls = turnUrls\<rparr>)))))))"

fun parse_backends ::
  "(string \<Rightarrow> url option) \<Rightarrow> (string \<Rightarrow> nat) \<Rightarrow> bool \<Rightarrow> string list \<Rightarrow> nat \<Rightarrow> jv list \<Rightarrow> (string, media_backend list) result" where
  "parse_backends url_parse is_ip allowPlaintext taken index [] = Inr []"
| "parse_backends url_parse is_ip allowPlaintext taken index (v # vs) =
     rbind (parse_backend url_parse is_ip allowPlaintext taken index v) (\<lambda>b.
     rbind (parse_backends url_parse is_ip allowPlaintext (mb_id b # taken) (Suc index) vs) (\<lambda>bs. Inr (b # bs)))"

definition parseEndpointCatalog ::
  "(string \<Rightarrow> url option) \<Rightarrow> (string \<Rightarrow> nat) \<Rightarrow> (string \<Rightarrow> int option) \<Rightarrow> jv \<Rightarrow> bool \<Rightarrow> (string, endpoint_catalog) result" where
  "parseEndpointCatalog url_parse is_ip date_parse v allowPlaintext =
     rbind (object v ''catalog'') (\<lambda>source.
     rbind (guard (fld source ''schemaVersion'' = jint 1) ''Unsupported endpoint catalog schema version'') (\<lambda>_.
     rbind (boundedString (fld source ''revision'') ''revision'' 127) (\<lambda>revision.
     rbind (optional_bounded (fld source ''validUntil'') ''validUntil'' 253) (\<lambda>validUntil.
     rbind (guard (case validUntil of None \<Rightarrow> True | Some t \<Rightarrow> date_parse t \<noteq> None) ''Invalid catalog expiry'') (\<lambda>_.
     rbind (require ''Catalog must contain at most 128 backends'' (arr_of (fld source ''backends''))) (\<lambda>xs.
         rbind (guard (length xs \<le> 128) ''Catalog must contain at most 128 backends'') (\<lambda>_.
         rbind (parse_backends url_parse is_ip allowPlaintext [] 0 xs) (\<lambda>backends.
         Inr \<lparr>ca_revision = revision, ca_validUntil = validUntil, ca_backends = backends\<rparr>))))))))"

section \<open>The file\<close>

datatype raw_read = RawError string | Raw nat string

datatype file_read = OpenError string | Opened bool nat string raw_read

record file_catalog =
  fc_view :: "endpoint_catalog option"
  fc_error :: "string option"
  fc_signature :: "string option"

definition new_file_catalog :: file_catalog where
  "new_file_catalog = \<lparr>fc_view = None, fc_error = None, fc_signature = None\<rparr>"

definition unexpired :: "(string \<Rightarrow> int option) \<Rightarrow> endpoint_catalog \<Rightarrow> int \<Rightarrow> bool" where
  "unexpired date_parse c now =
     (case ca_validUntil c of None \<Rightarrow> True
      | Some t \<Rightarrow> (case date_parse t of None \<Rightarrow> False | Some e \<Rightarrow> e > now))"

text \<open>
  The \<open>try\<close> block of \<open>refresh\<close>: \<open>Inr None\<close> is the early return for an unchanged signature,
  \<open>Inr (Some (signature, candidate))\<close> an accepted replacement. The expiry of a parsed candidate is a
  finite time, so \<open>Date.parse(validUntil) <= now\<close> is the negation of \<open>unexpired\<close>.
\<close>

definition read_candidate ::
  "(string \<Rightarrow> url option) \<Rightarrow> (string \<Rightarrow> nat) \<Rightarrow> (string \<Rightarrow> int option) \<Rightarrow> (string \<Rightarrow> (string, jv) result) \<Rightarrow> bool
   \<Rightarrow> file_read \<Rightarrow> int \<Rightarrow> string option \<Rightarrow> (string, (string \<times> endpoint_catalog) option) result" where
  "read_candidate url_parse is_ip date_parse json_parse allowPlaintext file now signature =
     (case file of
        OpenError m \<Rightarrow> Inl m
      | Opened isFile bytes sig raw \<Rightarrow>
          if \<not> isFile \<or> bytes > 256 * 1024 then Inl ''Endpoint catalog must be a file of at most 256 KiB''
          else if signature = Some sig then Inr None
          else (case raw of
                  RawError m \<Rightarrow> Inl m
                | Raw len text \<Rightarrow>
                    rbind (guard (len \<le> 256 * 1024) ''Endpoint catalog exceeds size bound'') (\<lambda>_.
                    rbind (json_parse text) (\<lambda>v.
                    rbind (parseEndpointCatalog url_parse is_ip date_parse v allowPlaintext) (\<lambda>candidate.
                    rbind (guard (unexpired date_parse candidate now) ''Endpoint catalog replacement has expired'') (\<lambda>_.
                    Inr (Some (sig, candidate))))))))"

definition refresh ::
  "(string \<Rightarrow> url option) \<Rightarrow> (string \<Rightarrow> nat) \<Rightarrow> (string \<Rightarrow> int option) \<Rightarrow> (string \<Rightarrow> (string, jv) result) \<Rightarrow> bool
   \<Rightarrow> file_read \<Rightarrow> int \<Rightarrow> file_catalog \<Rightarrow> file_catalog" where
  "refresh url_parse is_ip date_parse json_parse allowPlaintext file now st =
     (case read_candidate url_parse is_ip date_parse json_parse allowPlaintext file now (fc_signature st) of
        Inl m \<Rightarrow> st\<lparr>fc_error := Some m\<rparr>
      | Inr None \<Rightarrow> st
      | Inr (Some (sig, c)) \<Rightarrow> st\<lparr>fc_view := Some c, fc_signature := Some sig, fc_error := None\<rparr>)"

record catalog_snapshot =
  sn_valid :: bool
  sn_revision :: "string option"
  sn_validUntil :: "string option"
  sn_eligible :: nat
  sn_error :: "string option"
  sn_backends :: "media_backend list"

definition snapshot_of :: "(string \<Rightarrow> int option) \<Rightarrow> int \<Rightarrow> file_catalog \<Rightarrow> catalog_snapshot" where
  "snapshot_of date_parse now st =
     (let valid = (case fc_view st of None \<Rightarrow> False | Some c \<Rightarrow> unexpired date_parse c now);
          backends = (case fc_view st of None \<Rightarrow> [] | Some c \<Rightarrow> ca_backends c)
      in \<lparr>sn_valid = valid,
          sn_revision = map_option ca_revision (fc_view st),
          sn_validUntil = Option.bind (fc_view st) ca_validUntil,
          sn_eligible = (if valid then length (filter (\<lambda>b. mb_acceptNew b = Some True) backends) else 0),
          sn_error = fc_error st,
          sn_backends = backends\<rparr>)"

text \<open>The getter reads the file again first; its two readings of the clock are \<open>now\<close> and \<open>now'\<close>.\<close>

definition catalog_snapshot_at ::
  "(string \<Rightarrow> url option) \<Rightarrow> (string \<Rightarrow> nat) \<Rightarrow> (string \<Rightarrow> int option) \<Rightarrow> (string \<Rightarrow> (string, jv) result) \<Rightarrow> bool
   \<Rightarrow> file_read \<Rightarrow> int \<Rightarrow> int \<Rightarrow> file_catalog \<Rightarrow> file_catalog \<times> catalog_snapshot" where
  "catalog_snapshot_at url_parse is_ip date_parse json_parse allowPlaintext file now now' st =
     (let st' = refresh url_parse is_ip date_parse json_parse allowPlaintext file now st
      in (st', snapshot_of date_parse now' st'))"


section \<open>Properties\<close>

text \<open>What an endpoint URL of a parsed catalog is: an accepted root URL of the right scheme.\<close>

definition secure_root :: "(string \<Rightarrow> url option) \<Rightarrow> string \<Rightarrow> bool \<Rightarrow> string \<Rightarrow> bool" where
  "secure_root url_parse scheme allowPlaintext u \<longleftrightarrow>
     (\<exists>text p. url_parse text = Some p \<and> u = u_href p
        \<and> (u_protocol p = scheme @ ''s:'' \<or> allowPlaintext \<and> u_protocol p = scheme @ '':'')
        \<and> u_pathname p = ''/'' \<and> u_search p = [] \<and> u_hash p = [] \<and> u_username p = [] \<and> u_password p = [])"

definition valid_ice_url :: "(string \<Rightarrow> nat) \<Rightarrow> string \<Rightarrow> bool" where
  "valid_ice_url is_ip u = (case ice_match u of None \<Rightarrow> False
     | Some (host, port) \<Rightarrow> validHost is_ip host \<and> port_ok port)"

definition valid_backend :: "(string \<Rightarrow> url option) \<Rightarrow> (string \<Rightarrow> nat) \<Rightarrow> bool \<Rightarrow> media_backend \<Rightarrow> bool" where
  "valid_backend url_parse is_ip allow b \<longleftrightarrow>
     mb_id b \<noteq> [] \<and> length (mb_id b) \<le> 127 \<and> list_all backend_id_char (mb_id b) \<and> mb_acceptNew b \<noteq> None
     \<and> secure_root url_parse ''ws'' allow (mb_url b)
     \<and> (mb_httpUrl b = ws_to_http (mb_url b) \<or> secure_root url_parse ''http'' allow (mb_httpUrl b))
     \<and> valid_name is_ip (mb_serverName b) \<and> valid_name is_ip (mb_recordingServerName b)
     \<and> (case mb_turnUrls b of None \<Rightarrow> True
        | Some us \<Rightarrow> 1 \<le> length us \<and> length us \<le> 32 \<and> list_all (valid_ice_url is_ip) us)"

lemma boundedString_ok: "boundedString v l m = Inr s \<Longrightarrow> s \<noteq> [] \<and> length s \<le> m"
  by (auto simp: boundedString_def split: option.splits if_splits)

lemma endpoint_ok:
  "endpoint url_parse is_ip v l scheme allow = Inr (u, n) \<Longrightarrow> secure_root url_parse scheme allow u \<and> valid_name is_ip n"
  by (auto simp: endpoint_def check_endpoint_url_def rbind_eq_Inr secure_root_def)

lemma parse_ice_url_ok: "parse_ice_url is_ip v = Inr u \<Longrightarrow> valid_ice_url is_ip u"
  by (auto simp: parse_ice_url_def rbind_eq_Inr valid_ice_url_def)

lemma parseIceUrls_ok: "parseIceUrls is_ip v = Inr us \<Longrightarrow> 1 \<le> length us \<and> length us \<le> 32 \<and> list_all (valid_ice_url is_ip) us"
proof -
  assume "parseIceUrls is_ip v = Inr us"
  then obtain xs where xs: "xs \<noteq> []" "length xs \<le> 32" and r: "rmap (parse_ice_url is_ip) xs = Inr us"
    by (auto simp: parseIceUrls_def split: option.splits if_splits)
  have "length us = length xs" using r by (rule rmap_Inr_length)
  moreover have "valid_ice_url is_ip u" if "u \<in> set us" for u
    using rmap_Inr_set [OF r that] parse_ice_url_ok by blast
  ultimately show ?thesis using xs by (cases xs) (auto simp: list_all_iff)
qed

lemma parse_backend_ok:
  assumes "parse_backend url_parse is_ip allow taken index v = Inr b"
  shows "valid_backend url_parse is_ip allow b \<and> mb_id b \<notin> set taken"
proof -
  obtain e i acc u n ru rn t where
    i: "boundedString (fld e ''id'') ''backend ID'' 127 = Inr i" "list_all backend_id_char i" "i \<notin> set taken"
    and c: "endpoint url_parse is_ip (fld e ''control'') ''control'' ''ws'' allow = Inr (u, n)"
    and r: "(if fld e ''recordings'' = JUndef then Inr (ws_to_http u, n)
        else endpoint url_parse is_ip (fld e ''recordings'') ''recordings'' ''http'' allow) = Inr (ru, rn)"
    and t: "(if fld e ''turn'' = JUndef then Inr None
        else rbind (object (fld e ''turn'') ''turn'') (\<lambda>turn. rbind (parseIceUrls is_ip (fld turn ''urls'')) (\<lambda>us. Inr (Some us)))) = Inr t"
    and b: "b = \<lparr>mb_id = i, mb_url = u, mb_httpUrl = ru, mb_acceptNew = Some acc, mb_serverName = n,
        mb_recordingServerName = rn, mb_turnUrls = t\<rparr>"
    using assms by (auto simp: parse_backend_def rbind_eq_Inr split: option.splits prod.splits)
  have "ru = ws_to_http u \<and> rn = n \<or> secure_root url_parse ''http'' allow ru \<and> valid_name is_ip rn"
    using r endpoint_ok by (fastforce split: if_splits)
  moreover have "case t of None \<Rightarrow> True | Some us \<Rightarrow> 1 \<le> length us \<and> length us \<le> 32 \<and> list_all (valid_ice_url is_ip) us"
    using t parseIceUrls_ok by (fastforce simp: rbind_eq_Inr split: if_splits)
  ultimately show ?thesis
    using i c b boundedString_ok [OF i(1)] endpoint_ok [OF c] by (auto simp: valid_backend_def)
qed

lemma parse_backends_ok:
  "parse_backends url_parse is_ip allow taken index vs = Inr bs \<Longrightarrow>
   length bs = length vs \<and> list_all (valid_backend url_parse is_ip allow) bs
   \<and> distinct (map mb_id bs) \<and> set (map mb_id bs) \<inter> set taken = {}"
proof (induction vs arbitrary: taken index bs)
  case (Cons v vs)
  then obtain b cs where b: "parse_backend url_parse is_ip allow taken index v = Inr b"
    and cs: "parse_backends url_parse is_ip allow (mb_id b # taken) (Suc index) vs = Inr cs" and bs: "bs = b # cs"
    by (auto simp: rbind_eq_Inr)
  from Cons.IH [OF cs] parse_backend_ok [OF b] bs show ?case by auto
qed simp

text \<open>
  C24. Every catalog the parser accepts is safe to route media by: at most 128 backends with distinct
  identifiers made of harmless characters, control and recording URLs that are credential-free roots
  of a secure scheme unless plaintext was allowed, valid TLS names, and 1 to 32 well-formed ICE URLs
  where any are given; its expiry, when it has one, is a date.
\<close>

theorem parsed_catalog_valid:
  assumes "parseEndpointCatalog url_parse is_ip date_parse v allow = Inr c"
  shows "length (ca_backends c) \<le> 128 \<and> distinct (map mb_id (ca_backends c))
       \<and> list_all (valid_backend url_parse is_ip allow) (ca_backends c)
       \<and> (case ca_validUntil c of None \<Rightarrow> True | Some t \<Rightarrow> \<exists>e. date_parse t = Some e)"
proof -
  obtain xs bs where xs: "length xs \<le> 128" and bs: "parse_backends url_parse is_ip allow [] 0 xs = Inr bs"
    and c: "ca_backends c = bs" and d: "case ca_validUntil c of None \<Rightarrow> True | Some t \<Rightarrow> \<exists>e. date_parse t = Some e"
    using assms by (auto simp: parseEndpointCatalog_def rbind_eq_Inr split: option.splits)
  from parse_backends_ok [OF bs] xs c d show ?thesis by simp
qed

definition sample_url_parse :: "string \<Rightarrow> url option" where
  "sample_url_parse s = (if s = ''wss://a:1/'' then Some \<lparr>u_protocol = ''wss:'', u_hostname = ''a'', u_pathname = ''/'',
     u_search = [], u_hash = [], u_username = [], u_password = [], u_query_keys = [], u_href = s\<rparr> else None)"

definition sample_backends :: "jv list" where
  "sample_backends = [JObj [(''id'', JStr ''a''), (''acceptNew'', JBool True),
     (''control'', JObj [(''url'', JStr ''wss://a:1/'')]), (''turn'', JObj [(''urls'', JArr [JStr ''turn:a.b?transport=udp''])])]]"

definition sample_catalog :: jv where
  "sample_catalog = JObj [(''schemaVersion'', jint 1), (''revision'', JStr ''r1''), (''validUntil'', JStr ''soon''),
     (''backends'', JArr sample_backends)]"

definition sample_date_parse :: "string \<Rightarrow> int option" where
  "sample_date_parse s = (if s = ''soon'' then Some 1000 else None)"

definition sample_parsed :: endpoint_catalog where
  "sample_parsed = \<lparr>ca_revision = ''r1'', ca_validUntil = Some ''soon'', ca_backends = [\<lparr>mb_id = ''a'', mb_url = ''wss://a:1/'',
     mb_httpUrl = ''https://a:1/'', mb_acceptNew = Some True, mb_serverName = None, mb_recordingServerName = None,
     mb_turnUrls = Some [''turn:a.b?transport=udp'']\<rparr>]\<rparr>"

lemma sample_parses: "parseEndpointCatalog sample_url_parse (\<lambda>s. 0) sample_date_parse sample_catalog False = Inr sample_parsed"
proof -
  have i: "boundedString (JStr ''a'') ''backend ID'' 127 = Inr ''a''" "backend_id_char (CHR ''a'')"
    and e: "endpoint sample_url_parse (\<lambda>s. 0) (JObj [(''url'', JStr ''wss://a:1/'')]) ''control'' ''ws'' False
        = Inr (''wss://a:1/'', None)"
    and t: "parse_ice_url (\<lambda>s. 0) (JStr ''turn:a.b?transport=udp'') = Inr ''turn:a.b?transport=udp''"
    and w: "ws_to_http ''wss://a:1/'' = ''https://a:1/''"
    by code_simp+
  have b: "parse_backends sample_url_parse (\<lambda>s. 0) False [] 0 sample_backends = Inr (ca_backends sample_parsed)"
    by (simp add: sample_backends_def sample_parsed_def parse_backend_def object_def i e w parseIceUrls_def t)
  have r: "boundedString (JStr ''r1'') ''revision'' 127 = Inr ''r1''"
    and u: "optional_bounded (JStr ''soon'') ''validUntil'' 253 = Inr (Some ''soon'')"
    by code_simp+
  show ?thesis
    using b by (simp add: parseEndpointCatalog_def object_def sample_catalog_def r u sample_date_parse_def
        sample_parsed_def sample_backends_def)
qed

theorem parsed_catalog_valid_witness:
  "list_all (valid_backend sample_url_parse (\<lambda>s. 0) False) (ca_backends sample_parsed)"
  using parsed_catalog_valid [OF sample_parses] by blast

text \<open>A read is rejected when the \<open>try\<close> block throws.\<close>

definition rejected_read ::
  "(string \<Rightarrow> url option) \<Rightarrow> (string \<Rightarrow> nat) \<Rightarrow> (string \<Rightarrow> int option) \<Rightarrow> (string \<Rightarrow> (string, jv) result) \<Rightarrow> bool
   \<Rightarrow> string option \<Rightarrow> file_read \<times> int \<Rightarrow> bool" where
  "rejected_read url_parse is_ip date_parse json_parse allow signature = (\<lambda>(f, now).
     case read_candidate url_parse is_ip date_parse json_parse allow f now signature of Inl _ \<Rightarrow> True | Inr _ \<Rightarrow> False)"

definition refresh_run ::
  "(string \<Rightarrow> url option) \<Rightarrow> (string \<Rightarrow> nat) \<Rightarrow> (string \<Rightarrow> int option) \<Rightarrow> (string \<Rightarrow> (string, jv) result) \<Rightarrow> bool
   \<Rightarrow> file_catalog \<Rightarrow> (file_read \<times> int) list \<Rightarrow> file_catalog" where
  "refresh_run url_parse is_ip date_parse json_parse allow st reads =
     foldl (\<lambda>st (f, now). refresh url_parse is_ip date_parse json_parse allow f now st) st reads"

lemma refresh_run_rejected:
  "list_all (rejected_read url_parse is_ip date_parse json_parse allow (fc_signature st)) reads \<Longrightarrow>
   fc_view (refresh_run url_parse is_ip date_parse json_parse allow st reads) = fc_view st
   \<and> fc_signature (refresh_run url_parse is_ip date_parse json_parse allow st reads) = fc_signature st"
proof (induction reads arbitrary: st)
  case (Cons r rs)
  obtain f now where r: "r = (f, now)" by (cases r)
  let ?st = "refresh url_parse is_ip date_parse json_parse allow f now st"
  have s: "fc_signature ?st = fc_signature st \<and> fc_view ?st = fc_view st"
    using Cons.prems r by (auto simp: rejected_read_def refresh_def split: sum.splits)
  with Cons.prems Cons.IH [of ?st] r show ?case by (simp add: refresh_run_def)
qed (simp add: refresh_run_def rejected_read_def)

text \<open>
  Rejected replacements never extend the last accepted view: however many reads are rejected, the
  view served is the one accepted before, and from its own expiry on every snapshot is invalid and
  has no eligible backend.
\<close>

theorem rejected_reads_keep_expiry:
  assumes "list_all (rejected_read url_parse is_ip date_parse json_parse allow (fc_signature st)) reads"
    and "fc_view st = Some c" "ca_validUntil c = Some t" "date_parse t = Some expiry" "expiry \<le> now"
  shows "fc_view (refresh_run url_parse is_ip date_parse json_parse allow st reads) = Some c
       \<and> \<not> sn_valid (snapshot_of date_parse now (refresh_run url_parse is_ip date_parse json_parse allow st reads))
       \<and> sn_eligible (snapshot_of date_parse now (refresh_run url_parse is_ip date_parse json_parse allow st reads)) = 0"
  using refresh_run_rejected [OF assms(1)] assms(2-5)
  by (simp add: snapshot_of_def Let_def unexpired_def)

theorem rejected_reads_keep_expiry_witness:
  "\<not> sn_valid (snapshot_of sample_date_parse 1000
     (refresh_run sample_url_parse (\<lambda>s. 0) sample_date_parse (\<lambda>s. Inl ''bad'') False
       \<lparr>fc_view = Some sample_parsed, fc_error = None, fc_signature = Some ''1''\<rparr>
       [(Opened True 10 ''2'' (Raw 10 ''{''), 500), (OpenError ''ENOENT'', 600)]))"
proof -
  let ?st = "\<lparr>fc_view = Some sample_parsed, fc_error = None, fc_signature = Some ''1''\<rparr>"
  have "list_all (rejected_read sample_url_parse (\<lambda>s. 0) sample_date_parse (\<lambda>s. Inl ''bad'') False (fc_signature ?st))
      [(Opened True 10 ''2'' (Raw 10 ''{''), 500), (OpenError ''ENOENT'', 600)]"
    by (simp add: rejected_read_def read_candidate_def)
  from rejected_reads_keep_expiry [OF this, of sample_parsed "''soon''" 1000 1000] show ?thesis
    by (simp add: sample_parsed_def sample_date_parse_def)
qed

end
