(* ===== verification/MediaServers.thy ===== *)
theory MediaServers
  imports EndpointCatalog
begin

text \<open>
  The media server manager (\<open>src/media-server-manager.ts\<close>): which rtpbridge backend a call is pinned
  to, reference counts, the round robin over backends that accept sessions, the sweep of stale pins,
  and the discovery of backends by address, SRV or A records.

  DNS answers, the clock and the question whether a call is active are arguments. An \<open>async\<close>
  operation is split where it awaits: \<open>pickBackend\<close> is the synchronous part after the discovery, and
  \<open>createClient\<close> is a pick followed by a separate registration.
\<close>

record pin =
  pn_backend :: string
  pn_created :: int
  pn_refs :: nat

record media_manager =
  callToBackend :: "(string, pin) omap"
  nextBackendIndex :: nat

definition new_manager :: media_manager where
  "new_manager = \<lparr>callToBackend = [], nextBackendIndex = 0\<rparr>"

datatype manager_error = MediaBackendNotFound string | MediaBackendUnavailable string | HostRequired

definition CALL_BACKEND_TTL_MS :: int where
  "CALL_BACKEND_TTL_MS = 4 * 60 * 60 * 1000"

text \<open>An optional string that is absent or empty is falsy.\<close>

definition present :: "string option \<Rightarrow> string option" where
  "present s = (case s of None \<Rightarrow> None | Some t \<Rightarrow> if t = [] then None else Some t)"

section \<open>Pins\<close>

definition getBackendForCall :: "string \<Rightarrow> media_manager \<Rightarrow> string option" where
  "getBackendForCall c m = map_option pn_backend (oget (callToBackend m) c)"

definition put_pin :: "string \<Rightarrow> pin \<Rightarrow> media_manager \<Rightarrow> media_manager" where
  "put_pin c p m = m\<lparr>callToBackend := oset c p (callToBackend m)\<rparr>"

definition registerCall :: "int \<Rightarrow> string \<Rightarrow> string \<Rightarrow> media_manager \<Rightarrow> (manager_error, media_manager) result" where
  "registerCall now c b m =
     (case oget (callToBackend m) c of
        None \<Rightarrow> Inr (put_pin c \<lparr>pn_backend = b, pn_created = now, pn_refs = 1\<rparr> m)
      | Some p \<Rightarrow>
          if pn_backend p = b then Inr (put_pin c (p\<lparr>pn_refs := pn_refs p + 1, pn_created := now\<rparr>) m)
          else Inl (MediaBackendUnavailable ''Call is pinned to a different backend''))"

definition unregisterCall :: "(string \<Rightarrow> bool) \<Rightarrow> int \<Rightarrow> string \<Rightarrow> string option \<Rightarrow> media_manager \<Rightarrow> media_manager" where
  "unregisterCall isCallActive now c b m =
     (case oget (callToBackend m) c of
        None \<Rightarrow> m
      | Some p \<Rightarrow>
          if (case present b of None \<Rightarrow> False | Some x \<Rightarrow> pn_backend p \<noteq> x) then m
          else if pn_refs p > 1 then put_pin c (p\<lparr>pn_refs := pn_refs p - 1, pn_created := now\<rparr>) m
          else if isCallActive c then put_pin c (p\<lparr>pn_refs := 0, pn_created := now\<rparr>) m
          else m\<lparr>callToBackend := odel c (callToBackend m)\<rparr>)"

definition pinCall :: "int \<Rightarrow> string \<Rightarrow> string \<Rightarrow> media_manager \<Rightarrow> media_manager" where
  "pinCall now c b m =
     (case oget (callToBackend m) c of
        Some p \<Rightarrow> if pn_backend p = b then put_pin c (p\<lparr>pn_created := now\<rparr>) m
                  else put_pin c \<lparr>pn_backend = b, pn_created = now, pn_refs = 0\<rparr> m
      | None \<Rightarrow> put_pin c \<lparr>pn_backend = b, pn_created = now, pn_refs = 0\<rparr> m)"

definition stale :: "(string \<Rightarrow> bool) \<Rightarrow> int \<Rightarrow> string \<times> pin \<Rightarrow> bool" where
  "stale isCallActive now = (\<lambda>(c, p).
     \<not> pn_refs p > 0 \<and> \<not> now - pn_created p \<le> CALL_BACKEND_TTL_MS \<and> \<not> isCallActive c)"

definition sweepStaleEntries :: "(string \<Rightarrow> bool) \<Rightarrow> int \<Rightarrow> media_manager \<Rightarrow> media_manager" where
  "sweepStaleEntries isCallActive now m =
     m\<lparr>callToBackend := foldl (\<lambda>t e. if stale isCallActive now e then odel (fst e) t else t)
         (callToBackend m) (callToBackend m)\<rparr>"

section \<open>Selection\<close>

definition accepts_new :: "media_backend \<Rightarrow> bool" where
  "accepts_new b \<longleftrightarrow> mb_acceptNew b \<noteq> Some False"

definition selectBackend ::
  "media_backend list \<Rightarrow> string option \<Rightarrow> media_manager \<Rightarrow> (manager_error, media_manager \<times> media_backend) result" where
  "selectBackend backends preferredId m =
     (case present preferredId of
        Some i \<Rightarrow>
          (case find (\<lambda>b. mb_id b = i) backends of
             None \<Rightarrow> Inl (MediaBackendNotFound (''Pinned rtpbridge backend '' @ i @ '' not found''))
           | Some b \<Rightarrow> if accepts_new b then Inr (m, b)
                       else Inl (MediaBackendUnavailable ''Pinned rtpbridge backend is not admitting sessions''))
      | None \<Rightarrow>
          let accepting = filter accepts_new backends
          in if accepting = [] then Inl (MediaBackendUnavailable ''No rtpbridge backend accepts new sessions'')
             else Inr (m\<lparr>nextBackendIndex := (nextBackendIndex m + 1) mod length accepting\<rparr>,
                       accepting ! (nextBackendIndex m mod length accepting)))"

text \<open>
  \<open>pickBackend\<close> after the discovery: \<open>available\<close> is what the catalog's snapshot or the resolver gave.
\<close>

definition pickBackend ::
  "int \<Rightarrow> (manager_error, media_backend list) result \<Rightarrow> string option \<Rightarrow> string option \<Rightarrow> media_manager
   \<Rightarrow> (manager_error, media_manager \<times> media_backend) result" where
  "pickBackend now available backendId callId m =
     rbind available (\<lambda>backends.
       let pinnedId = (case present callId of None \<Rightarrow> None | Some c \<Rightarrow> getBackendForCall c m)
       in if (case (present pinnedId, present backendId) of (Some p, Some b) \<Rightarrow> p \<noteq> b | _ \<Rightarrow> False)
          then Inl (MediaBackendUnavailable ''Call is pinned to a different backend'')
          else rbind (selectBackend backends (case pinnedId of Some p \<Rightarrow> Some p | None \<Rightarrow> backendId) m) (\<lambda>(m', b).
               Inr (case present callId of None \<Rightarrow> m' | Some c \<Rightarrow> pinCall now c (mb_id b) m', b)))"

definition catalog_available :: "catalog_snapshot \<Rightarrow> (manager_error, media_backend list) result" where
  "catalog_available s =
     (if sn_valid s then Inr (sn_backends s)
      else Inl (MediaBackendUnavailable ''Endpoint catalog is unavailable or expired''))"

text \<open>The second half of \<open>createClient\<close>: the registration of the picked backend.\<close>

definition createClient_register ::
  "int \<Rightarrow> string option \<Rightarrow> media_backend \<Rightarrow> media_manager \<Rightarrow> (manager_error, media_manager) result" where
  "createClient_register now callId b m =
     (case present callId of None \<Rightarrow> Inr m | Some c \<Rightarrow> registerCall now c (mb_id b) m)"

section \<open>Discovery\<close>

definition backendFromHost :: "(string \<Rightarrow> nat) \<Rightarrow> string \<Rightarrow> nat \<Rightarrow> bool \<Rightarrow> media_backend" where
  "backendFromHost is_ip host port tls =
     (let authority = (if is_ip host = 6 then ''['' @ host @ '']'' else host) @ '':'' @ show_nat port
      in \<lparr>mb_id = host,
          mb_url = (if tls then ''wss'' else ''ws'') @ ''://'' @ authority,
          mb_httpUrl = (if tls then ''https'' else ''http'') @ ''://'' @ authority,
          mb_acceptNew = None, mb_serverName = None, mb_recordingServerName = None, mb_turnUrls = None\<rparr>)"

text \<open>
  The answers of the resolver: \<open>None\<close> when the lookup throws. The catalog is used when there is one.
\<close>

definition resolveBackends ::
  "(string \<Rightarrow> nat) \<Rightarrow> media_backend list option \<Rightarrow> string option \<Rightarrow> nat \<Rightarrow> bool
   \<Rightarrow> string list option \<Rightarrow> string list option \<Rightarrow> (manager_error, media_backend list) result" where
  "resolveBackends is_ip catalog rtpbridgeHost port tls srv a_records =
     (case catalog of Some bs \<Rightarrow> Inr bs
      | None \<Rightarrow>
     (case present rtpbridgeHost of None \<Rightarrow> Inl HostRequired
      | Some host \<Rightarrow>
          if is_ip host \<noteq> 0 then Inr [backendFromHost is_ip host port tls]
          else case srv of
                 Some (r # rs) \<Rightarrow> Inr (map (\<lambda>n. backendFromHost is_ip n port tls) (sort (map drop_final_dot (r # rs))))
               | _ \<Rightarrow> (case a_records of
                         Some ips \<Rightarrow> Inr (map (\<lambda>ip. backendFromHost is_ip ip port tls) (sort ips))
                       | None \<Rightarrow> Inr [backendFromHost is_ip host port tls])))"

definition srvName :: "string \<Rightarrow> string \<Rightarrow> string" where
  "srvName portName host = ''_'' @ portName @ ''._tcp.'' @ host"

definition resolveBackend :: "(manager_error, media_backend list) result \<Rightarrow> string \<Rightarrow> (manager_error, media_backend) result" where
  "resolveBackend available i =
     rbind available (\<lambda>backends. require (MediaBackendNotFound (''rtpbridge backend '' @ i @ '' not found''))
       (find (\<lambda>b. mb_id b = i) backends))"

text \<open>\<open>readiness\<close>: validity and the number of eligible backends.\<close>

definition manager_readiness :: "catalog_snapshot option \<Rightarrow> string option \<Rightarrow> bool \<times> nat" where
  "manager_readiness catalog rtpbridgeHost =
     (case catalog of Some s \<Rightarrow> (sn_valid s, sn_eligible s)
      | None \<Rightarrow> (present rtpbridgeHost \<noteq> None, if present rtpbridgeHost \<noteq> None then 1 else 0))"

section \<open>Runs\<close>

datatype manager_event =
  Pick int "media_backend list" "string option" "string option"
| Register int string string
| Unregister "string list" int string "string option"
| Sweep "string list" int

fun manager_step :: "media_manager \<Rightarrow> manager_event \<Rightarrow> media_manager" where
  "manager_step m (Pick now bs b c) = (case pickBackend now (Inr bs) b c m of Inl _ \<Rightarrow> m | Inr (m', _) \<Rightarrow> m')"
| "manager_step m (Register now c b) = (case registerCall now c b m of Inl _ \<Rightarrow> m | Inr m' \<Rightarrow> m')"
| "manager_step m (Unregister active now c b) = unregisterCall (\<lambda>x. x \<in> set active) now c b m"
| "manager_step m (Sweep active now) = sweepStaleEntries (\<lambda>x. x \<in> set active) now m"

definition named_event :: "manager_event \<Rightarrow> bool" where
  "named_event e = (case e of Pick _ bs _ _ \<Rightarrow> list_all (\<lambda>b. mb_id b \<noteq> []) bs | Register _ _ b \<Rightarrow> b \<noteq> [] | _ \<Rightarrow> True)"

definition manager_inv :: "media_manager \<Rightarrow> bool" where
  "manager_inv m \<longleftrightarrow> owf (callToBackend m) \<and> (\<forall>c b. getBackendForCall c m = Some b \<longrightarrow> b \<noteq> [])"

definition refs :: "string \<Rightarrow> media_manager \<Rightarrow> nat" where
  "refs c m = (case oget (callToBackend m) c of None \<Rightarrow> 0 | Some p \<Rightarrow> pn_refs p)"


section \<open>The interface of the pins\<close>

text \<open>
  What a media session relies on when it registers for a call and unregisters later: registrations
  are counted per call, and a call keeps its backend as long as a registration is left.
\<close>

locale backend_pins =
  fixes backend_of :: "'s \<Rightarrow> 'c \<Rightarrow> 'b option"
    and holds :: "'s \<Rightarrow> 'c \<Rightarrow> nat"
    and reg :: "'c \<Rightarrow> 'b \<Rightarrow> 's \<Rightarrow> ('e, 's) result"
    and unreg :: "'c \<Rightarrow> 'b \<Rightarrow> 's \<Rightarrow> 's"
  assumes reg_this: "reg c b s = Inr s' \<Longrightarrow> backend_of s' c = Some b \<and> holds s' c = Suc (holds s c)"
    and reg_conflict: "backend_of s c = Some b' \<Longrightarrow> b' \<noteq> b \<Longrightarrow> \<exists>e. reg c b s = Inl e"
    and reg_free: "backend_of s c = None \<or> backend_of s c = Some b \<Longrightarrow> \<exists>s'. reg c b s = Inr s'"
    and reg_other: "reg c b s = Inr s' \<Longrightarrow> d \<noteq> c \<Longrightarrow> backend_of s' d = backend_of s d \<and> holds s' d = holds s d"
    and unreg_this: "backend_of s c = Some b \<Longrightarrow> holds (unreg c b s) c = holds s c - 1"
    and unreg_keeps: "backend_of s c = Some b \<Longrightarrow> 1 < holds s c \<Longrightarrow> backend_of (unreg c b s) c = Some b"
    and unreg_other: "d \<noteq> c \<Longrightarrow> backend_of (unreg c b s) d = backend_of s d \<and> holds (unreg c b s) d = holds s d"
begin

lemma unreg_many:
  "backend_of s c = Some b \<Longrightarrow> n < holds s c \<Longrightarrow>
   backend_of ((unreg c b ^^ n) s) c = Some b \<and> holds ((unreg c b ^^ n) s) c = holds s c - n"
proof (induction n)
  case (Suc n)
  let ?s = "(unreg c b ^^ n) s"
  from Suc have h: "backend_of ?s c = Some b" "holds ?s c = holds s c - n" by simp_all
  with Suc.prems(2) have "1 < holds ?s c" by simp
  with unreg_this [OF h(1)] unreg_keeps [OF h(1)] h(2) show ?case by simp
qed simp

text \<open>Everyone who registers for a call while it is pinned gets the same backend.\<close>

lemma reg_agree: "reg c b s = Inr s' \<Longrightarrow> reg c b' s' = Inr s'' \<Longrightarrow> b' = b"
  using reg_this [of c b s s'] reg_conflict [of s' c b b'] by fastforce

lemma unreg_reg: "backend_of s c = Some b \<Longrightarrow> 0 < holds s c \<Longrightarrow> reg c b s = Inr s' \<Longrightarrow>
   backend_of (unreg c b s') c = Some b \<and> holds (unreg c b s') c = holds s c"
  using reg_this [of c b s s'] unreg_this [of s' c b] unreg_keeps [of s' c b] by simp

end

interpretation pins: backend_pins "\<lambda>m c. getBackendForCall c m" "\<lambda>m c. refs c m" "registerCall now"
  "\<lambda>c b. unregisterCall active now c (Some b)"
  by unfold_locales
    (auto simp: registerCall_def unregisterCall_def getBackendForCall_def refs_def put_pin_def present_def
      split: option.splits if_splits)

section \<open>Properties\<close>

lemma foldl_odel_if: "foldl (\<lambda>t e. if P e then odel (fst e) t else t) m es = foldl (\<lambda>t k. odel k t) m (map fst (filter P es))"
  by (induction es arbitrary: m) auto

lemma sweep_eq:
  assumes "owf (callToBackend m)"
  shows "callToBackend (sweepStaleEntries active now m) = filter (\<lambda>e. \<not> stale active now e) (callToBackend m)"
proof -
  have "c \<in> set (map fst (filter (stale active now) (callToBackend m))) \<longleftrightarrow> stale active now (c, p)"
    if "(c, p) \<in> set (callToBackend m)" for c p
    using assms that by (auto simp: image_iff dest: eq_key_imp_eq_value)
  then show ?thesis
    by (auto simp: sweepStaleEntries_def foldl_odel_if foldl_odel_filter intro!: filter_cong)
qed

lemma oget_filter: "owf m \<Longrightarrow> oget (filter P m) k = (case oget m k of Some p \<Rightarrow> if P (k, p) then Some p else None | None \<Rightarrow> None)"
proof (induction m)
  case (Cons q m)
  obtain i p where q: "q = (i, p)" by (cases q)
  with Cons.prems have "oget m i = None" by (simp add: map_of_eq_None_iff)
  with Cons q show ?case by (auto split: option.splits)
qed simp

lemma sweep_get: "owf (callToBackend m) \<Longrightarrow> oget (callToBackend (sweepStaleEntries active now m)) c =
   (case oget (callToBackend m) c of Some p \<Rightarrow> if stale active now (c, p) then None else Some p | None \<Rightarrow> None)"
  by (auto simp: sweep_eq oget_filter split: option.splits)

lemma pinCall_get: "oget (callToBackend (pinCall now c b m)) d =
   (if d = c then Some (case oget (callToBackend m) c of
       Some p \<Rightarrow> if pn_backend p = b then p\<lparr>pn_created := now\<rparr> else \<lparr>pn_backend = b, pn_created = now, pn_refs = 0\<rparr>
     | None \<Rightarrow> \<lparr>pn_backend = b, pn_created = now, pn_refs = 0\<rparr>)
    else oget (callToBackend m) d)"
  by (auto simp: pinCall_def put_pin_def split: option.splits)

lemma selectBackend_ok:
  assumes "selectBackend bs pref m = Inr (m', b)"
  shows "b \<in> set bs \<and> accepts_new b \<and> callToBackend m' = callToBackend m
     \<and> (case present pref of None \<Rightarrow> True | Some i \<Rightarrow> mb_id b = i)"
proof (cases "present pref")
  case None
  then have "filter accepts_new bs \<noteq> []"
    and b: "b = filter accepts_new bs ! (nextBackendIndex m mod length (filter accepts_new bs))"
    and m: "callToBackend m' = callToBackend m"
    using assms by (auto simp: selectBackend_def Let_def split: if_splits)
  then have "b \<in> set (filter accepts_new bs)" using nth_mem [of _ "filter accepts_new bs"] by simp
  with m None show ?thesis by simp
next
  case (Some i)
  with assms show ?thesis
    by (auto simp: selectBackend_def find_first split: option.splits if_splits)
qed

text \<open>
  A backend that is picked is one of the discovered ones and admits new sessions. It is the one
  the caller asked for, where it asked; for a call that was pinned it is the pinned one, and for a
  call that was not, the call is pinned to it, so that concurrent picks for one call agree.
\<close>

theorem pickBackend_respects_pin:
  assumes "pickBackend now (Inr bs) backendId callId m = Inr (m', b)" and "manager_inv m"
  shows "b \<in> set bs \<and> accepts_new b
     \<and> (case present backendId of None \<Rightarrow> True | Some i \<Rightarrow> mb_id b = i)
     \<and> (case present callId of None \<Rightarrow> callToBackend m' = callToBackend m
        | Some c \<Rightarrow> getBackendForCall c m' = Some (mb_id b) \<and> refs c m' = refs c m
            \<and> (case getBackendForCall c m of None \<Rightarrow> True | Some p \<Rightarrow> mb_id b = p))"
proof -
  let ?pin = "case present callId of None \<Rightarrow> None | Some c \<Rightarrow> getBackendForCall c m"
  obtain m1 where sel: "selectBackend bs (case ?pin of Some p \<Rightarrow> Some p | None \<Rightarrow> backendId) m = Inr (m1, b)"
    and m': "m' = (case present callId of None \<Rightarrow> m1 | Some c \<Rightarrow> pinCall now c (mb_id b) m1)"
    and agree: "\<not> (case (present ?pin, present backendId) of (Some p, Some b) \<Rightarrow> p \<noteq> b | _ \<Rightarrow> False)"
    using assms(1) by (auto simp: pickBackend_def Let_def rbind_eq_Inr split: if_splits)
  have ne: "getBackendForCall c m = Some p \<Longrightarrow> p \<noteq> []" for c p
    using assms(2) by (simp add: manager_inv_def)
  note s = selectBackend_ok [OF sel]
  show ?thesis
  proof (cases "present callId")
    case None
    with s m' show ?thesis by simp
  next
    case (Some c)
    show ?thesis
    proof (cases "getBackendForCall c m")
      case None
      with s m' Some show ?thesis
        by (auto simp: getBackendForCall_def refs_def pinCall_get)
    next
      case pinned: (Some p)
      with ne have "present (Some p) = Some p" by (auto simp: present_def)
      with s m' Some pinned agree show ?thesis
        by (auto simp: getBackendForCall_def refs_def pinCall_get split: option.splits)
    qed
  qed
qed

definition sample_backend :: "string \<Rightarrow> bool option \<Rightarrow> media_backend" where
  "sample_backend i a = \<lparr>mb_id = i, mb_url = ''ws://'' @ i, mb_httpUrl = ''http://'' @ i, mb_acceptNew = a,
     mb_serverName = None, mb_recordingServerName = None, mb_turnUrls = None\<rparr>"

theorem pickBackend_respects_pin_witness:
  "\<exists>m'. pickBackend 5 (Inr [sample_backend ''a'' None, sample_backend ''b'' (Some True)]) None (Some ''c1'')
       \<lparr>callToBackend = [(''c1'', \<lparr>pn_backend = ''b'', pn_created = 1, pn_refs = 2\<rparr>)], nextBackendIndex = 0\<rparr>
     = Inr (m', sample_backend ''b'' (Some True)) \<and> refs ''c1'' m' = 2"
proof -
  let ?m = "\<lparr>callToBackend = [(''c1'', \<lparr>pn_backend = ''b'', pn_created = 1, pn_refs = 2\<rparr>)], nextBackendIndex = 0\<rparr>"
  obtain m' where p: "pickBackend 5 (Inr [sample_backend ''a'' None, sample_backend ''b'' (Some True)]) None (Some ''c1'') ?m
      = Inr (m', sample_backend ''b'' (Some True))"
    by (simp add: pickBackend_def selectBackend_def present_def getBackendForCall_def sample_backend_def accepts_new_def)
  have "manager_inv ?m" by (auto simp: manager_inv_def getBackendForCall_def split: if_splits)
  from pickBackend_respects_pin [OF p this] p show ?thesis by (auto simp: present_def refs_def)
qed

text \<open>The \<open>k\<close>-th of \<open>n\<close> successive selections without a preference.\<close>

fun selections :: "nat \<Rightarrow> media_backend list \<Rightarrow> media_manager \<Rightarrow> media_backend list" where
  "selections 0 bs m = []"
| "selections (Suc n) bs m = (case selectBackend bs None m of Inl _ \<Rightarrow> [] | Inr (m', b) \<Rightarrow> b # selections n bs m')"

lemma selections_nth:
  assumes "filter accepts_new bs \<noteq> []"
  shows "selections n bs m = map (\<lambda>k. filter accepts_new bs ! ((nextBackendIndex m + k) mod length (filter accepts_new bs))) [0..<n]"
proof (induction n arbitrary: m)
  case (Suc n)
  let ?a = "filter accepts_new bs"
  have "map (\<lambda>k. ?a ! (((nextBackendIndex m + 1) mod length ?a + k) mod length ?a)) [0..<n]
      = map (\<lambda>k. ?a ! ((nextBackendIndex m + Suc k) mod length ?a)) [0..<n]"
    by (simp add: mod_add_left_eq)
  then show ?case
    using assms Suc.IH by (simp add: selectBackend_def present_def Let_def map_upt_Suc del: upt_Suc)
qed simp

text \<open>
  The round robin is fair: from any position, as many successive selections as there are accepting
  backends give each accepting backend exactly once, in list order from where the last round stopped.
\<close>

theorem round_robin_fair:
  assumes "filter accepts_new bs \<noteq> []"
  shows "selections (length (filter accepts_new bs)) bs m
       = rotate (nextBackendIndex m mod length (filter accepts_new bs)) (filter accepts_new bs)"
proof (rule nth_equalityI)
  let ?a = "filter accepts_new bs"
  show "length (selections (length ?a) bs m) = length (rotate (nextBackendIndex m mod length ?a) ?a)"
    by (simp add: selections_nth [OF assms])
  fix k assume "k < length (selections (length ?a) bs m)"
  then have "k < length ?a" by (simp add: selections_nth [OF assms])
  then show "selections (length ?a) bs m ! k = rotate (nextBackendIndex m mod length ?a) ?a ! k"
    by (simp add: selections_nth [OF assms] nth_rotate mod_add_right_eq add.commute)
qed

theorem round_robin_fair_witness:
  "map mb_id (selections 2 [sample_backend ''a'' None, sample_backend ''x'' (Some False), sample_backend ''b'' (Some True)]
     (new_manager\<lparr>nextBackendIndex := 3\<rparr>)) = [''b'', ''a'']"
proof -
  let ?bs = "[sample_backend ''a'' None, sample_backend ''x'' (Some False), sample_backend ''b'' (Some True)]"
  have f: "filter accepts_new ?bs = [sample_backend ''a'' None, sample_backend ''b'' (Some True)]"
    by (simp add: accepts_new_def sample_backend_def)
  have ne: "filter accepts_new ?bs \<noteq> []" unfolding f by simp
  have "selections 2 ?bs (new_manager\<lparr>nextBackendIndex := 3\<rparr>)
      = rotate (3 mod 2) [sample_backend ''a'' None, sample_backend ''b'' (Some True)]"
    using round_robin_fair [OF ne, of "new_manager\<lparr>nextBackendIndex := 3\<rparr>"] unfolding f by (simp add: numeral_2_eq_2)
  then show ?thesis by (simp add: sample_backend_def)
qed

lemma put_pin_inv: "manager_inv m \<Longrightarrow> pn_backend p \<noteq> [] \<Longrightarrow> manager_inv (put_pin c p m)"
  by (auto simp: manager_inv_def put_pin_def getBackendForCall_def)

lemma manager_step_inv: "manager_inv m \<Longrightarrow> named_event e \<Longrightarrow> manager_inv (manager_step m e)"
proof (cases e)
  case (Pick now bs b c)
  assume inv: "manager_inv m" and n: "named_event e"
  show ?thesis
  proof (cases "pickBackend now (Inr bs) b c m")
    case (Inr r)
    obtain m' x where r: "r = (m', x)" by (cases r)
    obtain m1 pref where sel: "selectBackend bs pref m = Inr (m1, x)"
      and m': "m' = (case present c of None \<Rightarrow> m1 | Some d \<Rightarrow> pinCall now d (mb_id x) m1)"
      using Inr r by (auto simp: pickBackend_def Let_def rbind_eq_Inr split: if_splits)
    have "mb_id x \<noteq> []" using n Pick selectBackend_ok [OF sel] by (auto simp: named_event_def list_all_iff)
    moreover have "manager_inv m1" using inv selectBackend_ok [OF sel] by (simp add: manager_inv_def getBackendForCall_def)
    ultimately show ?thesis
      using Pick Inr r m' by (auto simp: pinCall_def intro!: put_pin_inv split: option.splits)
  qed (use inv Pick in simp)
next
  case (Register now c b)
  assume "manager_inv m" "named_event e"
  with Register show ?thesis
    by (auto simp: registerCall_def named_event_def intro!: put_pin_inv split: option.splits)
next
  case (Unregister active now c b)
  assume inv: "manager_inv m"
  then have "oget (callToBackend m) c = Some p \<Longrightarrow> pn_backend p \<noteq> []" for p
    by (auto simp: manager_inv_def getBackendForCall_def)
  with inv Unregister show ?thesis
    by (auto simp: unregisterCall_def intro!: put_pin_inv split: option.splits)
      (auto simp: manager_inv_def getBackendForCall_def split: if_splits)
next
  case (Sweep active now)
  assume inv: "manager_inv m"
  then have "owf (callToBackend m)" by (simp add: manager_inv_def)
  with inv Sweep show ?thesis
    by (auto simp: manager_inv_def getBackendForCall_def oget_filter sweep_eq distinct_map_filter split: option.splits if_splits)
qed

text \<open>The call's registrations after a step: one more, one less, or as before.\<close>

definition released :: "manager_event \<Rightarrow> string \<Rightarrow> pin \<Rightarrow> bool" where
  "released e c p = (case e of
     Unregister active now d b \<Rightarrow> d = c \<and> pn_refs p \<le> 1 \<and> c \<notin> set active
   | Sweep active now \<Rightarrow> stale (\<lambda>x. x \<in> set active) now (c, p)
   | _ \<Rightarrow> False)"

text \<open>
  Pins are stable: in every reachable state, no step moves a pinned call to another backend. A
  pin disappears only when its last registration is given back while the call is not active, or when
  the sweep finds it unreferenced, older than four hours and its call inactive.
\<close>

theorem pins_stable:
  assumes "list_all named_event (es @ [e])" and "oget (callToBackend (foldl manager_step new_manager es)) c = Some p"
  shows "if released e c p
         then getBackendForCall c (manager_step (foldl manager_step new_manager es) e) \<in> {None, Some (pn_backend p)}
         else getBackendForCall c (manager_step (foldl manager_step new_manager es) e) = Some (pn_backend p)"
proof -
  let ?m = "foldl manager_step new_manager es"
  have inv: "manager_inv ?m"
    using assms(1)
  proof (induction es rule: rev_induct)
    case (snoc x xs)
    then show ?case by (simp add: manager_step_inv)
  qed (simp add: manager_inv_def new_manager_def getBackendForCall_def)
  then have wf: "owf (callToBackend ?m)" by (simp add: manager_inv_def)
  have b: "getBackendForCall c ?m = Some (pn_backend p)" using assms(2) by (simp add: getBackendForCall_def)
  show ?thesis
  proof (cases e)
    case (Pick now bs i d)
    show ?thesis
    proof (cases "pickBackend now (Inr bs) i d ?m")
      case (Inr r)
      obtain m' x where r: "r = (m', x)" by (cases r)
      from Inr r obtain m1 pref where sel: "selectBackend bs pref ?m = Inr (m1, x)"
        and m': "m' = (case present d of None \<Rightarrow> m1 | Some d \<Rightarrow> pinCall now d (mb_id x) m1)"
        by (auto simp: pickBackend_def Let_def rbind_eq_Inr split: if_splits)
      have m1: "callToBackend m1 = callToBackend ?m" using selectBackend_ok [OF sel] by blast
      have "getBackendForCall c m' = Some (pn_backend p)"
      proof (cases "present d = Some c")
        case True
        with pickBackend_respects_pin [OF Inr [unfolded r] inv] b show ?thesis by simp
      next
        case False
        with m' b m1 show ?thesis by (auto simp: getBackendForCall_def pinCall_get split: option.splits)
      qed
      with Pick Inr r show ?thesis by (simp add: released_def)
    qed (use Pick b in \<open>simp add: released_def\<close>)
  next
    case (Register now d i)
    with b assms(2) show ?thesis
      by (auto simp: released_def registerCall_def getBackendForCall_def put_pin_def split: option.splits)
  next
    case (Unregister active now d i)
    with b assms(2) show ?thesis
      by (auto simp: released_def unregisterCall_def getBackendForCall_def put_pin_def split: option.splits)
  next
    case (Sweep active now)
    with assms(2) show ?thesis
      by (auto simp: released_def getBackendForCall_def sweep_get [OF wf])
  qed
qed

theorem pins_stable_witness:
  "getBackendForCall ''c1'' (manager_step (foldl manager_step new_manager
     [Pick 0 [sample_backend ''a'' None] None (Some ''c1''), Register 0 ''c1'' ''a'']) (Sweep [] 99999999)) = Some ''a''"
proof -
  let ?es = "[Pick 0 [sample_backend ''a'' None] None (Some ''c1''), Register 0 ''c1'' ''a'']"
  have n: "list_all named_event (?es @ [Sweep [] 99999999])" by (simp add: named_event_def sample_backend_def)
  have p: "oget (callToBackend (foldl manager_step new_manager ?es)) ''c1'' = Some \<lparr>pn_backend = ''a'', pn_created = 0, pn_refs = 1\<rparr>"
    by (simp add: pickBackend_def selectBackend_def present_def new_manager_def getBackendForCall_def accepts_new_def
        sample_backend_def pinCall_def put_pin_def registerCall_def)
  from pins_stable [OF n p] show ?thesis
    by (simp add: released_def stale_def)
qed

end
