(* ===== verification/RtpbridgeClient.thy ===== *)
theory RtpbridgeClient
  imports ControlLog Commands
begin

text \<open>
  The client of one rtpbridge connection (\<open>src/rtpbridge-client.ts\<close>): requests that wait for the
  socket, correlation of responses, timeouts, close handlers, and the translation of keys between
  camel case and snake case.

  UUIDs, the outcomes of \<open>ws.send\<close> and the socket's events are inputs. \<open>Crash\<close> is an exception that
  leaves the socket's message handler: nothing in the program catches it.
\<close>

section \<open>Keys\<close>

text \<open>\<open>key.replace(/[A-Z]/g, match => `_${match.toLowerCase()}`)\<close>\<close>

fun snake_key :: "string \<Rightarrow> string" where
  "snake_key [] = []"
| "snake_key (c # cs) = (if is_upper c then CHR ''_'' # to_lower c # snake_key cs else c # snake_key cs)"

text \<open>\<open>key.replace(/_([a-z])/g, (_match, char) => char.toUpperCase())\<close>\<close>

fun camel_key :: "string \<Rightarrow> string" where
  "camel_key [] = []"
| "camel_key [c] = [c]"
| "camel_key (c # d # cs) = (if c = CHR ''_'' \<and> is_lower d then to_upper d # camel_key cs else c # camel_key (d # cs))"

text \<open>Assigning the entries in order to a fresh object; \<open>__proto__\<close> is no own property then.\<close>

definition assign :: "(string \<times> jv) list \<Rightarrow> (string \<times> jv) list" where
  "assign es = foldl (\<lambda>acc (k, v). if k = ''__proto__'' then acc else oset k v acc) [] es"

definition toSnakeCase :: "(string \<times> jv) list \<Rightarrow> (string \<times> jv) list" where
  "toSnakeCase fs = assign (map (\<lambda>(k, v). (snake_key k, v)) fs)"

fun toCamelCase :: "jv \<Rightarrow> jv" and camel_list :: "jv list \<Rightarrow> jv list"
  and camel_fields :: "(string \<times> jv) list \<Rightarrow> (string \<times> jv) list" where
  "toCamelCase (JArr xs) = JArr (camel_list xs)"
| "toCamelCase (JObj fs) = JObj (assign (camel_fields fs))"
| "toCamelCase v = v"
| "camel_list [] = []"
| "camel_list (x # xs) = toCamelCase x # camel_list xs"
| "camel_fields [] = []"
| "camel_fields ((k, v) # fs) = (camel_key k, toCamelCase v) # camel_fields fs"

section \<open>The requests of the client\<close>

record file_params =
  fp_source :: string
  fp_loopCount :: "int option option"
  fp_startMs :: "int option"
  fp_timeoutMs :: "int option"
  fp_cacheTtlSecs :: "int option"
  fp_shared :: "bool option"
  fp_headers :: "sip_headers option"

datatype rtp_request =
  GetServerInfo
| RtpCreateSession
| RtpDestroySession string
| RtpCreateWebrtcOffer string "string option"
| RtpCreateWebrtcFromOffer string string "string option"
| RtpAcceptWebrtcAnswer string string "int option"
| RtpAcceptWebrtcOffer string string
| RtpIceRestart string
| RtpCreateRtpOffer string "string option" "bool option" "bool option" "string list option"
| RtpCreateRtpFromOffer string string "string option"
| RtpAcceptRtpAnswer string string
| RtpRtpReinvite string string
| RtpBridgeSession string "string option"
| RtpInjectDtmf string string
| RtpSetSensitiveDtmf string bool
| RtpCreateFileEndpoint string file_params
| RtpCreateToneEndpoint string string "int option" "int option"
| RtpRemoveEndpoint string
| RtpUpdateDirection string string
| RtpStartRecording string "string option" string
| RtpStopRecording string
| RtpStartVad string "int option" "rat option"
| RtpStopVad string

fun rtp_call :: "rtp_request \<Rightarrow> string \<times> (string \<times> jv) list" where
  "rtp_call GetServerInfo = (''server.info'', [])"
| "rtp_call RtpCreateSession = (''session.create'', [])"
| "rtp_call (RtpDestroySession s) = (''session.destroy'', [(''sessionId'', JStr s)])"
| "rtp_call (RtpCreateWebrtcOffer s d) =
     (''endpoint.webrtc.create_offer'', [(''sessionId'', JStr s), (''direction'', opt_str d)])"
| "rtp_call (RtpCreateWebrtcFromOffer s sdp d) =
     (''endpoint.webrtc.create_from_offer'', [(''sessionId'', JStr s), (''sdp'', JStr sdp), (''direction'', opt_str d)])"
| "rtp_call (RtpAcceptWebrtcAnswer e sdp g) =
     (''endpoint.webrtc.accept_answer'', [(''endpointId'', JStr e), (''sdp'', JStr sdp)]
        @ (case g of None \<Rightarrow> [] | Some n \<Rightarrow> [(''offerGeneration'', jint n)]))"
| "rtp_call (RtpAcceptWebrtcOffer e sdp) = (''endpoint.webrtc.accept_offer'', [(''endpointId'', JStr e), (''sdp'', JStr sdp)])"
| "rtp_call (RtpIceRestart e) = (''endpoint.webrtc.ice_restart'', [(''endpointId'', JStr e)])"
| "rtp_call (RtpCreateRtpOffer s d srtp opt codecs) =
     (''endpoint.rtp.create_offer'', [(''sessionId'', JStr s), (''direction'', opt_str d), (''srtp'', opt_bool srtp),
        (''srtpOptional'', opt_bool opt), (''codecs'', opt_strings codecs)])"
| "rtp_call (RtpCreateRtpFromOffer s sdp d) =
     (''endpoint.rtp.create_from_offer'', [(''sessionId'', JStr s), (''sdp'', JStr sdp), (''direction'', opt_str d)])"
| "rtp_call (RtpAcceptRtpAnswer e sdp) = (''endpoint.rtp.accept_answer'', [(''endpointId'', JStr e), (''sdp'', JStr sdp)])"
| "rtp_call (RtpRtpReinvite e sdp) = (''endpoint.rtp.reinvite'', [(''endpointId'', JStr e), (''sdp'', JStr sdp)])"
| "rtp_call (RtpBridgeSession t d) = (''session.bridge'', [(''targetSessionId'', JStr t), (''direction'', opt_str d)])"
| "rtp_call (RtpInjectDtmf e d) = (''endpoint.dtmf.inject'', [(''endpointId'', JStr e), (''digit'', JStr d)])"
| "rtp_call (RtpSetSensitiveDtmf e b) = (''endpoint.dtmf.set_sensitive'', [(''endpointId'', JStr e), (''enabled'', JBool b)])"
| "rtp_call (RtpCreateFileEndpoint s p) =
     (''endpoint.create_with_file'', [(''sessionId'', JStr s), (''source'', JStr (fp_source p)),
        (''loopCount'', opt_nullable (fp_loopCount p)), (''startMs'', opt_int (fp_startMs p)),
        (''timeoutMs'', opt_int (fp_timeoutMs p)), (''cacheTtlSecs'', opt_int (fp_cacheTtlSecs p)),
        (''shared'', opt_bool (fp_shared p)), (''headers'', headers_jv (fp_headers p))])"
| "rtp_call (RtpCreateToneEndpoint s t f d) =
     (''endpoint.create_tone'', [(''sessionId'', JStr s), (''tone'', JStr t), (''frequency'', opt_int f), (''durationMs'', opt_int d)])"
| "rtp_call (RtpRemoveEndpoint e) = (''endpoint.remove'', [(''endpointId'', JStr e)])"
| "rtp_call (RtpUpdateDirection e d) = (''endpoint.update_direction'', [(''endpointId'', JStr e), (''direction'', JStr d)])"
| "rtp_call (RtpStartRecording s e f) =
     (''recording.start'', [(''sessionId'', JStr s), (''endpointId'', opt_str e), (''filePath'', JStr f)])"
| "rtp_call (RtpStopRecording r) = (''recording.stop'', [(''recordingId'', JStr r)])"
| "rtp_call (RtpStartVad e q t) =
     (''vad.start'', [(''endpointId'', JStr e), (''silenceIntervalMs'', opt_int q), (''speechThreshold'', opt_rat t)])"
| "rtp_call (RtpStopVad e) = (''vad.stop'', [(''endpointId'', JStr e)])"

text \<open>The check \<open>createSession\<close> makes on the response.\<close>

definition createdSession :: "jv \<Rightarrow> (string, string) result" where
  "createdSession response =
     (case str_of (fld response ''sessionId'') of
        Some s \<Rightarrow> if s = [] then Inl ''session.create returned no sessionId'' else Inr s
      | None \<Rightarrow> Inl ''session.create returned no sessionId'')"

section \<open>State\<close>

datatype ws_state = WsConnecting | WsOpen | WsClosing | WsClosed

datatype rtp_error =
  ConnectionTimeout | SocketError string | SocketClosedError | SocketNotOpen | RequestTimeout string
| RtpSendError string | RemoteError jv | RtpLogError

datatype ready_state = ReadyWaiting | ReadyResolved | ReadyRejected rtp_error

record rtp_client =
  cl_ws :: ws_state
  cl_ready :: ready_state
  cl_timer :: bool
  cl_waiting :: "(string \<times> string option \<times> rtp_request) list"
  cl_pending :: "(string, string) omap"
  cl_handlers :: "nat list"
  cl_intentionalClose :: bool
  cl_pinging :: bool

definition new_client :: rtp_client where
  "new_client = \<lparr>cl_ws = WsConnecting, cl_ready = ReadyWaiting, cl_timer = True, cl_waiting = [], cl_pending = [],
     cl_handlers = [], cl_intentionalClose = False, cl_pinging = False\<rparr>"

datatype rtp_output =
  WireRequest string string "(string \<times> jv) list"
| RtpResolved string jv
| RtpRejected string rtp_error
| CloseHandlerCalled nat
| Emitted string jv
| Crash

definition rtp_rejectPending :: "string \<Rightarrow> rtp_error \<Rightarrow> rtp_client \<Rightarrow> rtp_client \<times> rtp_output list" where
  "rtp_rejectPending i err c =
     (case oget (cl_pending c) i of
        None \<Rightarrow> (c, [])
      | Some _ \<Rightarrow> (c\<lparr>cl_pending := odel i (cl_pending c)\<rparr>, [RtpRejected i err]))"

text \<open>
  \<open>sendRequest\<close> after \<open>await this.ready\<close>; \<open>send_error\<close> is the exception of \<open>ws.send\<close>, when it throws.
\<close>

definition transmit ::
  "(string \<Rightarrow> url option) \<Rightarrow> string \<Rightarrow> string option \<Rightarrow> rtp_request \<Rightarrow> rtp_client \<Rightarrow> rtp_client \<times> rtp_output list" where
  "transmit url_parse i send_error r c =
     (let method = fst (rtp_call r); wireParams = toSnakeCase (snd (rtp_call r))
      in case scrubRtpbridgeRequest url_parse (JStr i) method (JObj wireParams) of
           Inl _ \<Rightarrow> (c, [RtpRejected i RtpLogError])
         | Inr _ \<Rightarrow>
             let c' = c\<lparr>cl_pending := oset i method (cl_pending c)\<rparr>
             in if cl_ws c \<noteq> WsOpen then rtp_rejectPending i SocketNotOpen c'
                else (case send_error of
                        None \<Rightarrow> (c', [WireRequest i method wireParams])
                      | Some m \<Rightarrow> rtp_rejectPending i (RtpSendError m) c'))"

definition sendRequest ::
  "(string \<Rightarrow> url option) \<Rightarrow> string \<Rightarrow> string option \<Rightarrow> rtp_request \<Rightarrow> rtp_client \<Rightarrow> rtp_client \<times> rtp_output list" where
  "sendRequest url_parse i send_error r c =
     (case cl_ready c of
        ReadyWaiting \<Rightarrow> (c\<lparr>cl_waiting := cl_waiting c @ [(i, send_error, r)]\<rparr>, [])
      | ReadyResolved \<Rightarrow> transmit url_parse i send_error r c
      | ReadyRejected err \<Rightarrow> (c, [RtpRejected i err]))"

fun transmit_all ::
  "(string \<Rightarrow> url option) \<Rightarrow> (string \<times> string option \<times> rtp_request) list \<Rightarrow> rtp_client \<Rightarrow> rtp_client \<times> rtp_output list" where
  "transmit_all url_parse [] c = (c, [])"
| "transmit_all url_parse ((i, se, r) # ws) c =
     (case transmit url_parse i se r c of (c', out) \<Rightarrow>
        (case transmit_all url_parse ws c' of (c'', outs) \<Rightarrow> (c'', out @ outs)))"

section \<open>Socket events\<close>

text \<open>The promise settles once; what waits for it goes on in order.\<close>

definition ready_resolved :: "(string \<Rightarrow> url option) \<Rightarrow> rtp_client \<Rightarrow> rtp_client \<times> rtp_output list" where
  "ready_resolved url_parse c =
     (if cl_ready c = ReadyWaiting
      then transmit_all url_parse (cl_waiting c) (c\<lparr>cl_ready := ReadyResolved, cl_waiting := [], cl_pinging := True\<rparr>)
      else (c, []))"

definition ready_rejected :: "rtp_error \<Rightarrow> rtp_client \<Rightarrow> rtp_client \<times> rtp_output list" where
  "ready_rejected err c =
     (if cl_ready c = ReadyWaiting
      then (c\<lparr>cl_ready := ReadyRejected err, cl_waiting := []\<rparr>, map (\<lambda>(i, _, _). RtpRejected i err) (cl_waiting c))
      else (c, []))"

definition rejectAllPending :: "rtp_error \<Rightarrow> rtp_client \<Rightarrow> rtp_client \<times> rtp_output list" where
  "rejectAllPending err c = (c\<lparr>cl_pending := []\<rparr>, map (\<lambda>(i, _). RtpRejected i err) (cl_pending c))"

definition fireCloseHandlers :: "rtp_client \<Rightarrow> rtp_client \<times> rtp_output list" where
  "fireCloseHandlers c =
     (if cl_intentionalClose c then (c, [])
      else (c\<lparr>cl_intentionalClose := True, cl_pinging := False, cl_handlers := []\<rparr>, map CloseHandlerCalled (cl_handlers c)))"

definition andThen :: "('s \<Rightarrow> 's \<times> 'o list) \<Rightarrow> ('s \<Rightarrow> 's \<times> 'o list) \<Rightarrow> 's \<Rightarrow> 's \<times> 'o list" where
  "andThen f g s = (case f s of (s', out) \<Rightarrow> (case g s' of (s'', outs) \<Rightarrow> (s'', out @ outs)))"

definition socket_opened :: "(string \<Rightarrow> url option) \<Rightarrow> rtp_client \<Rightarrow> rtp_client \<times> rtp_output list" where
  "socket_opened url_parse c = ready_resolved url_parse (c\<lparr>cl_ws := WsOpen, cl_timer := False\<rparr>)"

definition socket_error :: "string \<Rightarrow> rtp_client \<Rightarrow> rtp_client \<times> rtp_output list" where
  "socket_error m c =
     andThen (rejectAllPending (SocketError m)) (andThen fireCloseHandlers
       (\<lambda>c. ready_rejected (SocketError m) (c\<lparr>cl_timer := False\<rparr>))) (c\<lparr>cl_ws := WsClosing\<rparr>)"

definition socket_closed :: "rtp_client \<Rightarrow> rtp_client \<times> rtp_output list" where
  "socket_closed c = andThen (rejectAllPending SocketClosedError) fireCloseHandlers (c\<lparr>cl_ws := WsClosed\<rparr>)"

definition connect_timeout :: "rtp_client \<Rightarrow> rtp_client \<times> rtp_output list" where
  "connect_timeout c =
     (if cl_timer c then ready_rejected ConnectionTimeout (c\<lparr>cl_timer := False, cl_ws := WsClosing\<rparr>) else (c, []))"

definition rtp_requestTimedOut :: "string \<Rightarrow> rtp_client \<Rightarrow> rtp_client \<times> rtp_output list" where
  "rtp_requestTimedOut i c =
     (case oget (cl_pending c) i of
        None \<Rightarrow> (c, [])
      | Some m \<Rightarrow> (c\<lparr>cl_pending := odel i (cl_pending c)\<rparr>, [RtpRejected i (RequestTimeout m)]))"

definition onClose :: "nat \<Rightarrow> rtp_client \<Rightarrow> rtp_client" where
  "onClose handler c = c\<lparr>cl_handlers := cl_handlers c @ [handler]\<rparr>"

definition close_client :: "rtp_client \<Rightarrow> rtp_client" where
  "close_client c =
     c\<lparr>cl_intentionalClose := True, cl_handlers := [], cl_pinging := False,
       cl_ws := (if cl_ws c = WsOpen \<or> cl_ws c = WsConnecting then WsClosing else cl_ws c)\<rparr>"

text \<open>
  \<open>handleMessage\<close> on a parsed message. An event that is not a string has no \<open>startsWith\<close>, \<open>null\<close> has
  no properties at all, and \<open>emit('error')\<close> throws where nobody listens to it.
\<close>

definition rtp_message :: "(jv \<Rightarrow> string) \<Rightarrow> jv \<Rightarrow> rtp_client \<Rightarrow> rtp_client \<times> rtp_output list" where
  "rtp_message json_stringify parsed c =
     (if parsed = JNull then (c, [Crash])
      else if truthy (fld parsed ''event'') then
        (case str_of (fld parsed ''event'') of
           None \<Rightarrow> (c, [Crash])
         | Some e \<Rightarrow>
             let data = toCamelCase (fld parsed ''data'')
             in if e = ''error'' then (c, [Crash])
                else (c, [Emitted e data, Emitted ''rtpbridge.event'' (JObj [(''event'', JStr e), (''data'', data)])]))
      else
        (case str_of (fld parsed ''id'') of
           None \<Rightarrow> (c, [])
         | Some i \<Rightarrow>
             (case oget (cl_pending c) i of
                None \<Rightarrow> (c, [])
              | Some _ \<Rightarrow>
                  let c' = c\<lparr>cl_pending := odel i (cl_pending c)\<rparr>; err = fld parsed ''error''
                  in if truthy err
                     then (c', [RtpRejected i (RemoteError (if str_of err \<noteq> None then err
                              else coalesce (fld err ''message'') (JStr (json_stringify err))))])
                     else (c', [RtpResolved i (toCamelCase (coalesce (fld parsed ''result'') (JObj [])))]))))"

definition rtp_handleMessage ::
  "(string \<Rightarrow> jv option) \<Rightarrow> (jv \<Rightarrow> string) \<Rightarrow> string \<Rightarrow> rtp_client \<Rightarrow> rtp_client \<times> rtp_output list" where
  "rtp_handleMessage json_parse json_stringify raw c =
     (case json_parse raw of None \<Rightarrow> (c, []) | Some v \<Rightarrow> rtp_message json_stringify v c)"

section \<open>Events\<close>

datatype rtp_event =
  RtpRequest string "string option" rtp_request
| RtpSendFailed string string
| RtpTimer string
| RtpOpened
| RtpSocketError string
| RtpClosed
| RtpConnectTimer
| RtpReceive string
| RtpOnClose nat
| RtpClose

fun rtp_step ::
  "(string \<Rightarrow> url option) \<Rightarrow> (string \<Rightarrow> jv option) \<Rightarrow> (jv \<Rightarrow> string) \<Rightarrow> rtp_client \<Rightarrow> rtp_event \<Rightarrow>
    rtp_client \<times> rtp_output list" where
  "rtp_step up parse str c (RtpRequest i se r) = sendRequest up i se r c"
| "rtp_step up parse str c (RtpSendFailed i m) = rtp_rejectPending i (RtpSendError m) c"
| "rtp_step up parse str c (RtpTimer i) = rtp_requestTimedOut i c"
| "rtp_step up parse str c RtpOpened = socket_opened up c"
| "rtp_step up parse str c (RtpSocketError m) = socket_error m c"
| "rtp_step up parse str c RtpClosed = socket_closed c"
| "rtp_step up parse str c RtpConnectTimer = connect_timeout c"
| "rtp_step up parse str c (RtpReceive raw) = rtp_handleMessage parse str raw c"
| "rtp_step up parse str c (RtpOnClose h) = (onClose h c, [])"
| "rtp_step up parse str c RtpClose = (close_client c, [])"

section \<open>Keys survive the round trip\<close>

text \<open>A key the translation can undo: an underscore is never followed by a lower-case letter.\<close>

fun plain_key :: "string \<Rightarrow> bool" where
  "plain_key [] = True"
| "plain_key [c] = True"
| "plain_key (c # d # cs) = (\<not> (c = CHR ''_'' \<and> is_lower d) \<and> plain_key (d # cs))"

lemma case_facts: "is_upper c \<Longrightarrow> is_lower (to_lower c)" "is_upper c \<Longrightarrow> to_upper (to_lower c) = c"
  "\<not> is_lower (CHR ''_'')" "\<not> is_upper (CHR ''_'')"
  by (auto simp: js_defs code_char_of) (simp_all add: code_def)

lemma camel_cons: "\<not> (c = CHR ''_'' \<and> ks \<noteq> [] \<and> is_lower (hd ks)) \<Longrightarrow> camel_key (c # ks) = c # camel_key ks"
  by (cases ks) auto

lemma snake_hd: "ks \<noteq> [] \<Longrightarrow> \<not> is_lower (hd ks) \<Longrightarrow> \<not> is_lower (hd (snake_key ks))"
  by (cases ks) (auto simp: case_facts)

lemma snake_Nil [simp]: "snake_key ks = [] \<longleftrightarrow> ks = []"
  by (cases ks) auto

lemma camel_snake: "plain_key k \<Longrightarrow> camel_key (snake_key k) = k"
proof (induction k rule: plain_key.induct)
  case (2 c)
  then show ?case by (auto simp: case_facts)
next
  case (3 c d cs)
  then have IH: "camel_key (snake_key (d # cs)) = d # cs" by simp
  show ?case
  proof (cases "is_upper c")
    case True
    then have "snake_key (c # d # cs) = CHR ''_'' # to_lower c # snake_key (d # cs)" by simp
    with True IH show ?thesis by (simp add: case_facts del: snake_key.simps)
  next
    case False
    have "\<not> (c = CHR ''_'' \<and> is_lower (hd (snake_key (d # cs))))"
      using 3(2) snake_hd [of "d # cs"] by auto
    then have "camel_key (c # snake_key (d # cs)) = c # d # cs"
      using IH camel_cons by metis
    then show ?thesis using False by simp
  qed
qed simp

text \<open>Names the wire keeps apart and gives back.\<close>

definition keys_ok :: "string list \<Rightarrow> bool" where
  "keys_ok ks \<longleftrightarrow> list_all plain_key ks \<and> distinct (map snake_key ks) \<and> ''__proto__'' \<notin> set (map snake_key ks)"

lemma assign_snoc: "k \<noteq> ''__proto__'' \<Longrightarrow> k \<notin> set (okeys (assign es)) \<Longrightarrow> assign (es @ [(k, v)]) = assign es @ [(k, v)]"
proof -
  have "k \<notin> set (okeys m) \<Longrightarrow> oset k v m = m @ [(k, v)]" for m :: "(string \<times> jv) list"
    by (induction m) auto
  then show "k \<noteq> ''__proto__'' \<Longrightarrow> k \<notin> set (okeys (assign es)) \<Longrightarrow> assign (es @ [(k, v)]) = assign es @ [(k, v)]"
    by (simp add: assign_def del: set_map)
qed

lemma assign_distinct: "distinct (map fst es) \<Longrightarrow> ''__proto__'' \<notin> set (map fst es) \<Longrightarrow> assign es = es"
proof (induction es rule: rev_induct)
  case (snoc e es)
  then show ?case using assign_snoc [of "fst e" es "snd e"] by auto
qed (simp add: assign_def)

lemma toSnakeCase_ok:
  assumes "keys_ok (map fst fs)"
  shows "toSnakeCase fs = map (\<lambda>(k, v). (snake_key k, v)) fs"
    and "map (\<lambda>(k, v). (camel_key k, v)) (toSnakeCase fs) = fs"
proof -
  have k: "map fst (map (\<lambda>(k, v). (snake_key k, v)) fs) = map snake_key (map fst fs)" by auto
  show s: "toSnakeCase fs = map (\<lambda>(k, v). (snake_key k, v)) fs"
    unfolding toSnakeCase_def by (rule assign_distinct) (use assms in \<open>unfold k keys_ok_def, auto\<close>)
  have "plain_key k" if "(k, v) \<in> set fs" for k v
    using assms that by (force simp: keys_ok_def list_all_iff)
  then show "map (\<lambda>(k, v). (camel_key k, v)) (toSnakeCase fs) = fs"
    unfolding s by (auto simp: camel_snake o_def case_prod_beta intro!: map_idI)
qed

lemma rtp_call_keys_ok: "keys_ok (map fst (snd (rtp_call r)))"
proof (cases r)
  case (RtpAcceptWebrtcAnswer e sdp g)
  then show ?thesis by (cases g) (simp, code_simp)+
qed (simp, code_simp)+

text \<open>
  Every request puts each of its parameters on the wire under a snake-case name of its own, and
  the translation of responses back to camel case gives exactly the original names and values.
\<close>

theorem rtp_wire_roundtrip:
  "map (\<lambda>(k, v). (camel_key k, v)) (toSnakeCase (snd (rtp_call r))) = snd (rtp_call r)
    \<and> map snd (toSnakeCase (snd (rtp_call r))) = map snd (snd (rtp_call r))
    \<and> distinct (map fst (toSnakeCase (snd (rtp_call r))))"
proof -
  let ?fs = "snd (rtp_call r)"
  note k = toSnakeCase_ok [OF rtp_call_keys_ok [of r]]
  have names: "map fst (toSnakeCase ?fs) = map snake_key (map fst ?fs)" and vals: "map snd (toSnakeCase ?fs) = map snd ?fs"
    unfolding k(1) by auto
  have "distinct (map snake_key (map fst ?fs))" using rtp_call_keys_ok [of r] unfolding keys_ok_def by blast
  then show ?thesis unfolding names using k(2) vals by blast
qed

text \<open>Logging a request never throws: every method is one the log scrubber lists.\<close>

definition logged_method :: "string \<Rightarrow> bool" where
  "logged_method m \<longleftrightarrow> map_of rtpbridge_request_table m \<noteq> None"

lemma rtp_call_logged: "scrubRtpbridgeRequest up i (fst (rtp_call r)) v \<noteq> Inl e"
proof -
  have "logged_method (fst (rtp_call r))" by (cases r) (simp, code_simp)+
  then show ?thesis
    by (auto simp: logged_method_def scrubRtpbridgeRequest_def rtpbridgeRequestFields_def table_lookup_def rbind_eq_Inl scrubKnownObject_Own
      split: option.splits)
qed

section \<open>Requests are settled once\<close>

definition rtp_asks :: "rtp_event \<Rightarrow> string option" where
  "rtp_asks e = (case e of RtpRequest i _ _ \<Rightarrow> Some i | _ \<Rightarrow> None)"

definition rtp_settles :: "rtp_output \<Rightarrow> string option" where
  "rtp_settles x = (case x of RtpResolved i _ \<Rightarrow> Some i | RtpRejected i _ \<Rightarrow> Some i | _ \<Rightarrow> None)"

lemma rtp_settles_simps [simp]: "rtp_settles (RtpResolved i v) = Some i" "rtp_settles (RtpRejected i e) = Some i"
  "rtp_settles (WireRequest i m ps) = None" "rtp_settles (CloseHandlerCalled n) = None" "rtp_settles (Emitted ev d) = None"
  "rtp_settles Crash = None"
  by (simp_all add: rtp_settles_def)

definition open_requests :: "rtp_client \<Rightarrow> string multiset" where
  "open_requests c = mset (map fst (cl_waiting c)) + mset (okeys (cl_pending c))"

definition rtp_inv :: "rtp_client \<Rightarrow> bool" where
  "rtp_inv c \<longleftrightarrow> owf (cl_pending c) \<and> distinct (map fst (cl_waiting c))
     \<and> (if cl_ready c = ReadyWaiting then cl_pending c = [] else cl_waiting c = [])"

lemma rejects_ids [simp]:
  "ids rtp_settles (map (\<lambda>(i, a). RtpRejected i (f i a)) ps) = mset (map fst ps)"
  "ids rtp_settles (map (\<lambda>(i, a, b). RtpRejected i err) ws) = mset (map fst ws)"
  "ids rtp_settles (map CloseHandlerCalled hs) = {#}"
  by (induction ps, auto) (induction ws, auto, induction hs, auto)

lemma rtp_rejectPending_balance:
  assumes "owf (cl_pending c)"
  shows "ids rtp_settles (snd (rtp_rejectPending i err c)) + mset (okeys (cl_pending (fst (rtp_rejectPending i err c))))
      = mset (okeys (cl_pending c))"
    and "owf (cl_pending (fst (rtp_rejectPending i err c)))"
    and "cl_waiting (fst (rtp_rejectPending i err c)) = cl_waiting c"
    and "cl_ready (fst (rtp_rejectPending i err c)) = cl_ready c"
  using mset_okeys_odel [OF assms, of i] assms
  by (auto simp: rtp_rejectPending_def simp del: mset_map split: option.splits)

lemma transmit_balance:
  assumes "owf (cl_pending c)" and "\<not> ohas (cl_pending c) i"
  shows "ids rtp_settles (snd (transmit up i se r c)) + mset (okeys (cl_pending (fst (transmit up i se r c))))
      = {#i#} + mset (okeys (cl_pending c))"
    and "owf (cl_pending (fst (transmit up i se r c)))"
    and "cl_waiting (fst (transmit up i se r c)) = cl_waiting c"
    and "cl_ready (fst (transmit up i se r c)) = cl_ready c"
proof -
  let ?c = "c\<lparr>cl_pending := oset i (fst (rtp_call r)) (cl_pending c)\<rparr>"
  have w: "owf (cl_pending ?c)" using assms(1) by simp
  have k: "mset (okeys (cl_pending ?c)) = {#i#} + mset (okeys (cl_pending c))"
    using okeys_oset_new [OF assms(2)] by (simp del: mset_map)
  note b = rtp_rejectPending_balance [OF w, of i]
  from b(1) k show "ids rtp_settles (snd (transmit up i se r c)) + mset (okeys (cl_pending (fst (transmit up i se r c))))
      = {#i#} + mset (okeys (cl_pending c))"
    by (auto simp: transmit_def Let_def simp del: mset_map split: sum.splits option.splits)
  from b(2) w assms(1) show "owf (cl_pending (fst (transmit up i se r c)))"
    by (auto simp: transmit_def Let_def split: sum.splits option.splits)
  from b(3) show "cl_waiting (fst (transmit up i se r c)) = cl_waiting c"
    by (auto simp: transmit_def Let_def split: sum.splits option.splits)
  from b(4) show "cl_ready (fst (transmit up i se r c)) = cl_ready c"
    by (auto simp: transmit_def Let_def split: sum.splits option.splits)
qed

lemma transmit_keys:
  assumes "owf (cl_pending c)" and "\<not> ohas (cl_pending c) i" and "j \<noteq> i" and "\<not> ohas (cl_pending c) j"
  shows "\<not> ohas (cl_pending (fst (transmit up i se r c))) j"
  using assms by (auto simp: transmit_def rtp_rejectPending_def Let_def split: sum.splits option.splits)

lemma transmit_all_balance:
  assumes "owf (cl_pending c)" and "distinct (map fst ws)" and "list_all (\<lambda>w. \<not> ohas (cl_pending c) (fst w)) ws"
  shows "ids rtp_settles (snd (transmit_all up ws c)) + mset (okeys (cl_pending (fst (transmit_all up ws c))))
      = mset (map fst ws) + mset (okeys (cl_pending c))
    \<and> owf (cl_pending (fst (transmit_all up ws c)))
    \<and> cl_waiting (fst (transmit_all up ws c)) = cl_waiting c
    \<and> cl_ready (fst (transmit_all up ws c)) = cl_ready c"
  using assms
proof (induction ws arbitrary: c)
  case (Cons w ws)
  obtain i se r where w: "w = (i, se, r)" by (cases w)
  let ?c = "fst (transmit up i se r c)"
  from Cons.prems w have i: "\<not> ohas (cl_pending c) i" "i \<notin> set (map fst ws)" by auto
  have "\<not> ohas (cl_pending ?c) (fst v)" if "v \<in> set ws" for v
    using that i(2) Cons.prems(3) by (intro transmit_keys [OF Cons.prems(1) i(1)]) (auto simp: list_all_iff)
  then have "list_all (\<lambda>w. \<not> ohas (cl_pending ?c) (fst w)) ws" by (simp add: list_all_iff)
  from Cons.IH [OF transmit_balance(2) [OF Cons.prems(1) i(1)] _ this] Cons.prems(2)
    transmit_balance [OF Cons.prems(1) i(1), of up se r]
  show ?case by (simp add: w case_prod_beta ac_simps del: mset_map)
qed simp

lemma ready_resolved_balance:
  assumes "rtp_inv c"
  shows "ids rtp_settles (snd (ready_resolved up c)) + open_requests (fst (ready_resolved up c)) = open_requests c
    \<and> rtp_inv (fst (ready_resolved up c))"
proof (cases "cl_ready c = ReadyWaiting")
  case True
  let ?c = "c\<lparr>cl_ready := ReadyResolved, cl_waiting := [], cl_pinging := True\<rparr>"
  have "list_all (\<lambda>w. \<not> ohas (cl_pending ?c) (fst w)) (cl_waiting c)"
    using assms True by (simp add: rtp_inv_def list_all_iff)
  with transmit_all_balance [of ?c "cl_waiting c" up] assms True
  show ?thesis by (simp add: ready_resolved_def rtp_inv_def open_requests_def del: mset_map)
qed (use assms in \<open>simp add: ready_resolved_def\<close>)

lemma ready_rejected_balance:
  assumes "rtp_inv c"
  shows "ids rtp_settles (snd (ready_rejected err c)) + open_requests (fst (ready_rejected err c)) = open_requests c
    \<and> rtp_inv (fst (ready_rejected err c))"
  using assms by (simp add: ready_rejected_def rtp_inv_def open_requests_def del: mset_map)

lemma rejectAllPending_balance:
  assumes "rtp_inv c"
  shows "ids rtp_settles (snd (rejectAllPending err c)) + open_requests (fst (rejectAllPending err c)) = open_requests c
    \<and> rtp_inv (fst (rejectAllPending err c))"
  using assms by (simp add: rejectAllPending_def rtp_inv_def open_requests_def del: mset_map)

lemma fireCloseHandlers_balance:
  assumes "rtp_inv c"
  shows "ids rtp_settles (snd (fireCloseHandlers c)) + open_requests (fst (fireCloseHandlers c)) = open_requests c
    \<and> rtp_inv (fst (fireCloseHandlers c))"
  using assms by (simp add: fireCloseHandlers_def rtp_inv_def open_requests_def del: mset_map)

lemma andThen_balance:
  assumes "\<And>c. rtp_inv c \<Longrightarrow> ids rtp_settles (snd (f c)) + open_requests (fst (f c)) = open_requests c \<and> rtp_inv (fst (f c))"
    and "\<And>c. rtp_inv c \<Longrightarrow> ids rtp_settles (snd (g c)) + open_requests (fst (g c)) = open_requests c \<and> rtp_inv (fst (g c))"
    and "rtp_inv c"
  shows "ids rtp_settles (snd (andThen f g c)) + open_requests (fst (andThen f g c)) = open_requests c
    \<and> rtp_inv (fst (andThen f g c))"
  using assms(1) [OF assms(3)] assms(2) [of "fst (f c)"]
  by (simp add: andThen_def case_prod_beta) (metis union_assoc)

lemma drop_pending_balance:
  assumes "rtp_inv c" and "ohas (cl_pending c) i"
  shows "open_requests c = {#i#} + open_requests (c\<lparr>cl_pending := odel i (cl_pending c)\<rparr>)
    \<and> rtp_inv (c\<lparr>cl_pending := odel i (cl_pending c)\<rparr>)"
  using mset_okeys_odel [OF _ assms(2)] assms
  by (auto simp: rtp_inv_def open_requests_def simp del: mset_map)

lemma rtp_message_balance:
  assumes "rtp_inv c"
  shows "ids rtp_settles (snd (rtp_message str v c)) + open_requests (fst (rtp_message str v c)) = open_requests c
    \<and> rtp_inv (fst (rtp_message str v c))"
  using assms drop_pending_balance [OF assms, of "the (str_of (fld v ''id''))"]
  by (auto simp: rtp_message_def Let_def split: option.splits)

lemma with_fields:
  "rtp_inv (c\<lparr>cl_ws := w, cl_timer := t\<rparr>) = rtp_inv c" "open_requests (c\<lparr>cl_ws := w, cl_timer := t\<rparr>) = open_requests c"
  "rtp_inv (c\<lparr>cl_timer := t, cl_ws := w\<rparr>) = rtp_inv c" "open_requests (c\<lparr>cl_timer := t, cl_ws := w\<rparr>) = open_requests c"
  "rtp_inv (c\<lparr>cl_ws := w\<rparr>) = rtp_inv c" "open_requests (c\<lparr>cl_ws := w\<rparr>) = open_requests c"
  "rtp_inv (c\<lparr>cl_timer := t\<rparr>) = rtp_inv c" "open_requests (c\<lparr>cl_timer := t\<rparr>) = open_requests c"
  "rtp_inv (c\<lparr>cl_handlers := h\<rparr>) = rtp_inv c" "open_requests (c\<lparr>cl_handlers := h\<rparr>) = open_requests c"
  "rtp_inv (close_client c) = rtp_inv c" "open_requests (close_client c) = open_requests c"
  by (simp_all add: rtp_inv_def open_requests_def close_client_def)

lemma sendRequest_balance:
  assumes "rtp_inv c" and "i \<notin># open_requests c"
  shows "ids rtp_settles (snd (sendRequest up i se r c)) + open_requests (fst (sendRequest up i se r c)) = {#i#} + open_requests c
    \<and> rtp_inv (fst (sendRequest up i se r c))"
proof -
  have w: "owf (cl_pending c)" and i: "\<not> ohas (cl_pending c) i"
    using assms unfolding ohas_keys by (auto simp: rtp_inv_def open_requests_def)
  from transmit_balance [OF w i, of up se r] assms show ?thesis
    by (auto simp: sendRequest_def rtp_inv_def open_requests_def split: ready_state.split if_splits)
qed

lemmas rtp_balances = ready_resolved_balance ready_rejected_balance rejectAllPending_balance fireCloseHandlers_balance
  rtp_message_balance

lemma socket_error_balance:
  assumes "rtp_inv c"
  shows "ids rtp_settles (snd (socket_error m c)) + open_requests (fst (socket_error m c)) = open_requests c
    \<and> rtp_inv (fst (socket_error m c))"
proof -
  have "ids rtp_settles (snd (ready_rejected (SocketError m) (d\<lparr>cl_timer := False\<rparr>)))
      + open_requests (fst (ready_rejected (SocketError m) (d\<lparr>cl_timer := False\<rparr>))) = open_requests d
    \<and> rtp_inv (fst (ready_rejected (SocketError m) (d\<lparr>cl_timer := False\<rparr>)))" if "rtp_inv d" for d
    using ready_rejected_balance [of "d\<lparr>cl_timer := False\<rparr>"] that by (simp add: with_fields)
  note andThen_balance [OF rejectAllPending_balance andThen_balance [OF fireCloseHandlers_balance this], of "c\<lparr>cl_ws := WsClosing\<rparr>"]
  with assms show ?thesis by (simp add: socket_error_def with_fields)
qed

lemma rtp_step_balance:
  assumes "rtp_inv c" and "case rtp_asks e of None \<Rightarrow> True | Some k \<Rightarrow> k \<notin># open_requests c"
  shows "ids rtp_settles (snd (rtp_step up parse str c e)) + open_requests (fst (rtp_step up parse str c e))
      = ids rtp_asks [e] + open_requests c \<and> rtp_inv (fst (rtp_step up parse str c e))"
proof (cases e)
  case (RtpRequest i se r)
  with assms sendRequest_balance [OF assms(1), of i up se r] show ?thesis by (simp add: rtp_asks_def)
next
  case (RtpSocketError m)
  with socket_error_balance [OF assms(1), of m] show ?thesis by (simp add: rtp_asks_def)
next
  case RtpClosed
  with andThen_balance [OF rejectAllPending_balance fireCloseHandlers_balance, of "c\<lparr>cl_ws := WsClosed\<rparr>"] assms(1)
  show ?thesis by (simp add: rtp_asks_def socket_closed_def with_fields)
next
  case RtpOpened
  with ready_resolved_balance [of "c\<lparr>cl_ws := WsOpen, cl_timer := False\<rparr>" up] assms(1)
  show ?thesis by (simp add: rtp_asks_def socket_opened_def with_fields)
next
  case RtpConnectTimer
  with ready_rejected_balance [of "c\<lparr>cl_timer := False, cl_ws := WsClosing\<rparr>"] assms(1)
  show ?thesis by (simp add: rtp_asks_def connect_timeout_def with_fields)
next
  case (RtpReceive raw)
  with rtp_message_balance [OF assms(1)] assms(1) show ?thesis
    by (simp add: rtp_asks_def rtp_handleMessage_def split: option.split)
next
  case (RtpTimer i)
  with drop_pending_balance [OF assms(1), of i] assms(1) show ?thesis
    by (auto simp: rtp_asks_def rtp_requestTimedOut_def split: option.split)
next
  case (RtpSendFailed i m)
  with drop_pending_balance [OF assms(1), of i] assms(1) show ?thesis
    by (auto simp: rtp_asks_def rtp_rejectPending_def split: option.split)
qed (use assms(1) in \<open>simp_all add: rtp_asks_def onClose_def with_fields\<close>)

lemma new_client_inv: "rtp_inv new_client" "open_requests new_client = {#}"
  by (simp_all add: new_client_def rtp_inv_def open_requests_def)

interpretation rtp_ledger: ledger "rtp_step up parse str" rtp_inv open_requests rtp_asks rtp_settles
  by unfold_locales (use rtp_step_balance in blast)+

text \<open>
  C27. Conservation of requests on the rtpbridge socket: when request identifiers are distinct, then
  after any run of requests, socket events, timers and messages, every request is still open or has
  been resolved or rejected exactly once, and nothing else is ever settled.
\<close>

theorem rtp_requests_settled_once:
  assumes "distinct (List.map_filter rtp_asks es)"
  shows "ids rtp_settles (snd (steps (rtp_step up parse str) new_client es))
      + open_requests (fst (steps (rtp_step up parse str) new_client es)) = ids rtp_asks es"
  by (rule rtp_ledger.run_balance [OF new_client_inv assms])

theorem rtp_requests_settled_once_witness:
  "ids rtp_settles (snd (steps (rtp_step (\<lambda>s. None) (\<lambda>s. None) (\<lambda>v. [])) new_client
     [RtpRequest ''1'' None GetServerInfo, RtpOpened, RtpRequest ''2'' None RtpCreateSession, RtpTimer ''1'', RtpClosed]))
   = {#''1'', ''2''#}"
proof -
  let ?es = "[RtpRequest ''1'' None GetServerInfo, RtpOpened, RtpRequest ''2'' None RtpCreateSession, RtpTimer ''1'', RtpClosed]"
  let ?c = "fst (steps (rtp_step (\<lambda>s. None) (\<lambda>s. None) (\<lambda>v. [])) new_client ?es)"
  have r: "List.map_filter rtp_asks ?es = [''1'', ''2'']" by (simp add: List.map_filter_def rtp_asks_def)
  have o1: "map fst (cl_waiting ?c) = []" by code_simp
  have o2: "okeys (cl_pending ?c) = []" by code_simp
  show ?thesis
    using rtp_requests_settled_once [of ?es "\<lambda>s. None" "\<lambda>s. None" "\<lambda>v. []"]
    unfolding r ids_def [of rtp_asks] open_requests_def o1 o2 by simp
qed

section \<open>Close handlers\<close>

definition handler_added :: "rtp_event \<Rightarrow> nat option" where
  "handler_added e = (case e of RtpOnClose h \<Rightarrow> Some h | _ \<Rightarrow> None)"

definition handler_called :: "rtp_output \<Rightarrow> nat option" where
  "handler_called x = (case x of CloseHandlerCalled h \<Rightarrow> Some h | _ \<Rightarrow> None)"

lemma handler_called_simps [simp]: "handler_called (RtpResolved i v) = None" "handler_called (RtpRejected i e) = None"
  "handler_called (WireRequest i m ps) = None" "handler_called (CloseHandlerCalled n) = Some n"
  "handler_called (Emitted ev d) = None" "handler_called Crash = None"
  by (simp_all add: handler_called_def)

lemma handlers_ids [simp]:
  "ids handler_called (map (\<lambda>(i, a). RtpRejected i (f i a)) ps) = {#}"
  "ids handler_called (map (\<lambda>(i, a, b). RtpRejected i err) ws) = {#}"
  "ids handler_called (map CloseHandlerCalled hs) = mset hs"
  by (induction ps, auto) (induction ws, auto, induction hs, auto)

lemma transmit_handlers:
  "ids handler_called (snd (transmit up i se r c)) = {#} \<and> cl_handlers (fst (transmit up i se r c)) = cl_handlers c
    \<and> cl_intentionalClose (fst (transmit up i se r c)) = cl_intentionalClose c"
  by (auto simp: transmit_def rtp_rejectPending_def Let_def split: sum.splits option.splits)

lemma transmit_all_handlers:
  "ids handler_called (snd (transmit_all up ws c)) = {#} \<and> cl_handlers (fst (transmit_all up ws c)) = cl_handlers c
    \<and> cl_intentionalClose (fst (transmit_all up ws c)) = cl_intentionalClose c"
proof (induction ws arbitrary: c)
  case (Cons w ws)
  then show ?case by (cases w) (simp add: case_prod_beta transmit_handlers)
qed simp

lemma message_handlers:
  "ids handler_called (snd (rtp_message str v c)) = {#} \<and> cl_handlers (fst (rtp_message str v c)) = cl_handlers c
    \<and> cl_intentionalClose (fst (rtp_message str v c)) = cl_intentionalClose c"
  by (auto simp: rtp_message_def Let_def split: option.splits)

lemmas handler_defs = sendRequest_def rtp_rejectPending_def rtp_requestTimedOut_def socket_opened_def ready_resolved_def
  ready_rejected_def rejectAllPending_def fireCloseHandlers_def andThen_def socket_error_def socket_closed_def
  connect_timeout_def onClose_def close_client_def rtp_handleMessage_def case_prod_beta transmit_handlers
  transmit_all_handlers message_handlers

lemma step_handlers:
  "ids handler_called (snd (rtp_step up parse str c e)) + mset (cl_handlers (fst (rtp_step up parse str c e)))
     \<subseteq># ids handler_added [e] + mset (cl_handlers c)"
  by (cases e) (auto simp: handler_defs handler_added_def split: option.split ready_state.split)

lemma run_handlers:
  "ids handler_called (snd (steps (rtp_step up parse str) c es)) + mset (cl_handlers (fst (steps (rtp_step up parse str) c es)))
     \<subseteq># ids handler_added es + mset (cl_handlers c)"
proof (induction es arbitrary: c)
  case (Cons e es)
  show ?case
    using ledger_chain_le [OF Cons.IH step_handlers [of up parse str c e]] by (simp add: case_prod_beta ac_simps)
qed simp

lemma closed_step:
  "cl_intentionalClose c \<Longrightarrow> ids handler_called (snd (rtp_step up parse str c e)) = {#}
     \<and> cl_intentionalClose (fst (rtp_step up parse str c e))"
  by (cases e) (auto simp: handler_defs split: option.split ready_state.split)

lemma closed_run:
  "cl_intentionalClose c \<Longrightarrow> ids handler_called (snd (steps (rtp_step up parse str) c es)) = {#}"
  by (induction es arbitrary: c) (auto simp: case_prod_beta closed_step)

text \<open>
  A close handler runs at most once per registration, and never once the owner has closed the
  client itself.
\<close>

theorem close_handlers_once:
  "ids handler_called (snd (steps (rtp_step up parse str) new_client (es @ RtpClose # fs))) \<subseteq># ids handler_added es"
proof -
  let ?c = "fst (steps (rtp_step up parse str) new_client es)"
  have "cl_intentionalClose (close_client ?c)" by (simp add: close_client_def)
  from closed_run [OF this, of up parse str fs] run_handlers [of up parse str new_client es]
  show ?thesis by (simp add: steps_append case_prod_beta new_client_def) (meson mset_subset_eq_add_left subset_mset.order_trans)
qed

section \<open>Messages that end the process\<close>

lemma transmit_all_no_crash: "Crash \<notin> set (snd (transmit_all up ws c))"
  by (induction ws c rule: transmit_all.induct)
    (auto simp: transmit_def rtp_rejectPending_def Let_def case_prod_beta split: sum.splits option.splits)


end
