(* ===== verification/MediaActions.thy ===== *)
theory MediaActions
  imports ControlLog Commands
begin

text \<open>
  The long-running media actions of \<open>src/media-session-service.ts\<close>, each as the state machine that its
  promise, its timers and its listeners form: collecting DTMF digits (\<open>collectDtmf\<close>), playing a file to
  its end (\<open>playToCompletion\<close>), and leaving a message (\<open>leaveMessage\<close>). Events are what the listeners,
  timers and awaited rtpbridge requests deliver; outputs are what the code calls.
\<close>

section \<open>Parameters\<close>

text \<open>A count or a time that is absent gets the fallback; \<open>Number.isInteger\<close> holds of every \<open>int\<close>.\<close>

definition positiveIntegerOrDefault :: "int option \<Rightarrow> int option \<Rightarrow> (gw_error, int option) result" where
  "positiveIntegerOrDefault v fallback =
     (case v of
        None \<Rightarrow> Inr fallback
      | Some n \<Rightarrow> if n \<le> 0 then Inl (MediaRecordingProxyError 400
            ''media action timing and count values must be positive integers'') else Inr (Some n))"

text \<open>With a fallback the result is a number: the \<open>!\<close> of the code.\<close>

definition positive_or :: "int option \<Rightarrow> int \<Rightarrow> (gw_error, int) result" where
  "positive_or v d = rbind (positiveIntegerOrDefault v (Some d)) (\<lambda>r. Inr (case r of Some n \<Rightarrow> n | None \<Rightarrow> d))"

lemma positive_or_eq: "positive_or v d = Inr n \<longleftrightarrow> (case v of None \<Rightarrow> n = d | Some k \<Rightarrow> 0 < k \<and> n = k)"
  by (auto simp: positive_or_def positiveIntegerOrDefault_def rbind_eq_Inr split: option.splits)

section \<open>Collecting digits\<close>

record gather_config =
  gc_endpoint :: string
  gc_numDigits :: "int option"
  gc_timeoutMs :: int
  gc_interDigitTimeoutMs :: int
  gc_terminator :: string
  gc_reset :: "(string \<times> int) option"

text \<open>The head of \<open>collectDtmf\<close>; \<open>reset\<close> is the playback endpoint and its \<open>postPlaybackTimeoutMs\<close>.\<close>

definition collectDtmf_config ::
  "'a gather_params_scheme \<Rightarrow> (string \<times> int) option \<Rightarrow> (gw_error, gather_config) result" where
  "collectDtmf_config p reset =
     rbind (positiveIntegerOrDefault (gp_numDigits p) None) (\<lambda>numDigits.
     rbind (positive_or (gp_timeoutMs p) 5000) (\<lambda>timeoutMs.
     rbind (positive_or (gp_interDigitTimeoutMs p) timeoutMs) (\<lambda>interDigitTimeoutMs.
     Inr \<lparr>gc_endpoint = gp_endpointId p, gc_numDigits = numDigits, gc_timeoutMs = timeoutMs,
          gc_interDigitTimeoutMs = interDigitTimeoutMs,
          gc_terminator = (case gp_terminator p of Some t \<Rightarrow> t | None \<Rightarrow> ''#''), gc_reset = reset\<rparr>)))"

datatype gather_reason = Digits | Terminator | Timeout | Cancelled

text \<open>The armed timer is the delay it was armed with.\<close>

record gather =
  ga_digits :: string
  ga_timer :: "int option"
  ga_finished :: bool
  ga_firstDigit :: bool

datatype gather_event =
  GatherDtmf "string option" "string option"
| GatherReset "string option"
| GatherTimer
| GatherCancel

datatype gather_output = FirstDigit | GatherReleased | GatherResolved string gather_reason

definition start_gather :: "gather_config \<Rightarrow> gather" where
  "start_gather cfg = \<lparr>ga_digits = [], ga_timer = Some (gc_timeoutMs cfg), ga_finished = False, ga_firstDigit = True\<rparr>"

definition finish_gather :: "gather_reason \<Rightarrow> gather \<Rightarrow> gather \<times> gather_output list" where
  "finish_gather reason g =
     (if ga_finished g then (g, [])
      else (g\<lparr>ga_finished := True, ga_timer := None\<rparr>, [GatherReleased, GatherResolved (ga_digits g) reason]))"

definition armTimer :: "int \<Rightarrow> gather \<Rightarrow> gather" where
  "armTimer delay g = g\<lparr>ga_timer := Some delay\<rparr>"

text \<open>The key of a DTMF event of the endpoint, when there is one.\<close>

definition gather_key :: "gather_config \<Rightarrow> string option \<Rightarrow> string option \<Rightarrow> string option" where
  "gather_key cfg ep digit =
     (case digit of
        Some d \<Rightarrow> if ep = Some (gc_endpoint cfg) \<and> d \<noteq> [] then Some (map to_upper d) else None
      | None \<Rightarrow> None)"

definition limit_reached :: "gather_config \<Rightarrow> string \<Rightarrow> bool" where
  "limit_reached cfg digits = (case gc_numDigits cfg of None \<Rightarrow> False | Some n \<Rightarrow> n \<noteq> 0 \<and> n \<le> int (length digits))"

definition onDtmf :: "gather_config \<Rightarrow> string \<Rightarrow> gather \<Rightarrow> gather \<times> gather_output list" where
  "onDtmf cfg key g =
     (if str_includes (gc_terminator cfg) key then finish_gather Terminator g
      else let g1 = g\<lparr>ga_digits := ga_digits g @ key, ga_firstDigit := False\<rparr>;
               hook = (if ga_firstDigit g then [FirstDigit] else [])
           in if limit_reached cfg (ga_digits g1)
              then (case finish_gather Digits g1 of (g2, out) \<Rightarrow> (g2, hook @ out))
              else (armTimer (gc_interDigitTimeoutMs cfg) g1, hook))"

definition onTimeoutReset :: "gather_config \<Rightarrow> string option \<Rightarrow> gather \<Rightarrow> gather" where
  "onTimeoutReset cfg ep g =
     (case gc_reset cfg of
        None \<Rightarrow> g
      | Some (playback, delay) \<Rightarrow> if ga_digits g \<noteq> [] \<or> ep \<noteq> Some playback then g else armTimer delay g)"

text \<open>Listeners are gone once the gather has finished, and a timer fires only while it is armed.\<close>

fun gather_step :: "gather_config \<Rightarrow> gather \<Rightarrow> gather_event \<Rightarrow> gather \<times> gather_output list" where
  "gather_step cfg g (GatherDtmf ep digit) =
     (if ga_finished g then (g, [])
      else case gather_key cfg ep digit of None \<Rightarrow> (g, []) | Some key \<Rightarrow> onDtmf cfg key g)"
| "gather_step cfg g (GatherReset ep) = (if ga_finished g then g else onTimeoutReset cfg ep g, [])"
| "gather_step cfg g GatherTimer = (if ga_timer g = None then (g, []) else finish_gather Timeout g)"
| "gather_step cfg g GatherCancel = finish_gather Cancelled g"

subsection \<open>What a gather computes\<close>

text \<open>The keys of a sequence of events and, read off the sequence alone, how and where it ends.\<close>

definition keys :: "gather_config \<Rightarrow> gather_event list \<Rightarrow> string list" where
  "keys cfg es = List.map_filter (\<lambda>e. case e of GatherDtmf ep d \<Rightarrow> gather_key cfg ep d | _ \<Rightarrow> None) es"

definition ends_with_event :: "gather_config \<Rightarrow> gather_event list \<Rightarrow> gather_event \<Rightarrow> (string \<times> gather_reason) option" where
  "ends_with_event cfg before e =
     (case e of
        GatherCancel \<Rightarrow> Some (concat (keys cfg before), Cancelled)
      | GatherTimer \<Rightarrow> Some (concat (keys cfg before), Timeout)
      | GatherReset _ \<Rightarrow> None
      | GatherDtmf ep d \<Rightarrow>
          (case gather_key cfg ep d of
             None \<Rightarrow> None
           | Some k \<Rightarrow>
               if str_includes (gc_terminator cfg) k then Some (concat (keys cfg before), Terminator)
               else if (case gc_numDigits cfg of None \<Rightarrow> False
                        | Some n \<Rightarrow> n \<noteq> 0 \<and> n \<le> int (length (concat (keys cfg before)) + length k)) then Some (concat (keys cfg before) @ k, Digits)
               else None))"

definition gather_result :: "gather_config \<Rightarrow> gather_event list \<Rightarrow> (string \<times> gather_reason) option" where
  "gather_result cfg es =
     (case List.map_filter (\<lambda>i. ends_with_event cfg (take i es) (es ! i)) [0..<length es] of [] \<Rightarrow> None | r # _ \<Rightarrow> Some r)"

text \<open>The delay of the running timer, from the events alone.\<close>

fun timer_after :: "gather_config \<Rightarrow> string \<Rightarrow> int \<Rightarrow> gather_event list \<Rightarrow> int" where
  "timer_after cfg digits delay [] = delay"
| "timer_after cfg digits delay (GatherDtmf ep d # es) =
     (case gather_key cfg ep d of
        None \<Rightarrow> timer_after cfg digits delay es
      | Some k \<Rightarrow> timer_after cfg (digits @ k) (gc_interDigitTimeoutMs cfg) es)"
| "timer_after cfg digits delay (GatherReset ep # es) =
     timer_after cfg digits (case gc_reset cfg of
        Some (p, t) \<Rightarrow> if digits = [] \<and> ep = Some p then t else delay | None \<Rightarrow> delay) es"
| "timer_after cfg digits delay (_ # es) = timer_after cfg digits delay es"

lemma keys_simps [simp]: "keys cfg [] = []" "keys cfg (es @ fs) = keys cfg es @ keys cfg fs"
  "keys cfg [GatherDtmf ep d] = (case gather_key cfg ep d of None \<Rightarrow> [] | Some k \<Rightarrow> [k])"
  "keys cfg [GatherReset ep] = []" "keys cfg [GatherTimer] = []" "keys cfg [GatherCancel] = []"
  by (auto simp: keys_def List.map_filter_def split: option.split)

lemma gather_key_nonempty [simp]: "gather_key cfg ep d \<noteq> Some []"
  by (auto simp: gather_key_def split: option.splits if_splits)

lemma keys_nonempty: "concat (keys cfg es) = [] \<longleftrightarrow> keys cfg es = []"
proof -
  have "k \<noteq> []" if "k \<in> set (keys cfg es)" for k
    using that by (auto simp: keys_def List.map_filter_def split: gather_event.splits)
  then show ?thesis by (cases "keys cfg es") auto
qed

lemma gather_result_snoc:
  "gather_result cfg (es @ [e]) = (case gather_result cfg es of Some r \<Rightarrow> Some r | None \<Rightarrow> ends_with_event cfg es e)"
proof -
  let ?f = "\<lambda>i. ends_with_event cfg (take i (es @ [e])) ((es @ [e]) ! i)"
  let ?g = "\<lambda>i. ends_with_event cfg (take i es) (es ! i)"
  have same: "List.map_filter ?f [0..<length es] = List.map_filter ?g [0..<length es]"
    by (intro map_filter_same) (auto simp: nth_append)
  have last: "List.map_filter ?f [length es] = (case ends_with_event cfg es e of None \<Rightarrow> [] | Some r \<Rightarrow> [r])"
    by (simp add: List.map_filter_def split: option.split)
  have upt: "[0..<length (es @ [e])] = [0..<length es] @ [length es]" by simp
  have "List.map_filter ?f [0..<length (es @ [e])]
      = List.map_filter ?g [0..<length es] @ (case ends_with_event cfg es e of None \<Rightarrow> [] | Some r \<Rightarrow> [r])"
    unfolding upt map_filter_append same last ..
  then show ?thesis
    unfolding gather_result_def by (simp only:) (simp split: list.split option.split)
qed

lemma timer_after_snoc:
  "timer_after cfg ds dl (es @ [e]) = timer_after cfg (ds @ concat (keys cfg es)) (timer_after cfg ds dl es) [e]"
proof (induction es arbitrary: ds dl)
  case (Cons x es)
  have k: "keys cfg (x # es) = keys cfg [x] @ keys cfg es" using keys_simps(2) [of cfg "[x]" es] by simp
  show ?case unfolding k by (cases x) (simp_all add: Cons.IH split: option.split)
qed simp

definition resolved_gathers :: "gather_output list \<Rightarrow> (string \<times> gather_reason) list" where
  "resolved_gathers outs = List.map_filter (\<lambda>x. case x of GatherResolved d r \<Rightarrow> Some (d, r) | _ \<Rightarrow> None) outs"

lemma resolved_gathers_simps [simp]: "resolved_gathers [] = []"
  "resolved_gathers (x # xs) = (case x of GatherResolved d r \<Rightarrow> [(d, r)] | _ \<Rightarrow> []) @ resolved_gathers xs"
  "resolved_gathers (xs @ ys) = resolved_gathers xs @ resolved_gathers ys"
  by (auto simp: resolved_gathers_def List.map_filter_def split: gather_output.splits)

lemma gather_run:
  fixes cfg defines "run \<equiv> steps (gather_step cfg) (start_gather cfg)"
  shows "case gather_result cfg es of
     None \<Rightarrow> \<not> ga_finished (fst (run es)) \<and> ga_digits (fst (run es)) = concat (keys cfg es)
       \<and> ga_firstDigit (fst (run es)) = (keys cfg es = [])
       \<and> ga_timer (fst (run es)) = Some (timer_after cfg [] (gc_timeoutMs cfg) es)
       \<and> snd (run es) = (if keys cfg es = [] then [] else [FirstDigit])
   | Some r \<Rightarrow> ga_finished (fst (run es)) \<and> ga_timer (fst (run es)) = None
       \<and> filter (\<lambda>x. x \<noteq> FirstDigit) (snd (run es)) = [GatherReleased, GatherResolved (fst r) (snd r)]
       \<and> count_list (snd (run es)) FirstDigit \<le> 1"
proof (induction es rule: rev_induct)
  case Nil
  show ?case by (simp add: gather_result_def List.map_filter_def run_def start_gather_def)
next
  case (snoc e es)
  have st: "run (es @ [e]) = (fst (gather_step cfg (fst (run es)) e), snd (run es) @ snd (gather_step cfg (fst (run es)) e))"
    by (simp add: run_def steps_append case_prod_beta)
  show ?case
  proof (cases "gather_result cfg es")
    case (Some r)
    with snoc have f: "ga_finished (fst (run es))" "ga_timer (fst (run es)) = None" by simp_all
    then have "gather_step cfg (fst (run es)) e = (fst (run es), [])"
      by (cases e) (simp_all add: finish_gather_def)
    with Some snoc show ?thesis by (simp add: gather_result_snoc st)
  next
    case None
    with snoc have IH: "\<not> ga_finished (fst (run es))" "ga_digits (fst (run es)) = concat (keys cfg es)"
      "ga_firstDigit (fst (run es)) = (keys cfg es = [])"
      "ga_timer (fst (run es)) = Some (timer_after cfg [] (gc_timeoutMs cfg) es)"
      "snd (run es) = (if keys cfg es = [] then [] else [FirstDigit])"
      by simp_all
    show ?thesis
      unfolding gather_result_snoc None option.case st timer_after_snoc
      by (cases e)
        (auto simp: IH ends_with_event_def onDtmf_def limit_reached_def onTimeoutReset_def finish_gather_def armTimer_def keys_nonempty
          split: option.splits if_splits)
  qed
qed

text \<open>
  C18. Collecting digits computes exactly the result that can be read off the events: the upper-cased
  keys of the endpoint up to the first terminator key, to the digit limit, to the timer or to the
  cancellation. It is delivered once, the claim on the endpoint is released once, and while there is
  no result a timer is armed, with the delay that the last digit or the end of the prompt asks for.
\<close>

theorem gather_refines_spec:
  "case (gather_result cfg es, steps (gather_step cfg) (start_gather cfg) es) of
     (None, g, outs) \<Rightarrow> resolved_gathers outs = [] \<and> GatherReleased \<notin> set outs
       \<and> ga_timer g = Some (timer_after cfg [] (gc_timeoutMs cfg) es)
   | (Some r, g, outs) \<Rightarrow> resolved_gathers outs = [r] \<and> count_list outs GatherReleased = 1 \<and> ga_timer g = None"
proof -
  have r: "resolved_gathers outs = resolved_gathers (filter (\<lambda>x. x \<noteq> FirstDigit) outs)"
    "count_list outs GatherReleased = count_list (filter (\<lambda>x. x \<noteq> FirstDigit) outs) GatherReleased" for outs
    by (induction outs) (auto split: gather_output.split)
  show ?thesis
    using gather_run [of cfg es] r [of "snd (steps (gather_step cfg) (start_gather cfg) es)"]
    by (auto split: option.splits if_splits prod.splits)
qed

section \<open>Playing a file to its end\<close>

datatype play_outcome = PlayedToEnd | PlayAborted | PlayFailed gw_error

text \<open>Awaiting the file endpoint, its end, its removal; then settled.\<close>

datatype playback = PbCreating | PbPlaying string | PbRemoving string play_outcome | PbDone play_outcome

datatype playback_event =
  PbCreated string
| PbCreateFailed gw_error
| PbFinished "string option" "string option" "string option"
| PbTimer
| PbRemoved

datatype playback_output = PbAdd string | PbRemove string

definition playback_end :: "string option \<Rightarrow> string option \<Rightarrow> play_outcome" where
  "playback_end reason err =
     (if reason = Some ''error'' \<or> truthy_opt err
      then PlayFailed (OtherError (''Media playback failed: '' @ (case err of Some m \<Rightarrow> m | None \<Rightarrow> ''unknown error'')))
      else PlayedToEnd)"

definition playback_settle :: "string \<Rightarrow> play_outcome \<Rightarrow> playback \<times> playback_output list" where
  "playback_settle ep outcome = (PbRemoving ep outcome, [PbRemove ep])"

fun playback_step :: "int \<Rightarrow> bool \<Rightarrow> playback \<Rightarrow> playback_event \<Rightarrow> playback \<times> playback_output list" where
  "playback_step timeoutMs aborted PbCreating (PbCreated ep) =
     (if aborted then (case playback_settle ep PlayAborted of (pb, out) \<Rightarrow> (pb, PbAdd ep # out))
      else (PbPlaying ep, [PbAdd ep]))"
| "playback_step timeoutMs aborted PbCreating (PbCreateFailed e) = (PbDone (PlayFailed e), [])"
| "playback_step timeoutMs aborted (PbPlaying ep) (PbFinished who reason err) =
     (if who = Some ep then playback_settle ep (playback_end reason err) else (PbPlaying ep, []))"
| "playback_step timeoutMs aborted (PbPlaying ep) PbTimer =
     playback_settle ep (PlayFailed (OtherError (''Media playback timed out after '' @ show_nat (nat timeoutMs) @ ''ms'')))"
| "playback_step timeoutMs aborted (PbRemoving ep outcome) PbRemoved = (PbDone outcome, [])"
| "playback_step timeoutMs aborted pb _ = (pb, [])"

definition playback_abort :: "playback \<Rightarrow> playback \<times> playback_output list" where
  "playback_abort pb = (case pb of PbPlaying ep \<Rightarrow> playback_settle ep PlayAborted | _ \<Rightarrow> (pb, []))"

text \<open>The result of \<open>playAndWait\<close>, once the playback is done.\<close>

definition playAndWait_timeout :: "int option \<Rightarrow> int" where
  "playAndWait_timeout t = (case t of Some n \<Rightarrow> n | None \<Rightarrow> 120000)"

definition playAndWait_result :: "playback \<Rightarrow> (gw_error, bool) result option" where
  "playAndWait_result pb =
     (case pb of
        PbDone PlayedToEnd \<Rightarrow> Some (Inr True)
      | PbDone PlayAborted \<Rightarrow> Some (Inr False)
      | PbDone (PlayFailed e) \<Rightarrow> Some (Inl e)
      | _ \<Rightarrow> None)"

section \<open>Leaving a message\<close>

datatype lm_terminator = LmSilent | LmMaxDuration | LmByDtmf | LmCancelled

type_synonym lm_outcome = "(gw_error, lm_terminator \<times> bool) result"

datatype lm_phase =
  LmStartingVad
| LmWaiting
| LmStoppingVad lm_terminator
| LmPlaying int playback
| LmFinalStop lm_outcome
| LmDone lm_outcome

record leave_message =
  lm_phase :: lm_phase
  lm_aborted :: bool
  lm_vadStopped :: bool

datatype lm_event =
  LmVadStarted
| LmVadStartFailed gw_error
| LmMaxTimer
| LmSilence "string option"
| LmDtmf "string option" "string option"
| LmVadStopDone
| LmPlayback playback_event
| LmAbort

datatype lm_output =
  LmStopVad
| LmCreateFile string
| LmAdd string
| LmRemove string
| LmReleased
| LmReturned lm_outcome

definition start_leave_message :: leave_message where
  "start_leave_message = \<lparr>lm_phase = LmStartingVad, lm_aborted = False, lm_vadStopped = False\<rparr>"

text \<open>The \<open>finally\<close> block: stop the VAD unless that has been asked for, then release the claim.\<close>

definition lm_finally :: "lm_outcome \<Rightarrow> leave_message \<Rightarrow> leave_message \<times> lm_output list" where
  "lm_finally outcome s =
     (if lm_vadStopped s then (s\<lparr>lm_phase := LmDone outcome\<rparr>, [LmReleased, LmReturned outcome])
      else (s\<lparr>lm_phase := LmFinalStop outcome, lm_vadStopped := True\<rparr>, [LmStopVad]))"

text \<open>\<open>done(reason)\<close> of the wait, and the \<open>stopVad\<close> that follows.\<close>

definition lm_terminated :: "lm_terminator \<Rightarrow> leave_message \<Rightarrow> leave_message \<times> lm_output list" where
  "lm_terminated t s = (s\<lparr>lm_phase := LmStoppingVad t, lm_vadStopped := True\<rparr>, [LmStopVad])"

definition waitForLeaveMessageTerminator ::
  "leave_message_params \<Rightarrow> leave_message \<Rightarrow> leave_message \<times> lm_output list" where
  "waitForLeaveMessageTerminator p s =
     (case positive_or (lm_maxWaitMs p) 60000 of
        Inl e \<Rightarrow> lm_finally (Inl e) s
      | Inr _ \<Rightarrow> if lm_aborted s then lm_terminated LmCancelled s else (s\<lparr>lm_phase := LmWaiting\<rparr>, []))"

text \<open>A message source that is absent or empty is falsy.\<close>

definition present_source :: "leave_message_params \<Rightarrow> string option" where
  "present_source p = (case lm_messageSource p of Some src \<Rightarrow> if src = [] then None else Some src | None \<Rightarrow> None)"

text \<open>After the VAD has stopped: play the message after a silence, when there is one.\<close>

definition lm_after_stop :: "leave_message_params \<Rightarrow> lm_terminator \<Rightarrow> leave_message \<Rightarrow> leave_message \<times> lm_output list" where
  "lm_after_stop p t s =
     (case present_source p of
        Some src \<Rightarrow>
          if t = LmSilent
          then (case positive_or (lm_playbackTimeoutMs p) 30000 of
                  Inl e \<Rightarrow> lm_finally (Inl e) s
                | Inr timeoutMs \<Rightarrow> (s\<lparr>lm_phase := LmPlaying timeoutMs PbCreating\<rparr>, [LmCreateFile src]))
          else lm_finally (Inr (t, False)) s
      | None \<Rightarrow> lm_finally (Inr (t, False)) s)"

definition of_playback :: "playback_output \<Rightarrow> lm_output" where
  "of_playback x = (case x of PbAdd ep \<Rightarrow> LmAdd ep | PbRemove ep \<Rightarrow> LmRemove ep)"

definition lm_played :: "int \<Rightarrow> playback \<times> playback_output list \<Rightarrow> leave_message \<Rightarrow> leave_message \<times> lm_output list" where
  "lm_played timeoutMs r s =
     (case fst r of
        PbDone outcome \<Rightarrow>
          (case lm_finally (case outcome of
                  PlayedToEnd \<Rightarrow> Inr (LmSilent, True) | PlayAborted \<Rightarrow> Inr (LmCancelled, False) | PlayFailed e \<Rightarrow> Inl e) s of
             (s', out) \<Rightarrow> (s', map of_playback (snd r) @ out))
      | pb \<Rightarrow> (s\<lparr>lm_phase := LmPlaying timeoutMs pb\<rparr>, map of_playback (snd r)))"

definition lm_terminator_of :: "leave_message_params \<Rightarrow> string" where
  "lm_terminator_of p = (case lm_terminator p of Some t \<Rightarrow> t | None \<Rightarrow> ''#'')"

fun lm_step :: "leave_message_params \<Rightarrow> leave_message \<Rightarrow> lm_event \<Rightarrow> leave_message \<times> lm_output list" where
  "lm_step p s LmVadStarted =
     (case lm_phase s of LmStartingVad \<Rightarrow> waitForLeaveMessageTerminator p s | _ \<Rightarrow> (s, []))"
| "lm_step p s (LmVadStartFailed e) = (case lm_phase s of LmStartingVad \<Rightarrow> lm_finally (Inl e) s | _ \<Rightarrow> (s, []))"
| "lm_step p s LmMaxTimer = (case lm_phase s of LmWaiting \<Rightarrow> lm_terminated LmMaxDuration s | _ \<Rightarrow> (s, []))"
| "lm_step p s (LmSilence ep) =
     (case lm_phase s of
        LmWaiting \<Rightarrow> if truthy_opt ep \<and> ep \<noteq> Some (lm_endpointId p) then (s, []) else lm_terminated LmSilent s
      | _ \<Rightarrow> (s, []))"
| "lm_step p s (LmDtmf ep digit) =
     (case lm_phase s of
        LmWaiting \<Rightarrow>
          (case digit of
             Some d \<Rightarrow> if ep = Some (lm_endpointId p) \<and> d \<noteq> [] \<and> str_includes (lm_terminator_of p) (map to_upper d)
                       then lm_terminated LmByDtmf s else (s, [])
           | None \<Rightarrow> (s, []))
      | _ \<Rightarrow> (s, []))"
| "lm_step p s LmVadStopDone =
     (case lm_phase s of
        LmStoppingVad t \<Rightarrow> lm_after_stop p t s
      | LmFinalStop outcome \<Rightarrow> lm_finally outcome s
      | _ \<Rightarrow> (s, []))"
| "lm_step p s (LmPlayback e) =
     (case lm_phase s of
        LmPlaying timeoutMs pb \<Rightarrow> lm_played timeoutMs (playback_step timeoutMs (lm_aborted s) pb e) s
      | _ \<Rightarrow> (s, []))"
| "lm_step p s LmAbort =
     (let s' = s\<lparr>lm_aborted := True\<rparr>
      in case lm_phase s of
           LmWaiting \<Rightarrow> lm_terminated LmCancelled s'
         | LmPlaying timeoutMs pb \<Rightarrow> lm_played timeoutMs (playback_abort pb) s'
         | _ \<Rightarrow> (s', []))"

subsection \<open>What a leave-message action guarantees\<close>

definition lm_returned :: "lm_output list \<Rightarrow> lm_outcome list" where
  "lm_returned outs = List.map_filter (\<lambda>x. case x of LmReturned r \<Rightarrow> Some r | _ \<Rightarrow> None) outs"

definition lm_added :: "lm_output list \<Rightarrow> string list" where
  "lm_added outs = List.map_filter (\<lambda>x. case x of LmAdd ep \<Rightarrow> Some ep | _ \<Rightarrow> None) outs"

definition lm_removed :: "lm_output list \<Rightarrow> string list" where
  "lm_removed outs = List.map_filter (\<lambda>x. case x of LmRemove ep \<Rightarrow> Some ep | _ \<Rightarrow> None) outs"

definition lm_files :: "lm_output list \<Rightarrow> string list" where
  "lm_files outs = List.map_filter (\<lambda>x. case x of LmCreateFile src \<Rightarrow> Some src | _ \<Rightarrow> None) outs"

lemma lm_output_simps [simp]:
  "lm_returned [] = []" "lm_returned (x # xs) = (case x of LmReturned r \<Rightarrow> [r] | _ \<Rightarrow> []) @ lm_returned xs"
  "lm_returned (xs @ ys) = lm_returned xs @ lm_returned ys"
  "lm_added [] = []" "lm_added (x # xs) = (case x of LmAdd r \<Rightarrow> [r] | _ \<Rightarrow> []) @ lm_added xs"
  "lm_added (xs @ ys) = lm_added xs @ lm_added ys"
  "lm_removed [] = []" "lm_removed (x # xs) = (case x of LmRemove r \<Rightarrow> [r] | _ \<Rightarrow> []) @ lm_removed xs"
  "lm_removed (xs @ ys) = lm_removed xs @ lm_removed ys"
  "lm_files [] = []" "lm_files (x # xs) = (case x of LmCreateFile r \<Rightarrow> [r] | _ \<Rightarrow> []) @ lm_files xs"
  "lm_files (xs @ ys) = lm_files xs @ lm_files ys"
  by (auto simp: lm_returned_def lm_added_def lm_removed_def lm_files_def List.map_filter_def split: lm_output.splits)

text \<open>The outputs so far, as the phase accounts for them.\<close>

definition lm_open_endpoint :: "lm_phase \<Rightarrow> string list" where
  "lm_open_endpoint ph = (case ph of LmPlaying _ (PbPlaying ep) \<Rightarrow> [ep] | _ \<Rightarrow> [])"

definition lm_results :: "lm_phase \<Rightarrow> lm_outcome list" where
  "lm_results ph = (case ph of LmDone r \<Rightarrow> [r] | _ \<Rightarrow> [])"

definition lm_stopped_phase :: "lm_phase \<Rightarrow> bool" where
  "lm_stopped_phase ph = (case ph of LmStartingVad \<Rightarrow> False | LmWaiting \<Rightarrow> False | _ \<Rightarrow> True)"

text \<open>A message has only been played if a file was asked for.\<close>

definition lm_plausible :: "string list \<Rightarrow> lm_phase \<Rightarrow> bool" where
  "lm_plausible files ph =
     (case ph of
        LmDone (Inr (t, played)) \<Rightarrow> played \<longrightarrow> t = LmSilent \<and> files \<noteq> []
      | LmFinalStop (Inr _) \<Rightarrow> False
      | LmPlaying _ (PbDone _) \<Rightarrow> False
      | LmPlaying _ _ \<Rightarrow> files \<noteq> []
      | LmDone (Inl _) \<Rightarrow> True
      | LmFinalStop (Inl _) \<Rightarrow> True
      | _ \<Rightarrow> files = [])"

definition lm_accounts :: "leave_message_params \<Rightarrow> leave_message \<Rightarrow> lm_output list \<Rightarrow> bool" where
  "lm_accounts p s outs \<longleftrightarrow>
     count_list outs LmStopVad = (if lm_vadStopped s then 1 else 0)
     \<and> lm_vadStopped s = lm_stopped_phase (lm_phase s)
     \<and> lm_returned outs = lm_results (lm_phase s)
     \<and> count_list outs LmReleased = length (lm_results (lm_phase s))
     \<and> lm_added outs = lm_removed outs @ lm_open_endpoint (lm_phase s)
     \<and> (lm_files outs = [] \<or> (\<exists>src. present_source p = Some src \<and> lm_files outs = [src]))
     \<and> lm_plausible (lm_files outs) (lm_phase s)"

lemmas lm_defs = lm_finally_def lm_terminated_def waitForLeaveMessageTerminator_def lm_after_stop_def lm_played_def
  playback_abort_def playback_settle_def of_playback_def lm_open_endpoint_def lm_results_def lm_stopped_phase_def
  lm_plausible_def

lemma played_accounts:
  assumes "lm_accounts p s outs" and "lm_phase s = LmPlaying t pb"
    and "r = playback_step t a pb e \<or> r = playback_abort pb"
  shows "lm_accounts p (fst (lm_played t r (s\<lparr>lm_aborted := b\<rparr>))) (outs @ snd (lm_played t r (s\<lparr>lm_aborted := b\<rparr>)))"
  using assms
  by (cases pb; cases e) (auto simp: lm_accounts_def lm_defs split: if_splits play_outcome.splits)

lemma step_accounts:
  assumes "lm_accounts p s outs"
  shows "lm_accounts p (fst (lm_step p s e)) (outs @ snd (lm_step p s e))"
proof (cases "lm_phase s")
  case (LmPlaying t pb)
  show ?thesis
  proof (cases e)
    case (LmPlayback x)
    with LmPlaying played_accounts [OF assms LmPlaying, of "playback_step t (lm_aborted s) pb x" "lm_aborted s" x "lm_aborted s"]
    show ?thesis by simp
  next
    case LmAbort
    with LmPlaying played_accounts [OF assms LmPlaying, of "playback_abort pb" False PbTimer True]
    show ?thesis by (simp add: Let_def)
  qed (use assms LmPlaying in simp_all)
qed (use assms in \<open>cases e; auto simp: lm_accounts_def lm_defs Let_def split: sum.splits option.splits if_splits\<close>)+

lemma run_accounts:
  "lm_accounts p (fst (steps (lm_step p) start_leave_message es)) (snd (steps (lm_step p) start_leave_message es))"
proof (induction es rule: rev_induct)
  case Nil
  show ?case by (simp add: lm_accounts_def start_leave_message_def lm_defs)
next
  case (snoc e es)
  from step_accounts [OF this, of e] show ?case by (simp add: steps_append case_prod_beta)
qed

text \<open>
  C29. However the events of a leave-message action interleave, the VAD it started is stopped at most
  once and before the action is over, every playback endpoint it adds is removed again, the claim on
  the endpoint is released exactly when the one result is delivered, and a message counts as played
  only after a silence and with a file that was asked for.
\<close>

theorem leave_message_brackets:
  "let (s, outs) = steps (lm_step p) start_leave_message es in
   (case lm_phase s of
      LmDone r \<Rightarrow> lm_returned outs = [r] \<and> count_list outs LmReleased = 1 \<and> count_list outs LmStopVad = 1
        \<and> lm_added outs = lm_removed outs
        \<and> (case r of Inr (t, True) \<Rightarrow> t = LmSilent \<and> lm_files outs = [the (present_source p)] | _ \<Rightarrow> True)
    | _ \<Rightarrow> lm_returned outs = [] \<and> LmReleased \<notin> set outs)"
proof -
  have r: "x \<notin> set outs" if "count_list outs x = 0" for x and outs :: "lm_output list"
    using that by (simp add: count_list_0_iff)
  show ?thesis
    using run_accounts [of p es]
    by (auto simp: lm_accounts_def lm_defs case_prod_beta intro!: r split: lm_phase.splits sum.splits bool.splits)
qed

text \<open>Answers of rtpbridge and of the timers that bring a cancelled action to its end.\<close>

definition lm_answers :: "string \<Rightarrow> lm_event list" where
  "lm_answers ep = [LmVadStarted, LmVadStopDone, LmPlayback (PbCreated ep), LmPlayback PbRemoved, LmVadStopDone]"

definition lm_over :: "leave_message \<Rightarrow> bool" where
  "lm_over s = (case lm_phase s of LmDone _ \<Rightarrow> True | _ \<Rightarrow> False)"

lemmas lm_cancel_simps = lm_answers_def Let_def lm_over_def lm_defs

lemma lm_cancel:
  assumes "lm_vadStopped s = lm_stopped_phase (lm_phase s)" and "lm_plausible files (lm_phase s)"
  shows "lm_over (fst (steps (lm_step p) s (LmAbort # lm_answers ep)))"
proof (cases "lm_phase s")
  case LmStartingVad
  with assms show ?thesis
    by (cases "positive_or (lm_maxWaitMs p) 60000"; cases "present_source p") (simp_all add: lm_cancel_simps)
next
  case (LmStoppingVad t)
  with assms show ?thesis
    by (cases "present_source p"; cases "t = LmSilent"; cases "positive_or (lm_playbackTimeoutMs p) 30000")
      (simp_all add: lm_cancel_simps)
next
  case (LmPlaying t pb)
  with assms show ?thesis
    by (cases pb; cases "case pb of PbRemoving _ outcome \<Rightarrow> outcome | _ \<Rightarrow> PlayAborted") (simp_all add: lm_cancel_simps)
qed (use assms in \<open>cases "present_source p"; simp add: lm_cancel_simps\<close>)+

text \<open>
  C30. A leave-message action always ends: whatever has happened before, once it is cancelled the answers
  to its outstanding requests are enough to bring it to its result.
\<close>

theorem leave_message_cancellable:
  "lm_over (fst (steps (lm_step p) start_leave_message (es @ LmAbort # lm_answers ep)))"
proof -
  let ?s = "fst (steps (lm_step p) start_leave_message es)"
  have "lm_accounts p ?s (snd (steps (lm_step p) start_leave_message es))" by (rule run_accounts)
  then have "lm_over (fst (steps (lm_step p) ?s (LmAbort # lm_answers ep)))"
    by (intro lm_cancel [of _ "lm_files (snd (steps (lm_step p) start_leave_message es))"]) (simp_all add: lm_accounts_def)
  then show ?thesis unfolding steps_append by simp
qed

end
