(* ===== verification/Recordings.thy ===== *)
theory Recordings
  imports MediaServers Commands
begin

text \<open>
  The recordings part of \<open>src/media-session-service.ts\<close>: where a recording may be written, how its path
  is put in a URL, listing over all backends page by page, and merging PCAP files.

  \<open>dec\<close> is \<open>decodeURIComponent\<close> (\<open>None\<close> when it throws); its result may hold characters beyond the
  8-bit ones of the model, so it is an argument. HTTP responses, random names and file contents are
  arguments too. A file is the list of its bytes.
\<close>

section \<open>POSIX paths\<close>

text \<open>\<open>path.posix.resolve\<close> and \<open>relative\<close> of Node, on the segments of a path.\<close>

definition push_segment :: "string list \<Rightarrow> string \<Rightarrow> string list" where
  "push_segment acc s = (if s = [] \<or> s = ''.'' then acc else if s = ''..'' then butlast acc else acc @ [s])"

definition path_segments :: "string \<Rightarrow> string list" where
  "path_segments p = foldl push_segment [] (split_on (CHR ''/'') p)"

definition is_absolute :: "string \<Rightarrow> bool" where
  "is_absolute p \<longleftrightarrow> starts_with p ''/''"

fun join_slash :: "string list \<Rightarrow> string" where
  "join_slash [] = []"
| "join_slash [s] = s"
| "join_slash (s # t # ss) = s @ ''/'' @ join_slash (t # ss)"

definition path_of :: "string list \<Rightarrow> string" where
  "path_of segs = ''/'' @ join_slash segs"

definition path_resolve :: "string \<Rightarrow> string \<Rightarrow> string" where
  "path_resolve base p = path_of (path_segments (if is_absolute p then p else base @ ''/'' @ p))"

fun relative_segments :: "string list \<Rightarrow> string list \<Rightarrow> string list" where
  "relative_segments (a # xs) (b # ys) =
     (if a = b then relative_segments xs ys else replicate (Suc (length xs)) ''..'' @ b # ys)"
| "relative_segments xs ys = replicate (length xs) ''..'' @ ys"

text \<open>Both arguments are absolute here.\<close>

definition path_relative :: "string \<Rightarrow> string \<Rightarrow> string" where
  "path_relative from_path to_path = join_slash (relative_segments (path_segments from_path) (path_segments to_path))"

section \<open>Paths of recordings\<close>

definition slashes :: "string \<Rightarrow> string" where
  "slashes p = map (\<lambda>c. if c = CHR 0x5C then CHR ''/'' else c) p"

definition strip_leading :: "string \<Rightarrow> string" where
  "strip_leading p = dropWhile (\<lambda>c. c = CHR ''/'') p"

definition strip_trailing :: "string \<Rightarrow> string" where
  "strip_trailing p = rev (dropWhile (\<lambda>c. c = CHR ''/'') (rev p))"

definition invalid_path :: gw_error where
  "invalid_path = MediaRecordingProxyError 400 ''Invalid recording path''"

definition safe_segment :: "(string \<Rightarrow> string option) \<Rightarrow> string \<Rightarrow> (gw_error, string) result" where
  "safe_segment dec segment =
     rbind (require invalid_path (dec segment)) (\<lambda>decoded.
     rbind (guard (decoded \<noteq> ''.'' \<and> decoded \<noteq> ''..'' \<and> CHR ''/'' \<notin> set decoded \<and> CHR 0x5C \<notin> set decoded) invalid_path)
       (\<lambda>_. Inr decoded))"

definition safeRecordingPathSegments :: "(string \<Rightarrow> string option) \<Rightarrow> string \<Rightarrow> (gw_error, string list) result" where
  "safeRecordingPathSegments dec recordingPath =
     rbind (rmap (safe_segment dec)
         (filter (\<lambda>s. s \<noteq> []) (split_on (CHR ''/'') (strip_leading (slashes recordingPath))))) (\<lambda>segments.
     rbind (guard (segments \<noteq> []) invalid_path) (\<lambda>_. Inr segments))"

text \<open>\<open>encodeURIComponent\<close> on the characters of the model, which are at most two UTF-8 bytes each.\<close>

definition hex_digit :: "nat \<Rightarrow> char" where
  "hex_digit n = (if n < 10 then char_of (48 + n) else char_of (55 + n))"

definition percent :: "nat \<Rightarrow> string" where
  "percent b = [CHR 0x25, hex_digit (b div 16), hex_digit (b mod 16)]"

definition uri_mark :: "char \<Rightarrow> bool" where
  "uri_mark c \<longleftrightarrow> is_alnum c \<or> c \<in> set ''-_.!~*()'' \<or> c = CHR 0x27"

definition encode_char :: "char \<Rightarrow> string" where
  "encode_char c =
     (if uri_mark c then [c]
      else if code c < 128 then percent (code c)
      else percent (192 + code c div 64) @ percent (128 + code c mod 64))"

definition encodeURIComponent :: "string \<Rightarrow> string" where
  "encodeURIComponent s = concat (map encode_char s)"

definition encodeRecordingPath :: "(string \<Rightarrow> string option) \<Rightarrow> string \<Rightarrow> (gw_error, string) result" where
  "encodeRecordingPath dec recordingPath =
     rbind (safeRecordingPathSegments dec recordingPath) (\<lambda>segments.
     Inr (join_slash (map encodeURIComponent segments)))"

text \<open>What the service is configured with; an absent or empty prefix switches the ownership check off.\<close>

record recording_config =
  rc_recordingsPath :: string
  rc_prefix :: "string option"
  rc_cwd :: string

definition rc_active_prefix :: "recording_config \<Rightarrow> string option" where
  "rc_active_prefix cfg = (case rc_prefix cfg of Some p \<Rightarrow> if p = [] then None else Some p | None \<Rightarrow> None)"

definition ownsRecordingPath :: "(string \<Rightarrow> string option) \<Rightarrow> recording_config \<Rightarrow> string \<Rightarrow> (gw_error, bool) result" where
  "ownsRecordingPath dec cfg recordingPath =
     rbind (safeRecordingPathSegments dec recordingPath) (\<lambda>segments.
     Inr (case (rc_active_prefix cfg, segments) of
            (Some p, [s]) \<Rightarrow> starts_with s p \<and> length p < length s
          | _ \<Rightarrow> False))"

definition requireOwnedRecordingPath :: "(string \<Rightarrow> string option) \<Rightarrow> recording_config \<Rightarrow> string \<Rightarrow> (gw_error, unit) result" where
  "requireOwnedRecordingPath dec cfg recordingPath =
     (case rc_active_prefix cfg of
        None \<Rightarrow> Inr ()
      | Some _ \<Rightarrow>
          rbind (ownsRecordingPath dec cfg recordingPath) (\<lambda>owned.
          guard owned (MediaRecordingProxyError 403 ''Recording path is outside the configured prefix'')))"

definition recordingsRootPath :: "recording_config \<Rightarrow> string" where
  "recordingsRootPath cfg =
     (let p = strip_trailing (slashes (rc_recordingsPath cfg))
      in path_resolve (rc_cwd cfg) (if p = [] then ''/'' else p))"

definition relativeRecordingPath :: "recording_config \<Rightarrow> string \<Rightarrow> string" where
  "relativeRecordingPath cfg filePath =
     (let normalized = slashes filePath; relative = path_relative (recordingsRootPath cfg) normalized
      in if is_absolute normalized \<and> relative \<noteq> [] \<and> \<not> starts_with relative ''..'' \<and> \<not> is_absolute relative
         then relative else strip_leading normalized)"

text \<open>\<open>fresh\<close> is \<open>randomUUID()\<close>.\<close>

definition recordingFilePath ::
  "(string \<Rightarrow> string option) \<Rightarrow> recording_config \<Rightarrow> string \<Rightarrow> string option \<Rightarrow> string \<Rightarrow> (gw_error, string) result" where
  "recordingFilePath dec cfg fresh requestedPath sessionId =
     (let root = recordingsRootPath cfg;
          requested = slashes (case requestedPath of Some p \<Rightarrow> p
            | None \<Rightarrow> (case rc_prefix cfg of Some p \<Rightarrow> p | None \<Rightarrow> []) @ sessionId @ ''-'' @ fresh @ ''.pcap'');
          resolved = path_resolve root requested;
          relative = path_relative root resolved
      in rbind (guard (relative \<noteq> [] \<and> \<not> starts_with relative ''..'' \<and> \<not> is_absolute relative)
           (MediaRecordingProxyError 400 ''recording filePath must be inside configured recordings path'')) (\<lambda>_.
         rbind (requireOwnedRecordingPath dec cfg relative) (\<lambda>_. Inr resolved)))"

record recording_metadata =
  rm_backendId :: "string option"
  rm_filePath :: string
  rm_recordingPath :: string
  rm_downloadPath :: string

definition recordingMetadata ::
  "(string \<Rightarrow> string option) \<Rightarrow> recording_config \<Rightarrow> string option \<Rightarrow> string \<Rightarrow> (gw_error, recording_metadata) result" where
  "recordingMetadata dec cfg backendId filePath =
     (let recordingPath = relativeRecordingPath cfg filePath
      in rbind (requireOwnedRecordingPath dec cfg recordingPath) (\<lambda>_.
         case present backendId of
           None \<Rightarrow> Inr \<lparr>rm_backendId = backendId, rm_filePath = filePath, rm_recordingPath = recordingPath, rm_downloadPath = []\<rparr>
         | Some b \<Rightarrow>
             rbind (encodeRecordingPath dec recordingPath) (\<lambda>u.
             Inr \<lparr>rm_backendId = backendId, rm_filePath = filePath, rm_recordingPath = recordingPath,
                  rm_downloadPath = ''/recordings/'' @ encodeURIComponent b @ ''/'' @ u\<rparr>)))"

section \<open>Facts about paths\<close>

definition plain_segment :: "string \<Rightarrow> bool" where
  "plain_segment s \<longleftrightarrow> s \<noteq> [] \<and> s \<noteq> ''.'' \<and> s \<noteq> ''..'' \<and> CHR ''/'' \<notin> set s"

lemma push_plain: "list_all plain_segment acc \<Longrightarrow> CHR ''/'' \<notin> set s \<Longrightarrow> list_all plain_segment (push_segment acc s)"
  by (auto simp: push_segment_def plain_segment_def list_all_iff dest: in_set_butlastD)

lemma foldl_push_plain:
  "list_all plain_segment acc \<Longrightarrow> list_all (\<lambda>s. CHR ''/'' \<notin> set s) ss \<Longrightarrow> list_all plain_segment (foldl push_segment acc ss)"
proof (induction ss arbitrary: acc)
  case (Cons s ss)
  then show ?case using push_plain by simp
qed simp

lemma split_on_pieces: "list_all (\<lambda>s. d \<notin> set s) (split_on d xs)"
  by (induction d xs rule: split_on.induct) (auto split: list.split)

lemma path_segments_plain: "list_all plain_segment (path_segments p)"
  unfolding path_segments_def using split_on_pieces by (intro foldl_push_plain) simp_all

lemma foldl_push_id: "list_all plain_segment ss \<Longrightarrow> foldl push_segment acc ss = acc @ ss"
  by (induction ss arbitrary: acc) (auto simp: push_segment_def plain_segment_def)

lemma split_on_cons: "d \<notin> set s \<Longrightarrow> split_on d (s @ d # t) = s # split_on d t"
  by (induction s) auto

lemma split_join: "list_all plain_segment ss \<Longrightarrow> ss \<noteq> [] \<Longrightarrow> split_on (CHR ''/'') (join_slash ss) = ss"
proof (induction ss rule: join_slash.induct)
  case (2 s)
  then show ?case by (simp add: plain_segment_def split_on_absent)
next
  case (3 s t ss)
  then show ?case by (simp add: plain_segment_def split_on_cons)
qed simp

lemma segments_path_of: "list_all plain_segment ss \<Longrightarrow> path_segments (path_of ss) = ss"
  by (cases "ss = []") (simp_all add: path_segments_def path_of_def split_join push_segment_def foldl_push_id)

lemma segments_resolve: "path_segments (path_resolve b p) = path_segments (if is_absolute p then p else b @ ''/'' @ p)"
  unfolding path_resolve_def by (rule segments_path_of [OF path_segments_plain])

lemma starts_with_dots: "starts_with (join_slash (replicate (Suc n) ''..'' @ ys)) ''..''"
  by (cases n; cases ys) (simp_all add: starts_with_def)

lemma relative_inside:
  assumes "list_all plain_segment ys" and "\<not> starts_with (join_slash (relative_segments xs ys)) ''..''"
  shows "ys = xs @ relative_segments xs ys"
  using assms
proof (induction xs ys rule: relative_segments.induct [case_names Both Left Right])
  case (Both a xs b ys)
  then show ?case
    using starts_with_dots [of "length xs" "b # ys"] by (auto split: if_splits)
next
  case (Left ys)
  then show ?case by simp
next
  case (Right xs)
  then show ?case using starts_with_dots [of "length xs - 1" "[]"] by (cases xs) simp_all
qed

lemma owned_iff:
  "ownsRecordingPath dec cfg x = Inr True \<longleftrightarrow>
     (\<exists>p d. rc_active_prefix cfg = Some p \<and> safeRecordingPathSegments dec x = Inr [d] \<and> starts_with d p \<and> length p < length d)"
proof (cases "safeRecordingPathSegments dec x")
  case (Inr segs)
  then show ?thesis by (cases segs; cases "tl segs") (auto simp: ownsRecordingPath_def split: option.split)
qed (simp add: ownsRecordingPath_def)

text \<open>
  C17. A recording is only ever written below the configured directory: the path handed to rtpbridge
  is the root followed by at least one segment, none of them empty, \<open>.\<close> or \<open>..\<close>, whatever path the
  client asked for. With a prefix configured the name is a single segment that starts with it.
\<close>

theorem recordingFilePath_inside:
  "case recordingFilePath dec cfg fresh requested sid of
     Inl e \<Rightarrow> (\<exists>m. e = MediaRecordingProxyError 400 m \<or> e = MediaRecordingProxyError 403 m)
   | Inr f \<Rightarrow>
       (\<exists>segs. segs \<noteq> [] \<and> list_all plain_segment segs \<and> f = path_of (path_segments (recordingsRootPath cfg) @ segs)
          \<and> (case rc_active_prefix cfg of
               None \<Rightarrow> True
             | Some p \<Rightarrow> \<exists>d. safeRecordingPathSegments dec (join_slash segs) = Inr [d] \<and> starts_with d p \<and> length p < length d))"
proof (cases "recordingFilePath dec cfg fresh requested sid")
  case (Inl e)
  have "only_fails (\<lambda>e. \<exists>m. e = MediaRecordingProxyError 400 m \<or> e = MediaRecordingProxyError 403 m)
      (recordingFilePath dec cfg fresh requested sid)"
    unfolding recordingFilePath_def requireOwnedRecordingPath_def ownsRecordingPath_def safeRecordingPathSegments_def
      safe_segment_def invalid_path_def Let_def
    by (intro only_fails_rbind only_fails_rmap) (auto intro!: only_fails_rbind only_fails_rmap split: option.split)
  with Inl show ?thesis by simp
next
  case (Inr f)
  let ?root = "recordingsRootPath cfg"
  define rel where "rel = relative_segments (path_segments ?root) (path_segments f)"
  from Inr have rel: "join_slash rel \<noteq> []" "\<not> starts_with (join_slash rel) ''..''"
    and own: "requireOwnedRecordingPath dec cfg (join_slash rel) = Inr ()"
    and f: "\<exists>p. f = path_resolve ?root p"
    by (auto simp: recordingFilePath_def Let_def rbind_eq_Inr path_relative_def rel_def)
  from f obtain p where p: "f = path_resolve ?root p" ..
  have plain: "list_all plain_segment (path_segments f)" by (rule path_segments_plain)
  have s: "path_segments f = path_segments ?root @ rel"
    using relative_inside [OF plain, of "path_segments ?root"] rel(2) by (simp add: rel_def)
  have "f = path_of (path_segments f)" unfolding p segments_resolve by (simp add: path_resolve_def)
  then have "f = path_of (path_segments ?root @ rel)" by (simp add: s)
  moreover have "list_all plain_segment rel" using plain by (simp add: s)
  moreover have "rel \<noteq> []" using rel(1) by auto
  moreover have "case rc_active_prefix cfg of None \<Rightarrow> True
      | Some p \<Rightarrow> \<exists>d. safeRecordingPathSegments dec (join_slash rel) = Inr [d] \<and> starts_with d p \<and> length p < length d"
    using own by (auto simp: requireOwnedRecordingPath_def owned_iff rbind_eq_Inr split: option.splits)
  ultimately show ?thesis using Inr by auto
qed

section \<open>URLs of recordings\<close>

text \<open>The path segments a URL parser takes as \<open>.\<close> or \<open>..\<close>, in any case of the letters.\<close>

definition dot_segment :: "string \<Rightarrow> bool" where
  "dot_segment s \<longleftrightarrow> map to_lower s \<in> set [''.'', ''..'', [CHR 0x25] @ ''2e'', ''.'' @ [CHR 0x25] @ ''2e'',
     [CHR 0x25] @ ''2e.'', [CHR 0x25] @ ''2e'' @ [CHR 0x25] @ ''2e'']"

definition url_char :: "char \<Rightarrow> bool" where
  "url_char c \<longleftrightarrow> uri_mark c \<or> c = CHR 0x25"

lemma hex_digit_alnum: "n < 16 \<Longrightarrow> is_alnum (hex_digit n)"
  by (auto simp: hex_digit_def js_defs code_char_of)

lemma url_char_alnum: "is_alnum c \<Longrightarrow> url_char c"
  by (simp add: url_char_def uri_mark_def)

lemma code_bound: "code c < 256"
  by (simp add: code_def)

lemma percent_chars: "b < 256 \<Longrightarrow> list_all url_char (percent b)"
  by (simp add: percent_def url_char_alnum hex_digit_alnum) (simp add: url_char_def)

lemma encode_chars: "list_all url_char (encodeURIComponent s)"
proof -
  have "list_all url_char (encode_char c)" for c
    using percent_chars [of "code c"] percent_chars [of "192 + code c div 64"] percent_chars [of "128 + code c mod 64"] code_bound [of c]
    by (auto simp: encode_char_def url_char_def)
  then show ?thesis by (induction s) (simp_all add: encodeURIComponent_def)
qed

lemma url_char_no_separator: "url_char c \<Longrightarrow> c \<noteq> CHR ''/'' \<and> c \<noteq> CHR 0x5C \<and> c \<noteq> CHR ''?'' \<and> c \<noteq> CHR ''#''"
  by (auto simp: url_char_def uri_mark_def js_defs) (simp_all add: code_def)

text \<open>An encoded character is itself, or starts with an escape that is not the one of a dot.\<close>

lemma lower_hex:
  assumes "n < 16"
  shows "(to_lower (hex_digit n) = CHR ''2'') = (n = 2) \<and> (to_lower (hex_digit n) = CHR ''e'') = (n = 14)"
proof -
  have "code (to_lower (hex_digit n)) = (if n < 10 then 48 + n else 87 + n)"
    using assms by (auto simp: hex_digit_def to_lower_def is_upper_def code_char_of)
  moreover have "code (CHR ''2'') = 50" "code (CHR ''e'') = 101" by (simp_all add: code_def)
  ultimately show ?thesis
    using assms code_inj [of "to_lower (hex_digit n)" "CHR ''2''"] code_inj [of "to_lower (hex_digit n)" "CHR ''e''"]
    by (cases "n < 10") auto
qed

definition first_byte :: "char \<Rightarrow> nat" where
  "first_byte c = (if code c < 128 then code c else 192 + code c div 64)"

lemma first_byte_facts: "first_byte c < 256" "\<not> uri_mark c \<Longrightarrow> first_byte c \<noteq> 46"
proof -
  show "first_byte c < 256" using code_bound [of c] by (auto simp: first_byte_def)
  have "c = CHR ''.''" if "first_byte c = 46"
  proof -
    have "code c = code (CHR ''.'')" using that by (auto simp: first_byte_def code_def split: if_splits)
    then show ?thesis by (simp add: code_inj)
  qed
  then show "\<not> uri_mark c \<Longrightarrow> first_byte c \<noteq> 46" by (auto simp: uri_mark_def)
qed

lemma nibbles: "b div 16 = 2 \<Longrightarrow> b mod 16 = 14 \<Longrightarrow> b = (46::nat)"
  by presburger

lemma encode_char_cases:
  "(uri_mark c \<and> encode_char c = [c]) \<or>
   (\<exists>x y t. encode_char c = CHR 0x25 # x # y # t \<and> \<not> (to_lower x = CHR ''2'' \<and> to_lower y = CHR ''e''))"
proof (cases "uri_mark c")
  case False
  have "first_byte c div 16 < 16" "first_byte c mod 16 < 16" using first_byte_facts(1) [of c] by auto
  then have "\<not> (to_lower (hex_digit (first_byte c div 16)) = CHR ''2'' \<and> to_lower (hex_digit (first_byte c mod 16)) = CHR ''e'')"
    using lower_hex first_byte_facts(2) [OF False] nibbles [of "first_byte c"] by blast
  moreover have "\<exists>t. encode_char c = percent (first_byte c) @ t" using False by (simp add: encode_char_def first_byte_def)
  ultimately show ?thesis unfolding percent_def by auto
qed (simp add: encode_char_def)

lemma to_lower_plain: "to_lower c = CHR ''.'' \<longleftrightarrow> c = CHR ''.''" "to_lower c = CHR 0x25 \<longleftrightarrow> c = CHR 0x25"
proof -
  have "to_lower c = d \<longleftrightarrow> c = d" if "code d < 97" "\<not> is_upper d" for d
    using that by (auto simp: to_lower_def is_upper_def code_inj [symmetric] code_char_of)
  then show "to_lower c = CHR ''.'' \<longleftrightarrow> c = CHR ''.''" "to_lower c = CHR 0x25 \<longleftrightarrow> c = CHR 0x25"
    by (simp_all add: code_def is_upper_def)
qed

lemma mark_not_percent: "\<not> uri_mark (CHR 0x25)"
  by (simp add: uri_mark_def js_defs) (simp add: code_def)

lemma encode_not_dot: "dot_segment (encodeURIComponent s) \<longleftrightarrow> s = ''.'' \<or> s = ''..''"
proof -
  have e: "encodeURIComponent (c # cs) = encode_char c @ encodeURIComponent cs" for c cs
    by (simp add: encodeURIComponent_def)
  have n: "encode_char c \<noteq> []" for c using encode_char_cases [of c] by auto
  have dot: "encode_char (CHR ''.'') = ''.''" by code_simp
  have hd: "\<not> (\<exists>t. map to_lower (encode_char c @ w) = CHR 0x25 # CHR ''2'' # CHR ''e'' # t)" for c w
    using encode_char_cases [of c] mark_not_percent by (auto simp: to_lower_plain)
  have one: "map to_lower (encode_char c @ w) = CHR ''.'' # t \<longleftrightarrow> c = CHR ''.'' \<and> map to_lower w = t" for c w t
    using encode_char_cases [of c] dot by (auto simp: to_lower_plain)
  show ?thesis
  proof (cases s)
    case Nil
    then show ?thesis by (simp add: dot_segment_def encodeURIComponent_def)
  next
    case (Cons c cs)
    show ?thesis
    proof (cases cs)
      case Nil
      then show ?thesis using Cons hd [of c "[]"] one [of c "[]"]
        by (auto simp: dot_segment_def e) (auto simp: encodeURIComponent_def dot to_lower_plain)
    next
      case (Cons d ds)
      then show ?thesis using \<open>s = c # cs\<close> hd [of c "encodeURIComponent cs"] one [of c "encodeURIComponent cs"]
          hd [of d "encodeURIComponent ds"] one [of d "encodeURIComponent ds"]
        by (auto simp: dot_segment_def e) (auto simp: encodeURIComponent_def dot to_lower_plain n)
    qed
  qed
qed

lemma safe_segments_plain:
  "safeRecordingPathSegments dec p = Inr ds \<Longrightarrow> ds \<noteq> [] \<and> list_all (\<lambda>d. d \<noteq> ''.'' \<and> d \<noteq> ''..'' \<and> CHR ''/'' \<notin> set d \<and> CHR 0x5C \<notin> set d) ds"
  by (auto simp: safeRecordingPathSegments_def rbind_eq_Inr safe_segment_def list_all_iff dest!: rmap_Inr_set)

lemma safe_segments_nonempty:
  assumes "safeRecordingPathSegments dec p = Inr ds" and "\<And>s. dec s = Some [] \<Longrightarrow> s = []"
  shows "[] \<notin> set ds"
  using assms(1) assms(2) by (auto simp: safeRecordingPathSegments_def rbind_eq_Inr safe_segment_def dest!: rmap_Inr_set)

lemma slashes_id: "CHR 0x5C \<notin> set p \<Longrightarrow> slashes p = p"
  unfolding slashes_def by (rule map_idI) auto

lemma set_join: "c \<in> set (join_slash ss) \<Longrightarrow> c = CHR ''/'' \<or> (\<exists>s\<in>set ss. c \<in> set s)"
  by (induction ss rule: join_slash.induct) auto

lemma strip_leading_join: "list_all plain_segment ss \<Longrightarrow> strip_leading (join_slash ss) = join_slash ss"
  by (cases ss rule: join_slash.cases) (auto simp: strip_leading_def plain_segment_def neq_Nil_conv)

lemma encode_Nil: "encodeURIComponent s = [] \<longleftrightarrow> s = []"
proof (cases s)
  case (Cons c cs)
  then show ?thesis using encode_char_cases [of c] by (auto simp: encodeURIComponent_def)
qed (simp add: encodeURIComponent_def)

lemma encode_plain:
  assumes "d \<noteq> []" "d \<noteq> ''.''" "d \<noteq> ''..''"
  shows "plain_segment (encodeURIComponent d)" and "CHR 0x5C \<notin> set (encodeURIComponent d)"
proof -
  have c: "url_char x" if "x \<in> set (encodeURIComponent d)" for x
    using encode_chars [of d] that by (simp add: list_all_iff)
  have "dot_segment ''.''" "dot_segment ''..''" by code_simp+
  then have "encodeURIComponent d \<noteq> ''.'' \<and> encodeURIComponent d \<noteq> ''..''"
    using encode_not_dot [of d] assms by metis
  then show "plain_segment (encodeURIComponent d)"
    using c url_char_no_separator assms(1) by (auto simp: plain_segment_def encode_Nil)
  show "CHR 0x5C \<notin> set (encodeURIComponent d)" using c url_char_no_separator by blast
qed

lemma safe_segments_of_encoded:
  assumes "\<And>s. dec (encodeURIComponent s) = Some s"
    and "ds \<noteq> []" and "[] \<notin> set ds"
    and "list_all (\<lambda>d. d \<noteq> ''.'' \<and> d \<noteq> ''..'' \<and> CHR ''/'' \<notin> set d \<and> CHR 0x5C \<notin> set d) ds"
  shows "safeRecordingPathSegments dec (join_slash (map encodeURIComponent ds)) = Inr ds"
proof -
  let ?es = "map encodeURIComponent ds"
  have ok: "plain_segment (encodeURIComponent d) \<and> CHR 0x5C \<notin> set (encodeURIComponent d)" if "d \<in> set ds" for d
  proof -
    have "d \<noteq> []" "d \<noteq> ''.''" "d \<noteq> ''..''" using assms(3) assms(4) that unfolding list_all_iff by blast+
    then show ?thesis using encode_plain by blast
  qed
  then have plain: "list_all plain_segment ?es" unfolding list_all_iff set_map by blast
  have "slashes (join_slash ?es) = join_slash ?es"
    using ok set_join [of "CHR 0x5C" ?es] by (intro slashes_id notI) fastforce
  moreover have "filter (\<lambda>s. s \<noteq> []) ?es = ?es" using plain by (auto simp: filter_id_conv list_all_iff plain_segment_def)
  moreover have "rmap (safe_segment dec) ?es = Inr ds"
  proof -
    have "safe_segment dec (encodeURIComponent d) = Inr d" if "d \<in> set ds" for d
      using assms(1) assms(4) that by (simp add: safe_segment_def list_all_iff)
    then show ?thesis by (auto simp: rmap_eq_Inr list_all2_map1 list_all2_same)
  qed
  ultimately show ?thesis
    using assms(2) by (simp add: safeRecordingPathSegments_def strip_leading_join [OF plain] split_join [OF plain])
qed

text \<open>
  The URL path of a recording never leaves \<open>/recordings/\<close>: it is made of segments that no URL
  parser takes for a dot segment and that hold no separator, and reading it back gives exactly the
  segments that were checked.
\<close>

theorem recording_url_stays_below:
  assumes "\<And>s. dec (encodeURIComponent s) = Some s" and "\<And>s. dec s = Some [] \<Longrightarrow> s = []"
  shows "case encodeRecordingPath dec p of
     Inl e \<Rightarrow> e = invalid_path
   | Inr u \<Rightarrow> safeRecordingPathSegments dec u = safeRecordingPathSegments dec p
       \<and> (\<exists>segs. segs \<noteq> [] \<and> u = join_slash segs \<and> split_on (CHR ''/'') u = segs
            \<and> list_all (\<lambda>s. s \<noteq> [] \<and> list_all url_char s \<and> \<not> dot_segment s) segs)"
proof (cases "safeRecordingPathSegments dec p")
  case (Inl e)
  have "only_fails (\<lambda>e. e = invalid_path) (safeRecordingPathSegments dec p)"
    unfolding safeRecordingPathSegments_def safe_segment_def
    by (intro only_fails_rbind only_fails_rmap) (auto intro!: only_fails_rbind)
  with Inl show ?thesis by (simp add: encodeRecordingPath_def)
next
  case (Inr ds)
  note ds = safe_segments_plain [OF Inr] and ne = safe_segments_nonempty [OF Inr assms(2)]
  let ?es = "map encodeURIComponent ds"
  have "plain_segment (encodeURIComponent d)" if "d \<in> set ds" for d
  proof -
    have "d \<noteq> []" "d \<noteq> ''.''" "d \<noteq> ''..''" using ds ne that unfolding list_all_iff by blast+
    then show ?thesis using encode_plain by blast
  qed
  then have plain: "list_all plain_segment ?es" unfolding list_all_iff set_map by blast
  have "list_all (\<lambda>s. s \<noteq> [] \<and> list_all url_char s \<and> \<not> dot_segment s) ?es"
    using ds ne encode_chars encode_not_dot by (auto simp: list_all_iff encode_Nil)
  moreover have "safeRecordingPathSegments dec (join_slash ?es) = Inr ds"
    using ds by (intro safe_segments_of_encoded [OF assms(1) _ ne]) simp_all
  moreover have "?es \<noteq> []" "split_on (CHR ''/'') (join_slash ?es) = ?es"
    using ds split_join [OF plain] by simp_all
  ultimately show ?thesis
    unfolding encodeRecordingPath_def Inr rbind_simps sum.case by (intro conjI exI [of _ ?es]) simp_all
qed

text \<open>A decoder for the characters of the model, to show that the hypotheses can hold.\<close>

definition hex_value :: "char \<Rightarrow> nat" where
  "hex_value c = (if is_digit c then code c - 48 else code c - 55)"

fun decode_latin :: "string \<Rightarrow> string option" where
  "decode_latin [] = Some []"
| "decode_latin (c # cs) =
     (if c \<noteq> CHR 0x25 then map_option (Cons c) (decode_latin cs)
      else (case cs of
              a # b # rest \<Rightarrow>
                (let n = 16 * hex_value a + hex_value b
                 in if n < 128 then map_option (Cons (char_of n)) (decode_latin rest)
                    else (case rest of
                            d # x # y # rest' \<Rightarrow>
                              map_option (Cons (char_of ((n - 192) * 64 + (16 * hex_value x + hex_value y - 128)))) (decode_latin rest')
                          | _ \<Rightarrow> None))
            | _ \<Rightarrow> None))"

lemma hex_value_digit: "n < 16 \<Longrightarrow> hex_value (hex_digit n) = n"
  by (auto simp: hex_value_def hex_digit_def is_digit_def code_char_of)

lemma char_of_code: "char_of (code c) = c"
  by (simp add: code_def)

lemma decode_encode_char: "decode_latin (encode_char c @ w) = map_option (Cons c) (decode_latin w)"
proof (cases "uri_mark c")
  case True
  then have "c \<noteq> CHR 0x25" using mark_not_percent by auto
  with True show ?thesis by (simp add: encode_char_def)
next
  case False
  have b: "code c div 16 < 16" "code c mod 16 < 16" "(192 + code c div 64) div 16 < 16" "(128 + code c mod 64) div 16 < 16"
    using code_bound [of c] by auto
  have n: "16 * ((192 + code c div 64) div 16) + (192 + code c div 64) mod 16 = 192 + code c div 64"
    "16 * ((128 + code c mod 64) div 16) + (128 + code c mod 64) mod 16 = 128 + code c mod 64"
    "16 * (code c div 16) + code c mod 16 = code c" "code c div 64 * 64 + code c mod 64 = code c"
    by (simp_all add: mult.commute)
  show ?thesis
    using False b by (simp add: encode_char_def percent_def hex_value_digit n Let_def char_of_code)
qed

lemma decode_latin_encode: "decode_latin (encodeURIComponent s) = Some s"
  by (induction s) (simp_all add: encodeURIComponent_def decode_encode_char)

lemma decode_latin_Nil: "decode_latin s = Some [] \<Longrightarrow> s = []"
  by (cases s) (auto simp: Let_def split: if_splits list.splits)

theorem recording_url_stays_below_witness:
  "case encodeRecordingPath decode_latin ''/a b/c.pcap'' of Inl e \<Rightarrow> False
   | Inr u \<Rightarrow> safeRecordingPathSegments decode_latin u = Inr [''a b'', ''c.pcap'']"
proof -
  have s: "safeRecordingPathSegments decode_latin ''/a b/c.pcap'' = Inr [''a b'', ''c.pcap'']" by code_simp
  show ?thesis
    using recording_url_stays_below [OF decode_latin_encode decode_latin_Nil, of "''/a b/c.pcap''"]
    by (auto simp: encodeRecordingPath_def s)
qed

section \<open>The recordings API of rtpbridge\<close>

text \<open>How an HTTP request fails: an axios error with a response, a timeout, anything else.\<close>

datatype http_failure = ResponseError int "string option" | ConnectionAborted | OtherFailure

definition recordingProxyError :: "http_failure \<Rightarrow> string \<Rightarrow> gw_error" where
  "recordingProxyError err fallback =
     (case err of
        ResponseError status m \<Rightarrow> MediaRecordingProxyError status (case m of Some t \<Rightarrow> t | None \<Rightarrow> fallback)
      | ConnectionAborted \<Rightarrow> MediaRecordingProxyError 504 (fallback @ '': timeout'')
      | OtherFailure \<Rightarrow> MediaRecordingProxyError 502 fallback)"

definition ensureTrailingSlash :: "string \<Rightarrow> string" where
  "ensureTrailingSlash url = (if url \<noteq> [] \<and> last url = CHR ''/'' then url else url @ ''/'')"

text \<open>\<open>new URL(path, base).toString()\<close> is an argument.\<close>

definition recordingUrl ::
  "(string \<Rightarrow> string \<Rightarrow> string) \<Rightarrow> (string \<Rightarrow> string option) \<Rightarrow> media_backend \<Rightarrow> string \<Rightarrow> (gw_error, string) result" where
  "recordingUrl url_resolve dec backend recordingPath =
     rbind (encodeRecordingPath dec recordingPath) (\<lambda>u.
     Inr (url_resolve (''/recordings/'' @ u) (ensureTrailingSlash (mb_httpUrl backend))))"

definition is_success :: "int \<Rightarrow> bool" where
  "is_success status \<longleftrightarrow> 200 \<le> status \<and> status < 300"

text \<open>\<open>http\<close> performs the request: the status and the \<open>error\<close> of its body.\<close>

definition deleteRecording_request ::
  "(string \<Rightarrow> string \<Rightarrow> string) \<Rightarrow> (string \<Rightarrow> string option) \<Rightarrow> recording_config \<Rightarrow> (gw_error, media_backend) result
   \<Rightarrow> (string \<Rightarrow> (http_failure, int \<times> string option) result) \<Rightarrow> string \<Rightarrow> (gw_error, unit) result" where
  "deleteRecording_request url_resolve dec cfg backend http recordingPath =
     rbind (requireOwnedRecordingPath dec cfg recordingPath) (\<lambda>_.
     rbind backend (\<lambda>b.
     rbind (recordingUrl url_resolve dec b recordingPath) (\<lambda>url.
     (case http url of
        Inl f \<Rightarrow> Inl (recordingProxyError f ''rtpbridge recording delete failed'')
      | Inr (status, err) \<Rightarrow>
          guard (is_success status) (MediaRecordingProxyError status
            (case err of Some m \<Rightarrow> m | None \<Rightarrow> ''rtpbridge recording delete failed with '' @ show_nat (nat status)))))))"

definition downloadRecording ::
  "(string \<Rightarrow> string \<Rightarrow> string) \<Rightarrow> (string \<Rightarrow> string option) \<Rightarrow> recording_config \<Rightarrow> (gw_error, media_backend) result
   \<Rightarrow> (string \<Rightarrow> (http_failure, int \<times> string) result) \<Rightarrow> string \<Rightarrow> (gw_error, int \<times> string) result" where
  "downloadRecording url_resolve dec cfg backend http recordingPath =
     rbind (requireOwnedRecordingPath dec cfg recordingPath) (\<lambda>_.
     rbind backend (\<lambda>b.
     rbind (recordingUrl url_resolve dec b recordingPath) (\<lambda>url.
     (case http url of
        Inl f \<Rightarrow> Inl (recordingProxyError f ''rtpbridge recording download failed'')
      | Inr r \<Rightarrow> Inr r))))"

definition downloadRecordingToFile ::
  "(string \<Rightarrow> string \<Rightarrow> string) \<Rightarrow> (string \<Rightarrow> string option) \<Rightarrow> (string \<Rightarrow> (http_failure, int \<times> string) result)
   \<Rightarrow> media_backend \<Rightarrow> string \<Rightarrow> (gw_error, string) result" where
  "downloadRecordingToFile url_resolve dec http backend recordingPath =
     (case recordingUrl url_resolve dec backend recordingPath of
        Inl _ \<Rightarrow> Inl (recordingProxyError OtherFailure ''rtpbridge recording download failed'')
      | Inr url \<Rightarrow>
          (case http url of
             Inl f \<Rightarrow> Inl (recordingProxyError f ''rtpbridge recording download failed'')
           | Inr (status, bytes) \<Rightarrow>
               rbind (guard (is_success status) (MediaRecordingProxyError status
                 (''rtpbridge recording download failed with '' @ show_nat (nat status)))) (\<lambda>_. Inr bytes)))"

section \<open>Listing\<close>

text \<open>The loop of \<open>listBackendRecordings\<close>; a server that never ends its pages keeps it going.\<close>

partial_function (option) list_pages ::
  "(nat \<Rightarrow> (http_failure, string list \<times> int option) result) \<Rightarrow> nat \<Rightarrow> string list \<Rightarrow> (gw_error, string list) result option" where
  "list_pages fetch skip acc =
     (case fetch skip of
        Inl f \<Rightarrow> Some (Inl (recordingProxyError f ''rtpbridge recording list failed''))
      | Inr (page, reported) \<Rightarrow>
          if length page < 1000 then Some (Inr (acc @ page))
          else if (case reported of None \<Rightarrow> True | Some t \<Rightarrow> int (skip + length page) < t)
          then list_pages fetch (skip + length page) (acc @ page)
          else Some (Inr (acc @ page)))"

definition listBackendRecordings ::
  "(nat \<Rightarrow> (http_failure, string list \<times> int option) result) \<Rightarrow> (gw_error, string list) result option" where
  "listBackendRecordings fetch = list_pages fetch 0 []"

text \<open>A server that pages through a fixed list, with or without reporting its length.\<close>

definition paging_server :: "bool \<Rightarrow> string list \<Rightarrow> nat \<Rightarrow> (http_failure, string list \<times> int option) result" where
  "paging_server reports xs skip = Inr (take 1000 (drop skip xs), if reports then Some (int (length xs)) else None)"

lemma list_pages_from:
  "skip \<le> length xs \<Longrightarrow> list_pages (paging_server reports xs) skip acc = Some (Inr (acc @ drop skip xs))"
proof (induction "length xs - skip" arbitrary: skip acc rule: less_induct)
  case less
  let ?page = "take 1000 (drop skip xs)"
  show ?case
  proof (cases "length ?page < 1000")
    case True
    then have "?page = drop skip xs" by (cases "length xs - skip < 1000") simp_all
    with True show ?thesis by (subst list_pages.simps) (simp add: paging_server_def)
  next
    case False
    then have len: "length ?page = 1000" "skip + 1000 \<le> length xs" by (simp_all add: min_def split: if_splits)
    have rest: "list_pages (paging_server reports xs) (skip + 1000) (acc @ ?page) = Some (Inr ((acc @ ?page) @ drop (skip + 1000) xs))"
      using len(2) by (intro less) simp_all
    have d: "?page @ drop (skip + 1000) xs = drop skip xs"
      by (metis add.commute append_take_drop_id drop_drop)
    show ?thesis
    proof (cases "reports \<and> skip + 1000 = length xs")
      case True
      then show ?thesis using len d by (subst list_pages.simps) (simp add: paging_server_def)
    next
      case no: False
      then have "\<not> length ?page < 1000" "reports \<longrightarrow> int (skip + 1000) < int (length xs)" using len by auto
      then show ?thesis using len rest d by (subst list_pages.simps) (simp add: paging_server_def)
    qed
  qed
qed

text \<open>
  Listing a backend terminates and is complete: for a server that pages through its recordings,
  whether or not it reports how many there are, the loop ends and returns all of them in order.
\<close>

theorem listBackendRecordings_complete:
  "listBackendRecordings (paging_server reports xs) = Some (Inr xs)"
  by (simp add: listBackendRecordings_def list_pages_from)

section \<open>One list for all backends\<close>

record list_params =
  lp_startsWith :: "string option"
  lp_skip :: "int option"
  lp_limit :: "int option"

definition list_skip :: "list_params \<Rightarrow> nat" where
  "list_skip p = nat (case lp_skip p of Some n \<Rightarrow> max 0 n | None \<Rightarrow> 0)"

definition list_limit :: "list_params \<Rightarrow> nat" where
  "list_limit p = nat (min (max 1 (case lp_limit p of Some n \<Rightarrow> n | None \<Rightarrow> 100)) 1000)"

text \<open>\<open>Array.prototype.sort\<close> is stable; \<open>le\<close> is \<open>localeCompare(..) <= 0\<close> on \<open>backendId/path\<close>.\<close>

fun insert_item :: "('a \<Rightarrow> 'a \<Rightarrow> bool) \<Rightarrow> 'a \<Rightarrow> 'a list \<Rightarrow> 'a list" where
  "insert_item le x [] = [x]"
| "insert_item le x (y # ys) = (if le x y then x # y # ys else y # insert_item le x ys)"

definition sort_items :: "('a \<Rightarrow> 'a \<Rightarrow> bool) \<Rightarrow> 'a list \<Rightarrow> 'a list" where
  "sort_items le xs = foldr (insert_item le) xs []"

definition item_key :: "string \<times> string \<Rightarrow> string" where
  "item_key i = fst i @ ''/'' @ snd i"

text \<open>A filter whose predicate may throw.\<close>

fun rfilter :: "('a \<Rightarrow> ('e, bool) result) \<Rightarrow> 'a list \<Rightarrow> ('e, 'a list) result" where
  "rfilter f [] = Inr []"
| "rfilter f (x # xs) = rbind (f x) (\<lambda>b. rbind (rfilter f xs) (\<lambda>ys. Inr (if b then x # ys else ys)))"

record recording_page =
  rp_recordings :: "(string \<times> string) list"
  rp_total :: nat
  rp_skip :: nat
  rp_limit :: nat

definition startsWith_allowed :: "recording_config \<Rightarrow> list_params \<Rightarrow> (gw_error, unit) result" where
  "startsWith_allowed cfg p =
     (case (rc_active_prefix cfg, lp_startsWith p) of
        (Some prefix, Some s) \<Rightarrow> guard (s = [] \<or> starts_with s prefix)
           (MediaRecordingProxyError 403 ''Recording path is outside the configured prefix'')
      | _ \<Rightarrow> Inr ())"

text \<open>\<open>byBackend\<close> is what \<open>listBackendRecordings\<close> returned for each backend.\<close>

definition listed_items ::
  "(string \<Rightarrow> string option) \<Rightarrow> recording_config \<Rightarrow> (string \<times> (gw_error, string list) result) list
   \<Rightarrow> (gw_error, (string \<times> string) list) result" where
  "listed_items dec cfg byBackend =
     rbind (rmap (\<lambda>(b, r). rbind r (\<lambda>ps. Inr (map (\<lambda>p. (b, p)) ps))) byBackend) (\<lambda>lists.
     rfilter (\<lambda>(b, p). if rc_active_prefix cfg = None then Inr True else ownsRecordingPath dec cfg p) (concat lists))"

definition listRecordings_page ::
  "(string \<Rightarrow> string option) \<Rightarrow> recording_config \<Rightarrow> (string \<Rightarrow> string \<Rightarrow> bool) \<Rightarrow> list_params
   \<Rightarrow> (string \<times> (gw_error, string list) result) list \<Rightarrow> (gw_error, recording_page) result" where
  "listRecordings_page dec cfg le p byBackend =
     rbind (startsWith_allowed cfg p) (\<lambda>_.
     rbind (listed_items dec cfg byBackend) (\<lambda>items.
     let everything = sort_items (\<lambda>a b. le (item_key a) (item_key b)) items
     in Inr \<lparr>rp_recordings = take (list_limit p) (drop (list_skip p) everything), rp_total = length everything,
             rp_skip = list_skip p, rp_limit = list_limit p\<rparr>))"

lemma mset_sort_items: "mset (sort_items le xs) = mset xs"
proof -
  have i: "mset (insert_item le x ys) = {#x#} + mset ys" for x and ys :: "'a list"
    by (induction ys) auto
  show ?thesis by (induction xs) (simp_all add: sort_items_def i)
qed

lemma rfilter_Inr: "rfilter f xs = Inr ys \<Longrightarrow> ys = filter (\<lambda>x. f x = Inr True) xs"
  by (induction xs arbitrary: ys) (auto simp: rbind_eq_Inr)

lemma page_concat: "concat (map (\<lambda>k. take n (drop (k * n) xs)) [0..<m]) = take (m * n) xs"
proof (induction m)
  case (Suc m)
  have "take (n + m * n) xs = take (m * n) xs @ take n (drop (m * n) xs)"
    using take_add [of "m * n" n xs] by (simp add: add.commute)
  with Suc show ?case by simp
qed simp

definition page_params :: "string option \<Rightarrow> int \<Rightarrow> nat \<Rightarrow> list_params" where
  "page_params s limit k = \<lparr>lp_startsWith = s, lp_skip = Some (int k * limit), lp_limit = Some limit\<rparr>"

definition items_of :: "(gw_error, recording_page) result \<Rightarrow> (string \<times> string) list" where
  "items_of r = (case r of Inr pg \<Rightarrow> rp_recordings pg | Inl _ \<Rightarrow> [])"

text \<open>
  Paging is exact: successive pages of a fixed set of backends give every recording that the
  configured prefix owns, each as often as the backends list it, and every page reports their number.
\<close>

theorem listRecordings_pages:
  assumes "1 \<le> limit" "limit \<le> 1000" and "listed_items dec cfg byBackend = Inr items"
    and "startsWith_allowed cfg (page_params s limit 0) = Inr ()" and "length items \<le> m * nat limit"
  shows "mset (concat (map (\<lambda>k. items_of (listRecordings_page dec cfg le (page_params s limit k) byBackend)) [0..<m])) = mset items
    \<and> list_all (\<lambda>k. map_sum id rp_total (listRecordings_page dec cfg le (page_params s limit k) byBackend) = Inr (length items)) [0..<m]
    \<and> list_all (\<lambda>(b, p). rc_active_prefix cfg = None \<or> ownsRecordingPath dec cfg p = Inr True) items"
proof -
  let ?all = "sort_items (\<lambda>a b. le (item_key a) (item_key b)) items"
  have w: "list_skip (page_params s limit k) = k * nat limit" "list_limit (page_params s limit k) = nat limit" for k
    using assms(1,2) by (simp_all add: list_skip_def list_limit_def page_params_def nat_mult_distrib)
  have len: "length ?all = length items" by (metis mset_sort_items size_mset)
  have a: "startsWith_allowed cfg (page_params s limit k) = Inr ()" for k
    using assms(4) by (simp add: startsWith_allowed_def page_params_def)
  have pg: "listRecordings_page dec cfg le (page_params s limit k) byBackend
      = Inr \<lparr>rp_recordings = take (nat limit) (drop (k * nat limit) ?all), rp_total = length items,
             rp_skip = k * nat limit, rp_limit = nat limit\<rparr>" for k
    by (simp add: listRecordings_page_def a assms(3) w len Let_def)
  have "mset (concat (map (\<lambda>k. items_of (listRecordings_page dec cfg le (page_params s limit k) byBackend)) [0..<m])) = mset items"
    using assms(5) by (simp add: pg items_of_def page_concat len mset_sort_items del: mset_concat)
  moreover have "list_all (\<lambda>k. map_sum id rp_total (listRecordings_page dec cfg le (page_params s limit k) byBackend) = Inr (length items)) [0..<m]"
    by (simp add: pg list_all_iff)
  moreover have "list_all (\<lambda>(b, p). rc_active_prefix cfg = None \<or> ownsRecordingPath dec cfg p = Inr True) items"
    using assms(3) by (auto simp: listed_items_def rbind_eq_Inr list_all_iff dest!: rfilter_Inr split: if_splits)
  ultimately show ?thesis by blast
qed

theorem listRecordings_pages_witness:
  "mset (concat (map (\<lambda>k. items_of (listRecordings_page Some
       \<lparr>rc_recordingsPath = ''/var/r'', rc_prefix = Some ''x-'', rc_cwd = ''/''\<rparr> (\<lambda>a b. length a \<le> length b) (page_params None 1 k)
       [(''a'', Inr [''x-1'', ''y-2'']), (''b'', Inr [''x-3''])])) [0..<2])) = {#(''a'', ''x-1''), (''b'', ''x-3'')#}"
proof -
  let ?cfg = "\<lparr>rc_recordingsPath = ''/var/r'', rc_prefix = Some ''x-'', rc_cwd = ''/''\<rparr>"
  have "listed_items Some ?cfg [(''a'', Inr [''x-1'', ''y-2'']), (''b'', Inr [''x-3''])] = Inr [(''a'', ''x-1''), (''b'', ''x-3'')]"
    by code_simp
  moreover have "startsWith_allowed ?cfg (page_params None 1 0) = Inr ()" by code_simp
  ultimately show ?thesis
    using listRecordings_pages [of 1 Some ?cfg "[(''a'', Inr [''x-1'', ''y-2'']), (''b'', Inr [''x-3''])]"
        "[(''a'', ''x-1''), (''b'', ''x-3'')]" None 2 "\<lambda>a b. length a \<le> length b"] by simp
qed

section \<open>Merging PCAP files\<close>

definition PCAP_HEADER_BYTES :: nat where
  "PCAP_HEADER_BYTES = 24"

definition readPcapHeader :: "string \<Rightarrow> (gw_error, string) result" where
  "readPcapHeader bytes =
     (let header = take PCAP_HEADER_BYTES bytes
      in rbind (guard (length header = PCAP_HEADER_BYTES) (MediaRecordingProxyError 422 ''Invalid PCAP segment''))
           (\<lambda>_. Inr header))"

fun append_segments :: "string \<Rightarrow> string \<Rightarrow> string list \<Rightarrow> (gw_error, string) result" where
  "append_segments firstHeader output [] = Inr output"
| "append_segments firstHeader output (segment # rest) =
     rbind (readPcapHeader segment) (\<lambda>header.
     rbind (guard (header = firstHeader) (MediaRecordingProxyError 422 ''PCAP segments have incompatible headers'')) (\<lambda>_.
     append_segments firstHeader (output @ drop PCAP_HEADER_BYTES segment) rest))"

definition mergePcapFiles :: "string list \<Rightarrow> (gw_error, string) result" where
  "mergePcapFiles segments =
     rbind (guard (segments \<noteq> []) (MediaRecordingProxyError 400 ''No PCAP segments to merge'')) (\<lambda>_.
     rbind (readPcapHeader (hd segments)) (\<lambda>firstHeader.
     append_segments firstHeader firstHeader segments))"

text \<open>What may be merged, and what the result is.\<close>

definition mergeable :: "string list \<Rightarrow> bool" where
  "mergeable segments \<longleftrightarrow> segments \<noteq> []
     \<and> list_all (\<lambda>s. 24 \<le> length s \<and> take 24 s = take 24 (hd segments)) segments"

definition merged :: "string list \<Rightarrow> string" where
  "merged segments = take 24 (hd segments) @ concat (map (drop 24) segments)"

lemma readPcapHeader_Inr: "readPcapHeader s = Inr h \<longleftrightarrow> 24 \<le> length s \<and> h = take 24 s"
  by (auto simp: readPcapHeader_def PCAP_HEADER_BYTES_def rbind_eq_Inr Let_def)

lemma append_segments_Inr:
  "append_segments h out ss = Inr r \<longleftrightarrow>
     list_all (\<lambda>s. 24 \<le> length s \<and> take 24 s = h) ss \<and> r = out @ concat (map (drop 24) ss)"
  by (induction ss arbitrary: out) (auto simp: rbind_eq_Inr readPcapHeader_Inr PCAP_HEADER_BYTES_def)

lemma mergePcapFiles_Inr: "mergePcapFiles ss = Inr r \<longleftrightarrow> mergeable ss \<and> r = merged ss"
  by (cases ss) (auto simp: mergePcapFiles_def mergeable_def merged_def rbind_eq_Inr readPcapHeader_Inr append_segments_Inr
      simp del: append_segments.simps)

lemma merged_header: "mergeable ss \<Longrightarrow> 24 \<le> length (merged ss) \<and> take 24 (merged ss) = take 24 (hd ss) \<and> drop 24 (merged ss) = concat (map (drop 24) ss)"
  by (cases ss) (auto simp: mergeable_def merged_def)

lemma append_segments_append: "append_segments h out (ss @ ts) = rbind (append_segments h out ss) (\<lambda>o2. append_segments h o2 ts)"
  by (induction ss arbitrary: out) (simp_all add: rbind_assoc)

lemma incompatible_headers:
  assumes "mergeable ss" "mergeable ts" "take 24 (hd ts) \<noteq> take 24 (hd ss)"
  shows "mergePcapFiles (ss @ ts) = Inl (MediaRecordingProxyError 422 ''PCAP segments have incompatible headers'')"
proof -
  obtain s ss' t ts' where c: "ss = s # ss'" "ts = t # ts'"
    using assms(1,2) unfolding mergeable_def by (metis neq_Nil_conv)
  have "append_segments (take 24 s) (take 24 s) ss = Inr (merged ss)"
    using assms(1) c by (simp add: append_segments_Inr mergeable_def merged_def del: append_segments.simps)
  then have m: "append_segments (take 24 s) (take 24 s) (ss @ ts) = append_segments (take 24 s) (merged ss) ts"
    by (simp add: append_segments_append)
  have h: "readPcapHeader s = Inr (take 24 s)" "readPcapHeader t = Inr (take 24 t)"
    using assms(1,2) c by (simp_all add: readPcapHeader_Inr mergeable_def)
  have "append_segments (take 24 s) (merged ss) ts = Inl (MediaRecordingProxyError 422 ''PCAP segments have incompatible headers'')"
    using assms(3) c by (simp add: h)
  moreover have "hd (ss @ ts) = s" "ss @ ts \<noteq> []" using c by simp_all
  ultimately show ?thesis using m h(1) by (simp add: mergePcapFiles_def)
qed

lemma merge_twice:
  assumes "mergePcapFiles ss = Inr r" "mergePcapFiles ts = Inr q"
  shows "mergePcapFiles [r, q] = mergePcapFiles (ss @ ts)"
proof -
  from assms have ss: "mergeable ss" "r = merged ss" and ts: "mergeable ts" "q = merged ts" by (simp_all add: mergePcapFiles_Inr)
  note h = merged_header [OF ss(1)] merged_header [OF ts(1)]
  have one: "mergeable [r]" "mergeable [q]" using h ss ts by (simp_all add: mergeable_def)
  show ?thesis
  proof (cases "take 24 (hd ts) = take 24 (hd ss)")
    case True
    have "mergeable (ss @ ts)" using ss(1) ts(1) True by (simp add: mergeable_def)
    moreover have "mergeable [r, q]" using h ss ts True by (simp add: mergeable_def)
    moreover have "merged [r, q] = merged (ss @ ts)" using h ss ts by (simp add: merged_def mergeable_def)
    ultimately show ?thesis by (metis mergePcapFiles_Inr)
  next
    case False
    then have "take 24 (hd [q]) \<noteq> take 24 (hd [r])" using h ss ts by simp
    from incompatible_headers [OF one this] incompatible_headers [OF ss(1) ts(1) False] show ?thesis by simp
  qed
qed

lemma merge_fails:
  assumes "mergePcapFiles ss = Inl e"
  shows "\<not> mergeable ss \<and> (\<exists>m. e = MediaRecordingProxyError 400 m \<or> e = MediaRecordingProxyError 422 m)"
proof -
  let ?P = "\<lambda>e. \<exists>m. e = MediaRecordingProxyError 400 m \<or> e = MediaRecordingProxyError 422 m"
  have "only_fails ?P (append_segments h out ss)" for h out
    by (induction ss arbitrary: out) (auto simp: readPcapHeader_def Let_def intro!: only_fails_rbind)
  then have "only_fails ?P (mergePcapFiles ss)"
    unfolding mergePcapFiles_def readPcapHeader_def Let_def by (intro only_fails_rbind) auto
  moreover have "\<not> mergeable ss" using mergePcapFiles_Inr [of ss "merged ss"] assms by simp
  ultimately show ?thesis using assms by simp
qed

text \<open>
  Merging PCAP files is exact: it succeeds for exactly the nonempty lists of files with one common
  24-byte header, the result is that header followed by the packets of all files in order, and merging
  in two stages gives what merging at once gives, also when the headers disagree.
\<close>

theorem mergePcapFiles_exact:
  "(case mergePcapFiles ss of
      Inr r \<Rightarrow> mergeable ss \<and> r = merged ss
    | Inl e \<Rightarrow> \<not> mergeable ss \<and> (\<exists>m. e = MediaRecordingProxyError 400 m \<or> e = MediaRecordingProxyError 422 m))
   \<and> (case (mergePcapFiles ss, mergePcapFiles ts) of
         (Inr r, Inr q) \<Rightarrow> mergePcapFiles [r, q] = mergePcapFiles (ss @ ts)
       | _ \<Rightarrow> True)"
  using merge_fails [of ss] merge_twice [of ss _ ts] by (auto simp: mergePcapFiles_Inr split: sum.split)

section \<open>The merge request\<close>

datatype merge_effect = MakeTemp | Fetch string string | RemoveTemp

definition MAX_RECORDING_MERGE_TARGETS :: nat where
  "MAX_RECORDING_MERGE_TARGETS = 1000"

definition check_targets ::
  "(string \<Rightarrow> string option) \<Rightarrow> recording_config \<Rightarrow> (string \<times> string) list \<Rightarrow> (gw_error, unit) result" where
  "check_targets dec cfg targets =
     rbind (guard (targets \<noteq> []) (MediaRecordingProxyError 400 ''recording merge requires at least one target'')) (\<lambda>_.
     rbind (guard (length targets \<le> MAX_RECORDING_MERGE_TARGETS)
       (MediaRecordingProxyError 400 (''recording merge supports at most '' @ show_nat MAX_RECORDING_MERGE_TARGETS @ '' targets''))) (\<lambda>_.
     rbind (rmap (\<lambda>t. requireOwnedRecordingPath dec cfg (snd t)) targets) (\<lambda>_. Inr ())))"

text \<open>The downloads in order, until one fails; \<open>fetch\<close> resolves the backend and stores the file.\<close>

fun fetch_all ::
  "(string \<Rightarrow> string \<Rightarrow> (gw_error, string) result) \<Rightarrow> (string \<times> string) list \<Rightarrow> merge_effect list \<times> (gw_error, string list) result" where
  "fetch_all fetch [] = ([], Inr [])"
| "fetch_all fetch ((b, p) # ts) =
     (case fetch b p of
        Inl e \<Rightarrow> ([Fetch b p], Inl e)
      | Inr file_bytes \<Rightarrow> (case fetch_all fetch ts of (effects, r) \<Rightarrow> (Fetch b p # effects, rbind r (\<lambda>fs. Inr (file_bytes # fs)))))"

definition proxy_error :: "gw_error \<Rightarrow> gw_error" where
  "proxy_error e =
     (case e of MediaRecordingProxyError _ _ \<Rightarrow> e
      | _ \<Rightarrow> recordingProxyError OtherFailure ''rtpbridge recording merge failed'')"

definition mergeRecordings ::
  "(string \<Rightarrow> string option) \<Rightarrow> recording_config \<Rightarrow> (string \<Rightarrow> string \<Rightarrow> (gw_error, string) result) \<Rightarrow> (string \<times> string) list
   \<Rightarrow> merge_effect list \<times> (gw_error, string) result" where
  "mergeRecordings dec cfg fetch targets =
     (case check_targets dec cfg targets of
        Inl e \<Rightarrow> ([], Inl e)
      | Inr _ \<Rightarrow>
          (case fetch_all fetch targets of
             (effects, r) \<Rightarrow>
               (case rbind r mergePcapFiles of
                  Inl e \<Rightarrow> (MakeTemp # effects @ [RemoveTemp], Inl (proxy_error e))
                | Inr bytes \<Rightarrow> (MakeTemp # effects, Inr bytes))))"

text \<open>The stream of the merged file removes the directory when it closes or fails, once.\<close>

definition stream_events :: "nat \<Rightarrow> merge_effect list" where
  "stream_events n = (if n = 0 then [] else [RemoveTemp])"

lemma fetch_all_effects:
  "count_list (fst (fetch_all fetch ts)) MakeTemp = 0 \<and> count_list (fst (fetch_all fetch ts)) RemoveTemp = 0"
  "Fetch b p \<in> set (fst (fetch_all fetch ts)) \<Longrightarrow> (b, p) \<in> set ts"
  by (induction fetch ts rule: fetch_all.induct) (auto simp: case_prod_beta split: sum.splits)

definition owned_fetch :: "(string \<Rightarrow> string option) \<Rightarrow> recording_config \<Rightarrow> merge_effect \<Rightarrow> bool" where
  "owned_fetch dec cfg x = (case x of Fetch b p \<Rightarrow> requireOwnedRecordingPath dec cfg p = Inr () | _ \<Rightarrow> True)"

text \<open>
  A merge request never touches a recording outside the configured prefix, not even when a later
  target is what makes it fail, and its temporary directory is removed exactly once: on failure before
  the error is reported, on success when the stream is closed, however often it signals.
\<close>

theorem mergeRecordings_safe:
  "case mergeRecordings dec cfg fetch targets of
     (effects, r) \<Rightarrow>
       list_all (owned_fetch dec cfg) effects
       \<and> (case r of
            Inr _ \<Rightarrow> count_list (effects @ stream_events (Suc n)) RemoveTemp = count_list effects MakeTemp \<and> count_list effects MakeTemp = 1
          | Inl e \<Rightarrow> count_list effects RemoveTemp = count_list effects MakeTemp \<and> (case e of MediaRecordingProxyError _ _ \<Rightarrow> True | _ \<Rightarrow> False))"
proof (cases "check_targets dec cfg targets")
  case (Inl e)
  have "only_fails (\<lambda>e. case e of MediaRecordingProxyError _ _ \<Rightarrow> True | _ \<Rightarrow> False) (check_targets dec cfg targets)"
    unfolding check_targets_def requireOwnedRecordingPath_def ownsRecordingPath_def safeRecordingPathSegments_def safe_segment_def invalid_path_def
    by (intro only_fails_rbind only_fails_rmap) (auto intro!: only_fails_rbind only_fails_rmap split: option.split)
  with Inl show ?thesis by (simp add: mergeRecordings_def)
next
  case (Inr u)
  then have "requireOwnedRecordingPath dec cfg p = Inr ()" if "(b, p) \<in> set targets" for b p
    using that by (auto simp: check_targets_def rbind_eq_Inr rmap_eq_Inr list_all2_conv_all_nth in_set_conv_nth)
  then have "requireOwnedRecordingPath dec cfg p = Inr ()" if "Fetch b p \<in> set (fst (fetch_all fetch targets))" for b p
    using that fetch_all_effects(2) by blast
  then have "list_all (owned_fetch dec cfg) (fst (fetch_all fetch targets))"
    by (auto simp: list_all_iff owned_fetch_def split: merge_effect.split)
  with Inr fetch_all_effects(1) [of fetch targets] show ?thesis
    by (auto simp: mergeRecordings_def case_prod_beta owned_fetch_def stream_events_def proxy_error_def recordingProxyError_def
        split: sum.split gw_error.split)
qed

end
