(* ===== verification/MediaStore.thy ===== *)
theory MediaStore
  imports Recordings
begin

text \<open>
  The tables that \<open>src/media-session-service.ts\<close> keeps: the records of media sessions, the map of live
  sessions, the map from endpoints to sessions, the removals that wait for rtpbridge, and beside them the
  recordings, the pending ICE restarts, the claims on endpoints and the endpoints in sensitive mode. Records are objects that closures hold on to, so they live on a heap and the maps refer to
  them by index; a completion that arrives late works on the record it started with, dead or alive.
\<close>

section \<open>Records\<close>

record media_endpoint =
  me_type :: string
  me_direction :: "string option"
  me_pairedSessionId :: "string option"
  me_pairedEndpointId :: "string option"
  me_createdAt :: string

record 'ice media_session =
  se_id :: string
  se_callId :: "string option"
  se_backendId :: "string option"
  se_ice :: "'ice option"
  se_owner :: "string option"
  se_createdAt :: string
  se_updatedAt :: string
  se_endpoints :: "(string, media_endpoint) omap"

text \<open>
  A removal in flight: the record, the endpoint, and the endpoint's snapshot when it started. Recordings
  are kept with the session they belong to; an active action is its name and the identity of its
  record, numbered in the order of the claims.
\<close>

type_synonym removal = "nat \<times> string \<times> media_endpoint option"

record 'ice media_store =
  st_heap :: "'ice media_session list"
  st_sessions :: "(string, nat) omap"
  st_endpointToSession :: "(string, string) omap"
  st_removing :: "removal list"
  st_recordings :: "(string, string \<times> recording_metadata) omap"
  st_pendingIceRestarts :: "string list"
  st_activeEndpointActions :: "(string, string \<times> nat) omap"
  st_sensitive :: "string list"
  st_nextAction :: nat

definition empty_store :: "'ice media_store" where
  "empty_store = \<lparr>st_heap = [], st_sessions = [], st_endpointToSession = [], st_removing = [], st_recordings = [],
     st_pendingIceRestarts = [], st_activeEndpointActions = [], st_sensitive = [], st_nextAction = 0\<rparr>"

section \<open>Lookups\<close>

definition requireSession :: "string \<Rightarrow> 'ice media_store \<Rightarrow> (gw_error, nat) result" where
  "requireSession sid st =
     require (MediaSessionNotFoundError (''Media session '' @ sid @ '' not found'')) (oget (st_sessions st) sid)"

definition requireSessionForEndpoint :: "string \<Rightarrow> 'ice media_store \<Rightarrow> (gw_error, nat) result" where
  "requireSessionForEndpoint ep st =
     rbind (require (MediaEndpointNotFoundError (''Media endpoint '' @ ep @ '' not found''))
       (present (oget (st_endpointToSession st) ep))) (\<lambda>sid. requireSession sid st)"

definition endpoints_of :: "nat \<Rightarrow> 'ice media_store \<Rightarrow> (string, media_endpoint) omap" where
  "endpoints_of r st = (if r < length (st_heap st) then se_endpoints (st_heap st ! r) else [])"

definition id_of :: "nat \<Rightarrow> 'ice media_store \<Rightarrow> string" where
  "id_of r st = (if r < length (st_heap st) then se_id (st_heap st ! r) else [])"

definition requireEndpointInSession :: "string \<Rightarrow> string \<Rightarrow> 'ice media_store \<Rightarrow> (gw_error, nat) result" where
  "requireEndpointInSession sid ep st =
     rbind (requireSession sid st) (\<lambda>r.
     rbind (guard (oget (st_endpointToSession st) ep = Some sid \<and> ohas (endpoints_of r st) ep)
       (MediaEndpointNotFoundError (''Media endpoint '' @ ep @ '' not found in session '' @ sid))) (\<lambda>_. Inr r))"

definition is_live :: "nat \<Rightarrow> 'ice media_store \<Rightarrow> bool" where
  "is_live r st \<longleftrightarrow> oget (st_sessions st) (id_of r st) = Some r"

section \<open>Updates\<close>

definition update_session ::
  "nat \<Rightarrow> ('ice media_session \<Rightarrow> 'ice media_session) \<Rightarrow> 'ice media_store \<Rightarrow> 'ice media_store" where
  "update_session r f st =
     (if r < length (st_heap st) then st\<lparr>st_heap := (st_heap st)[r := f (st_heap st ! r)]\<rparr> else st)"

definition touch :: "string \<Rightarrow> nat \<Rightarrow> 'ice media_store \<Rightarrow> 'ice media_store" where
  "touch now r = update_session r (\<lambda>s. s\<lparr>se_updatedAt := now\<rparr>)"

definition addEndpoint ::
  "string \<Rightarrow> nat \<Rightarrow> string \<Rightarrow> string \<Rightarrow> string option \<Rightarrow> (string \<times> string) option \<Rightarrow> 'ice media_store \<Rightarrow> 'ice media_store" where
  "addEndpoint now r ep type dir paired st =
     (let e = \<lparr>me_type = type, me_direction = dir, me_pairedSessionId = map_option fst paired,
               me_pairedEndpointId = map_option snd paired, me_createdAt = now\<rparr>;
          st1 = update_session r (\<lambda>s. s\<lparr>se_endpoints := oset ep e (se_endpoints s)\<rparr>) st;
          st2 = st1\<lparr>st_endpointToSession := oset ep (id_of r st) (st_endpointToSession st1)\<rparr>
      in touch now r st2)"

definition removeEndpointSnapshot :: "string \<Rightarrow> nat \<Rightarrow> string \<Rightarrow> 'ice media_store \<Rightarrow> 'ice media_store" where
  "removeEndpointSnapshot now r ep st =
     (let st1 = update_session r (\<lambda>s. s\<lparr>se_endpoints := odel ep (se_endpoints s)\<rparr>) st;
          st2 = st1\<lparr>st_endpointToSession := odel ep (st_endpointToSession st1),
                    st_pendingIceRestarts := removeAll ep (st_pendingIceRestarts st1),
                    st_activeEndpointActions := odel ep (st_activeEndpointActions st1),
                    st_sensitive := removeAll ep (st_sensitive st1)\<rparr>
      in touch now r st2)"

text \<open>The session and the endpoint at the other end of a bridge, when they are there.\<close>

definition paired_with :: "media_endpoint \<Rightarrow> 'ice media_store \<Rightarrow> (nat \<times> string) option" where
  "paired_with e st =
     (case (present (me_pairedSessionId e), present (me_pairedEndpointId e)) of
        (Some s, Some p) \<Rightarrow> map_option (\<lambda>r. (r, p)) (oget (st_sessions st) s)
      | _ \<Rightarrow> None)"

definition removePairedBridgeEndpoint :: "string \<Rightarrow> media_endpoint \<Rightarrow> 'ice media_store \<Rightarrow> 'ice media_store" where
  "removePairedBridgeEndpoint now e st =
     (case paired_with e st of None \<Rightarrow> st | Some (r, p) \<Rightarrow> removeEndpointSnapshot now r p st)"

definition dropPairedBridgeEndpoints :: "string \<Rightarrow> nat \<Rightarrow> 'ice media_store \<Rightarrow> 'ice media_store" where
  "dropPairedBridgeEndpoints now r st =
     foldl (\<lambda>st (_, e). if me_type e = ''bridge'' then removePairedBridgeEndpoint now e st else st) st (endpoints_of r st)"

section \<open>Operations\<close>

definition register_session :: "'ice media_session \<Rightarrow> 'ice media_store \<Rightarrow> 'ice media_store" where
  "register_session s st =
     st\<lparr>st_heap := st_heap st @ [s\<lparr>se_endpoints := []\<rparr>], st_sessions := oset (se_id s) (length (st_heap st)) (st_sessions st)\<rparr>"

text \<open>
  Claims on endpoints. Cancelling a gather finishes it on the spot, its release included; the signal that
  a leave-message action gets is acted on later.
\<close>

definition claimEndpointAction :: "string \<Rightarrow> string \<Rightarrow> 'ice media_store \<Rightarrow> (gw_error, 'ice media_store \<times> nat) result" where
  "claimEndpointAction ep action st =
     (case oget (st_activeEndpointActions st) ep of
        Some (name, _) \<Rightarrow> Inl (MediaActionConflictError (''Endpoint '' @ ep @ '' already has active '' @ name))
      | None \<Rightarrow> Inr (st\<lparr>st_activeEndpointActions := oset ep (action, st_nextAction st) (st_activeEndpointActions st),
                        st_nextAction := st_nextAction st + 1\<rparr>, st_nextAction st))"

definition release :: "string \<Rightarrow> nat \<Rightarrow> 'ice media_store \<Rightarrow> 'ice media_store" where
  "release ep k st =
     (case oget (st_activeEndpointActions st) ep of
        Some (_, j) \<Rightarrow> if j = k then st\<lparr>st_activeEndpointActions := odel ep (st_activeEndpointActions st)\<rparr> else st
      | None \<Rightarrow> st)"

definition cancelEndpointAction :: "'ice media_store \<Rightarrow> string \<Rightarrow> 'ice media_store" where
  "cancelEndpointAction st ep =
     (case oget (st_activeEndpointActions st) ep of
        Some (name, k) \<Rightarrow> if name = ''gather'' then release ep k st else st
      | None \<Rightarrow> st)"

definition cancelled_actions :: "'ice media_store \<Rightarrow> string \<Rightarrow> nat list" where
  "cancelled_actions st ep = (case oget (st_activeEndpointActions st) ep of Some (_, k) \<Rightarrow> [k] | None \<Rightarrow> [])"

definition cancelSessionActions :: "nat \<Rightarrow> 'ice media_store \<Rightarrow> 'ice media_store" where
  "cancelSessionActions r st = foldl cancelEndpointAction st (okeys (endpoints_of r st))"

definition drop_session :: "string \<Rightarrow> string \<Rightarrow> 'ice media_store \<Rightarrow> 'ice media_store" where
  "drop_session now sid st =
     (case oget (st_sessions st) sid of
        None \<Rightarrow> st
      | Some r \<Rightarrow>
          let st1 = dropPairedBridgeEndpoints now r (cancelSessionActions r st);
              eps = okeys (endpoints_of r st1)
          in st1\<lparr>st_sessions := odel sid (st_sessions st1),
                 st_endpointToSession := foldl (\<lambda>m ep. odel ep m) (st_endpointToSession st1) eps,
                 st_sensitive := filter (\<lambda>ep. ep \<notin> set eps) (st_sensitive st1),
                 st_pendingIceRestarts := filter (\<lambda>ep. ep \<notin> set eps) (st_pendingIceRestarts st1),
                 st_recordings := filter (\<lambda>(_, (s, _)). s \<noteq> sid) (st_recordings st1)\<rparr>)"

text \<open>What \<open>dropSession\<close> tells others: the actions it cancels and the pin of the call it lets go.\<close>

definition drop_outputs :: "string \<Rightarrow> 'ice media_store \<Rightarrow> nat list \<times> (string \<times> string option) option" where
  "drop_outputs sid st =
     (case oget (st_sessions st) sid of
        None \<Rightarrow> ([], None)
      | Some r \<Rightarrow> (concat (map (cancelled_actions st) (okeys (endpoints_of r st))),
          map_option (\<lambda>c. (c, se_backendId (st_heap st ! r))) (present (se_callId (st_heap st ! r)))))"

definition bridge_refused :: "nat \<Rightarrow> nat \<Rightarrow> 'ice media_store \<Rightarrow> gw_error option" where
  "bridge_refused r t st =
     (if id_of r st = id_of t st then Some (MediaActionConflictError ''Cannot bridge a media session to itself'')
      else if se_backendId (st_heap st ! r) \<noteq> se_backendId (st_heap st ! t)
      then Some (MediaActionConflictError ''Cannot bridge media sessions on different rtpbridge backends'')
      else None)"

text \<open>\<open>bridge\<close> up to its \<open>await\<close>: the two records and the direction it asks rtpbridge for.\<close>

definition bridge_start :: "string \<Rightarrow> string \<Rightarrow> string option \<Rightarrow> 'ice media_store \<Rightarrow> (gw_error, nat \<times> nat \<times> string) result" where
  "bridge_start sid target dir st =
     rbind (requireSession sid st) (\<lambda>r.
     rbind (requireSession target st) (\<lambda>t.
     (case bridge_refused r t st of
        Some e \<Rightarrow> Inl e
      | None \<Rightarrow> Inr (r, t, case dir of Some d \<Rightarrow> d | None \<Rightarrow> ''sendrecv''))))"

text \<open>After the \<open>await\<close>: both records must still be the live ones.\<close>

definition bridge_done ::
  "string \<Rightarrow> nat \<Rightarrow> nat \<Rightarrow> string \<Rightarrow> string \<Rightarrow> string \<Rightarrow> 'ice media_store \<Rightarrow> 'ice media_store \<times> (gw_error, unit) result" where
  "bridge_done now r t dir ep tep st =
     (if \<not> is_live r st \<or> \<not> is_live t st
      then (st, Inl (MediaSessionNotFoundError ''Media session was destroyed while bridge was being created''))
      else (addEndpoint now t tep ''bridge'' (Some dir) (Some (id_of r st, ep))
             (addEndpoint now r ep ''bridge'' (Some dir) (Some (id_of t st, tep)) st), Inr ()))"

definition remove_start :: "nat \<Rightarrow> string \<Rightarrow> 'ice media_store \<Rightarrow> 'ice media_store" where
  "remove_start r ep st = st\<lparr>st_removing := st_removing st @ [(r, ep, oget (endpoints_of r st) ep)]\<rparr>"

text \<open>\<open>removeTrackedEndpoint\<close> after rtpbridge has answered; \<open>ok\<close> tells whether it removed the endpoint.\<close>

definition remove_done :: "string \<Rightarrow> removal \<Rightarrow> bool \<Rightarrow> 'ice media_store \<Rightarrow> 'ice media_store \<times> bool" where
  "remove_done now x ok st =
     (case x of
        (r, ep, snapshot) \<Rightarrow>
          if \<not> ok \<and> is_live r st \<and> ohas (endpoints_of r st) ep then (st, False)
          else let st1 = removeEndpointSnapshot now r ep st
               in (case snapshot of
                     Some e \<Rightarrow> if me_type e = ''bridge'' then removePairedBridgeEndpoint now e st1 else st1
                   | None \<Rightarrow> st1, True))"

definition set_direction :: "string \<Rightarrow> nat \<Rightarrow> string \<Rightarrow> string \<Rightarrow> 'ice media_store \<Rightarrow> 'ice media_store" where
  "set_direction now r ep dir st =
     touch now r (case oget (endpoints_of r st) ep of
       None \<Rightarrow> st
     | Some e \<Rightarrow> update_session r (\<lambda>s. s\<lparr>se_endpoints := oset ep (e\<lparr>me_direction := Some dir\<rparr>) (se_endpoints s)\<rparr>) st)"

section \<open>Steps\<close>

text \<open>
  What the operations do to the store, one event per segment between two awaits. A completion may
  arrive at any time and for any record: the runs of the code are among these.
\<close>

datatype 'ice store_event =
  Registered "'ice media_session"
| EndpointAdded string nat string string "string option"
| BridgeDone string nat nat string string string
| RemoveStart nat string
| RemoveDone string nat bool
| DirectionSet string nat string string
| IceSet string nat "'ice option"
| Dropped string string
| ActionClaimed string string
| ActionReleased string nat
| ActionCancelled string
| SensitiveMarked string
| SensitiveCleared string
| IceRestartPending string
| IceRestartOver string
| RecordingStarted string string recording_metadata
| RecordingStopped string

fun store_step :: "'ice media_store \<Rightarrow> 'ice store_event \<Rightarrow> 'ice media_store" where
  "store_step st (Registered s) = register_session s st"
| "store_step st (EndpointAdded now r ep type dir) =
     (if r < length (st_heap st) then addEndpoint now r ep type dir None st else st)"
| "store_step st (BridgeDone now r t dir ep tep) = fst (bridge_done now r t dir ep tep st)"
| "store_step st (RemoveStart r ep) = remove_start r ep st"
| "store_step st (RemoveDone now k ok) =
     (if k < length (st_removing st) then fst (remove_done now (st_removing st ! k) ok st) else st)"
| "store_step st (DirectionSet now r ep dir) = set_direction now r ep dir st"
| "store_step st (IceSet now r ice) = touch now r (update_session r (\<lambda>s. s\<lparr>se_ice := ice\<rparr>) st)"
| "store_step st (Dropped now sid) = drop_session now sid st"
| "store_step st (ActionClaimed ep action) = (case claimEndpointAction ep action st of Inl _ \<Rightarrow> st | Inr (st', _) \<Rightarrow> st')"
| "store_step st (ActionReleased ep k) = release ep k st"
| "store_step st (ActionCancelled ep) = cancelEndpointAction st ep"
| "store_step st (SensitiveMarked ep) = st\<lparr>st_sensitive := sadd ep (st_sensitive st)\<rparr>"
| "store_step st (SensitiveCleared ep) = st\<lparr>st_sensitive := removeAll ep (st_sensitive st)\<rparr>"
| "store_step st (IceRestartPending ep) = st\<lparr>st_pendingIceRestarts := sadd ep (st_pendingIceRestarts st)\<rparr>"
| "store_step st (IceRestartOver ep) = st\<lparr>st_pendingIceRestarts := removeAll ep (st_pendingIceRestarts st)\<rparr>"
| "store_step st (RecordingStarted rec sid m) = st\<lparr>st_recordings := oset rec (sid, m) (st_recordings st)\<rparr>"
| "store_step st (RecordingStopped rec) = st\<lparr>st_recordings := odel rec (st_recordings st)\<rparr>"

section \<open>What an update changes\<close>

lemma update_session_simps [simp]:
  "st_sessions (update_session r f st) = st_sessions st"
  "st_endpointToSession (update_session r f st) = st_endpointToSession st"
  "st_removing (update_session r f st) = st_removing st"
  "length (st_heap (update_session r f st)) = length (st_heap st)"
  by (simp_all add: update_session_def)

lemma endpoints_of_update:
  "endpoints_of q (update_session r f st) =
     (if q = r \<and> r < length (st_heap st) then se_endpoints (f (st_heap st ! r)) else endpoints_of q st)"
  by (auto simp: endpoints_of_def update_session_def)

lemma endpoints_at: "r < length (st_heap st) \<Longrightarrow> se_endpoints (st_heap st ! r) = endpoints_of r st"
  by (simp add: endpoints_of_def)

lemma endpoints_none [simp]: "\<not> r < length (st_heap st) \<Longrightarrow> endpoints_of r st = []"
  by (simp add: endpoints_of_def)

lemma id_of_update: "(\<And>s. se_id (f s) = se_id s) \<Longrightarrow> id_of q (update_session r f st) = id_of q st"
  by (auto simp: id_of_def update_session_def nth_list_update)

lemma store_updates [simp]:
  "endpoints_of q (st\<lparr>st_endpointToSession := m\<rparr>) = endpoints_of q st" "id_of q (st\<lparr>st_endpointToSession := m\<rparr>) = id_of q st"
  "endpoints_of q (st\<lparr>st_removing := x\<rparr>) = endpoints_of q st" "id_of q (st\<lparr>st_removing := x\<rparr>) = id_of q st"
  "endpoints_of q (st\<lparr>st_sessions := y\<rparr>) = endpoints_of q st" "id_of q (st\<lparr>st_sessions := y\<rparr>) = id_of q st"
  "endpoints_of q (st\<lparr>st_recordings := a\<rparr>) = endpoints_of q st" "id_of q (st\<lparr>st_recordings := a\<rparr>) = id_of q st"
  "endpoints_of q (st\<lparr>st_pendingIceRestarts := b\<rparr>) = endpoints_of q st" "id_of q (st\<lparr>st_pendingIceRestarts := b\<rparr>) = id_of q st"
  "endpoints_of q (st\<lparr>st_activeEndpointActions := c\<rparr>) = endpoints_of q st" "id_of q (st\<lparr>st_activeEndpointActions := c\<rparr>) = id_of q st"
  "endpoints_of q (st\<lparr>st_sensitive := z\<rparr>) = endpoints_of q st" "id_of q (st\<lparr>st_sensitive := z\<rparr>) = id_of q st"
  "endpoints_of q (st\<lparr>st_nextAction := n\<rparr>) = endpoints_of q st" "id_of q (st\<lparr>st_nextAction := n\<rparr>) = id_of q st"
  by (simp_all add: endpoints_of_def id_of_def)

lemma touch_simps [simp]:
  "st_sessions (touch now r st) = st_sessions st" "st_endpointToSession (touch now r st) = st_endpointToSession st"
  "st_removing (touch now r st) = st_removing st" "length (st_heap (touch now r st)) = length (st_heap st)"
  "endpoints_of q (touch now r st) = endpoints_of q st" "id_of q (touch now r st) = id_of q st"
  by (auto simp: touch_def endpoints_of_update id_of_update endpoints_at)

definition new_endpoint :: "string \<Rightarrow> string \<Rightarrow> string option \<Rightarrow> (string \<times> string) option \<Rightarrow> media_endpoint" where
  "new_endpoint now type dir paired =
     \<lparr>me_type = type, me_direction = dir, me_pairedSessionId = map_option fst paired,
      me_pairedEndpointId = map_option snd paired, me_createdAt = now\<rparr>"

lemma addEndpoint_simps [simp]:
  "st_sessions (addEndpoint now r ep ty dir pr st) = st_sessions st"
  "st_endpointToSession (addEndpoint now r ep ty dir pr st) = oset ep (id_of r st) (st_endpointToSession st)"
  "st_removing (addEndpoint now r ep ty dir pr st) = st_removing st"
  "length (st_heap (addEndpoint now r ep ty dir pr st)) = length (st_heap st)"
  "id_of q (addEndpoint now r ep ty dir pr st) = id_of q st"
  "endpoints_of q (addEndpoint now r ep ty dir pr st) =
     (if q = r \<and> r < length (st_heap st) then oset ep (new_endpoint now ty dir pr) (endpoints_of r st) else endpoints_of q st)"
  by (simp_all add: addEndpoint_def Let_def id_of_update endpoints_of_update new_endpoint_def endpoints_at)

lemma removeEndpointSnapshot_simps [simp]:
  "st_sessions (removeEndpointSnapshot now r ep st) = st_sessions st"
  "st_endpointToSession (removeEndpointSnapshot now r ep st) = odel ep (st_endpointToSession st)"
  "st_removing (removeEndpointSnapshot now r ep st) = st_removing st"
  "length (st_heap (removeEndpointSnapshot now r ep st)) = length (st_heap st)"
  "id_of q (removeEndpointSnapshot now r ep st) = id_of q st"
  "endpoints_of q (removeEndpointSnapshot now r ep st) = (if q = r then odel ep (endpoints_of r st) else endpoints_of q st)"
  by (auto simp: removeEndpointSnapshot_def Let_def id_of_update endpoints_of_update endpoints_at)

lemma paired_with_same: "st_sessions st' = st_sessions st \<Longrightarrow> paired_with e st' = paired_with e st"
  by (simp add: paired_with_def split: option.split)

section \<open>The invariant\<close>

abbreviation entry :: "nat \<Rightarrow> string \<Rightarrow> 'ice media_store \<Rightarrow> media_endpoint option" where
  "entry r ep st \<equiv> oget (endpoints_of r st) ep"

definition mate :: "'ice media_store \<Rightarrow> media_endpoint \<Rightarrow> (nat \<times> string) option" where
  "mate st e = (if me_type e = ''bridge'' then paired_with e st else None)"

definition same_bridge :: "media_endpoint \<Rightarrow> media_endpoint \<Rightarrow> bool" where
  "same_bridge e e' \<longleftrightarrow> me_type e = me_type e' \<and> me_pairedSessionId e = me_pairedSessionId e'
     \<and> me_pairedEndpointId e = me_pairedEndpointId e'"

text \<open>An endpoint the store knows: one of a record, or the snapshot of a removal in flight.\<close>

definition known :: "'ice media_store \<Rightarrow> nat \<Rightarrow> string \<Rightarrow> media_endpoint \<Rightarrow> bool" where
  "known st r ep e \<longleftrightarrow> entry r ep st = Some e \<or> (r, ep, Some e) \<in> set (st_removing st)"

text \<open>\<open>C\<close> holds the endpoints ever created with their records, \<open>S\<close> the session identifiers ever used.\<close>

definition ids_ok :: "string list \<Rightarrow> 'ice media_store \<Rightarrow> bool" where
  "ids_ok S st \<longleftrightarrow> owf (st_sessions st)
     \<and> (\<forall>s r. oget (st_sessions st) s = Some r \<longrightarrow> r < length (st_heap st) \<and> id_of r st = s)
     \<and> (\<forall>r r'. r < length (st_heap st) \<longrightarrow> r' < length (st_heap st) \<longrightarrow> id_of r st = id_of r' st \<longrightarrow> r = r')
     \<and> (\<forall>r < length (st_heap st). id_of r st \<in> set S \<and> id_of r st \<noteq> [])
     \<and> (\<forall>ep s. oget (st_endpointToSession st) ep = Some s \<longrightarrow> s \<in> set S)"

definition index_ok :: "(string \<times> nat) list \<Rightarrow> 'ice media_store \<Rightarrow> bool" where
  "index_ok C st \<longleftrightarrow> distinct (map fst C)
     \<and> (\<forall>ep r. (ep, r) \<in> set C \<longrightarrow> ep \<noteq> [] \<and> r < length (st_heap st))
     \<and> (\<forall>r. owf (endpoints_of r st))
     \<and> (\<forall>r ep. entry r ep st \<noteq> None \<longrightarrow> (ep, r) \<in> set C)
     \<and> (\<forall>s r ep. oget (st_sessions st) s = Some r \<longrightarrow>
          (oget (st_endpointToSession st) ep = Some s) = (entry r ep st \<noteq> None))"

definition bridges_ok :: "(string \<times> nat) list \<Rightarrow> string list \<Rightarrow> 'ice media_store \<Rightarrow> bool" where
  "bridges_ok C S st \<longleftrightarrow>
     (\<forall>r ep e. is_live r st \<longrightarrow> r < length (st_heap st) \<longrightarrow> entry r ep st = Some e \<longrightarrow> me_type e = ''bridge'' \<longrightarrow>
        (\<exists>t p e'. mate st e = Some (t, p) \<and> t \<noteq> r \<and> entry t p st = Some e' \<and> me_type e' = ''bridge''
           \<and> me_pairedSessionId e' = Some (id_of r st) \<and> me_pairedEndpointId e' = Some ep))
     \<and> (\<forall>r ep e t p. known st r ep e \<longrightarrow> mate st e = Some (t, p) \<longrightarrow> \<not> (is_live r st \<and> entry r ep st \<noteq> None) \<longrightarrow> entry t p st = None)
     \<and> (\<forall>r ep e. known st r ep e \<longrightarrow> me_type e = ''bridge'' \<longrightarrow>
          (\<exists>p t. me_pairedSessionId e = Some (id_of t st) \<and> me_pairedEndpointId e = Some p \<and> (p, t) \<in> set C))"

definition removing_ok :: "(string \<times> nat) list \<Rightarrow> 'ice media_store \<Rightarrow> bool" where
  "removing_ok C st \<longleftrightarrow>
     (\<forall>r ep x. (r, ep, x) \<in> set (st_removing st) \<longrightarrow> (ep, r) \<in> set C
        \<and> (case entry r ep st of None \<Rightarrow> True | Some e' \<Rightarrow> (case x of None \<Rightarrow> False | Some e \<Rightarrow> same_bridge e e')))"

definition store_inv :: "(string \<times> nat) list \<Rightarrow> string list \<Rightarrow> 'ice media_store \<Rightarrow> bool" where
  "store_inv C S st \<longleftrightarrow> ids_ok S st \<and> index_ok C st \<and> bridges_ok C S st \<and> removing_ok C st"

lemma mate_Some: "mate st e = Some (t, p) \<longleftrightarrow>
    me_type e = ''bridge'' \<and> present (me_pairedEndpointId e) = Some p
    \<and> (\<exists>s. present (me_pairedSessionId e) = Some s \<and> oget (st_sessions st) s = Some t)"
  by (auto simp: mate_def paired_with_def split: option.splits)

lemma same_bridge_mate: "same_bridge e e' \<Longrightarrow> mate st e = mate st e'"
  by (simp add: same_bridge_def mate_def paired_with_def)

lemma present_simps [simp]: "present (Some s) = (if s = [] then None else Some s)" "present None = None"
  by (simp_all add: present_def)

lemma present_eq: "present x = Some s \<longleftrightarrow> x = Some s \<and> s \<noteq> []"
  by (cases x) auto

text \<open>
  Taking endpoints away, and records out of the map of live sessions: the endpoints \<open>D\<close> go, the records
  \<open>X\<close> die. Whatever is at the other end of a bridge that goes has to go too.
\<close>

definition shrinks ::
  "(string \<times> nat) list \<Rightarrow> 'ice media_store \<Rightarrow> (nat \<times> string) set \<Rightarrow> nat set \<Rightarrow> 'ice media_store \<Rightarrow> bool" where
  "shrinks C st D X st' \<longleftrightarrow>
     length (st_heap st') = length (st_heap st) \<and> (\<forall>r. id_of r st' = id_of r st) \<and> st_removing st' = st_removing st
     \<and> (\<forall>r. owf (endpoints_of r st')) \<and> (\<forall>r ep. entry r ep st' = (if (r, ep) \<in> D then None else entry r ep st))
     \<and> owf (st_sessions st')
     \<and> (\<forall>s. oget (st_sessions st') s = (case oget (st_sessions st) s of Some r \<Rightarrow> if r \<in> X then None else Some r | None \<Rightarrow> None))
     \<and> (\<forall>ep. oget (st_endpointToSession st') ep =
          (if \<exists>r. (r, ep) \<in> D \<or> r \<in> X \<and> entry r ep st \<noteq> None then None else oget (st_endpointToSession st) ep))
     \<and> (\<forall>r ep. (r, ep) \<in> D \<longrightarrow> (ep, r) \<in> set C)
     \<and> (\<forall>r ep e t p. is_live r st \<longrightarrow> entry r ep st = Some e \<longrightarrow> (r, ep) \<in> D \<or> r \<in> X \<longrightarrow>
          mate st e = Some (t, p) \<longrightarrow> (t, p) \<in> D \<or> t \<in> X)"

lemma shrinksI:
  assumes same: "length (st_heap st') = length (st_heap st)" "\<And>r. id_of r st' = id_of r st" "st_removing st' = st_removing st"
    and entries: "\<And>r. owf (endpoints_of r st')" "\<And>r ep. entry r ep st' = (if (r, ep) \<in> D then None else entry r ep st)"
    and sessions: "owf (st_sessions st')"
      "\<And>s. oget (st_sessions st') s = (case oget (st_sessions st) s of Some r \<Rightarrow> if r \<in> X then None else Some r | None \<Rightarrow> None)"
    and index: "\<And>ep. oget (st_endpointToSession st') ep =
      (if \<exists>r. (r, ep) \<in> D \<or> r \<in> X \<and> entry r ep st \<noteq> None then None else oget (st_endpointToSession st) ep)"
    and owned: "\<And>r ep. (r, ep) \<in> D \<Longrightarrow> (ep, r) \<in> set C"
    and closed: "\<And>r ep e t p. is_live r st \<Longrightarrow> entry r ep st = Some e \<Longrightarrow> (r, ep) \<in> D \<or> r \<in> X \<Longrightarrow>
      mate st e = Some (t, p) \<Longrightarrow> (t, p) \<in> D \<or> t \<in> X"
  shows "shrinks C st D X st'"
  unfolding shrinks_def using assms by (intro conjI allI impI) (assumption | rule assms)+

lemma shrink_inv:
  assumes inv: "store_inv C S st" and sh: "shrinks C st D X st'"
  shows "store_inv C S st'"
proof -
  note c1 = sh [unfolded shrinks_def]
  note c2 = c1 [THEN conjunct2, THEN conjunct2]
  note c3 = c2 [THEN conjunct2, THEN conjunct2, THEN conjunct2]
  note c4 = c3 [THEN conjunct2, THEN conjunct2]
  note same = c1 [THEN conjunct1] c1 [THEN conjunct2, THEN conjunct1, THEN spec] c2 [THEN conjunct1]
  note entries = c2 [THEN conjunct2, THEN conjunct1, THEN spec] c2 [THEN conjunct2, THEN conjunct2, THEN conjunct1, THEN spec, THEN spec]
  note sessions = c3 [THEN conjunct1] c3 [THEN conjunct2, THEN conjunct1, THEN spec]
  note index = c4 [THEN conjunct1, THEN spec]
  note owned = c4 [THEN conjunct2, THEN conjunct1, THEN spec, THEN spec, THEN mp]
  note closed = c4 [THEN conjunct2, THEN conjunct2, THEN spec, THEN spec, THEN spec, THEN spec, THEN spec, THEN mp, THEN mp, THEN mp, THEN mp]
  note ids = inv [unfolded store_inv_def, THEN conjunct1, unfolded ids_ok_def]
  note ix = inv [unfolded store_inv_def, THEN conjunct2, THEN conjunct1, unfolded index_ok_def]
  note br = inv [unfolded store_inv_def, THEN conjunct2, THEN conjunct2, THEN conjunct1, unfolded bridges_ok_def]
  note rm = inv [unfolded store_inv_def, THEN conjunct2, THEN conjunct2, THEN conjunct2, unfolded removing_ok_def]
  have live: "is_live r st' \<longleftrightarrow> is_live r st \<and> r \<notin> X" for r
    by (auto simp: is_live_def same sessions split: option.splits)
  have known: "known st' r ep e \<Longrightarrow> known st r ep e" for r ep e
    by (auto simp: known_def entries same split: if_splits)
  have mates: "mate st' e = Some (t, p) \<longleftrightarrow> mate st e = Some (t, p) \<and> t \<notin> X" for e t p
    by (auto simp: mate_Some sessions split: option.splits if_splits)
  have owner: "r = r'" if "(ep, r) \<in> set C" "(ep, r') \<in> set C" for ep r r'
    using ix that by (metis eq_key_imp_eq_value)
  have "ids_ok S st'"
    using ids sessions(1) by (auto simp: ids_ok_def same sessions index split: option.splits if_splits)
  moreover have "index_ok C st'"
    unfolding index_ok_def
  proof (intro conjI allI impI)
    fix s r ep assume s: "oget (st_sessions st') s = Some r"
    then have old: "oget (st_sessions st) s = Some r" "r \<notin> X" by (auto simp: sessions split: option.splits if_splits)
    have i: "(oget (st_endpointToSession st) ep = Some s) = (entry r ep st \<noteq> None)" using ix old(1) by blast
    have "(\<exists>q. (q, ep) \<in> D \<or> q \<in> X \<and> entry q ep st \<noteq> None) = ((r, ep) \<in> D)" if "entry r ep st \<noteq> None"
      using that ix owner owned old(2) by metis
    then show "(oget (st_endpointToSession st') ep = Some s) = (entry r ep st' \<noteq> None)"
      using i unfolding index entries by auto
  next
    fix r ep assume "entry r ep st' \<noteq> None"
    then have "entry r ep st \<noteq> None" by (simp add: entries split: if_splits)
    then show "(ep, r) \<in> set C" using ix by blast
  next
    fix ep r assume c: "(ep, r) \<in> set C"
    show "ep \<noteq> []" using ix c by blast
    show "r < length (st_heap st')" unfolding same(1) using ix c by blast
  next
    show "distinct (map fst C)" using ix by blast
    show "\<And>r. owf (endpoints_of r st')" by (rule entries(1))
  qed
  moreover have "bridges_ok C S st'"
    unfolding bridges_ok_def
  proof (intro conjI allI impI)
    fix r ep e assume a: "is_live r st'" "r < length (st_heap st')" "entry r ep st' = Some e" "me_type e = ''bridge''"
    then have old: "is_live r st" "r \<notin> X" "(r, ep) \<notin> D" "entry r ep st = Some e" "r < length (st_heap st)"
      by (auto simp: live entries same split: if_splits)
    then obtain t p e' where m: "mate st e = Some (t, p)" "t \<noteq> r" "entry t p st = Some e'" "me_type e' = ''bridge''"
        "me_pairedSessionId e' = Some (id_of r st)" "me_pairedEndpointId e' = Some ep"
      using br a(4) by blast
    from m(1) obtain s where "oget (st_sessions st) s = Some t" by (auto simp: mate_Some)
    moreover from this have "id_of t st = s" using ids by blast
    ultimately have lt: "is_live t st" by (simp add: is_live_def)
    have "id_of r st \<noteq> []" using ids old(5) by blast
    moreover have "ep \<noteq> []" using ix old(4) by blast
    ultimately have ne: "id_of r st \<noteq> []" "ep \<noteq> []" by simp_all
    have "mate st e' = Some (r, ep)" using m(4-6) old(1) ne by (simp add: mate_Some is_live_def)
    then have "(t, p) \<notin> D \<and> t \<notin> X" using closed [OF lt m(3)] old(2,3) by blast
    with m show "\<exists>t p e'. mate st' e = Some (t, p) \<and> t \<noteq> r \<and> entry t p st' = Some e' \<and> me_type e' = ''bridge''
           \<and> me_pairedSessionId e' = Some (id_of r st') \<and> me_pairedEndpointId e' = Some ep"
      by (intro exI [of _ t] exI [of _ p] exI [of _ e']) (simp add: mates entries same)
  next
    fix r ep e t p assume a: "known st' r ep e" "mate st' e = Some (t, p)" "\<not> (is_live r st' \<and> entry r ep st' \<noteq> None)"
    from a(2) have m: "mate st e = Some (t, p)" "t \<notin> X" by (simp_all add: mates)
    show "entry t p st' = None"
    proof (cases "is_live r st \<and> entry r ep st \<noteq> None")
      case True
      then obtain e2 where e2: "entry r ep st = Some e2" by blast
      have "e2 = e \<or> same_bridge e e2" using known [OF a(1)] rm e2 by (fastforce simp: known_def)
      then have "mate st e2 = Some (t, p)" using m(1) same_bridge_mate by metis
      moreover have "(r, ep) \<in> D \<or> r \<in> X" using True a(3) by (auto simp: live entries split: if_splits)
      ultimately have "(t, p) \<in> D" using closed [of r ep e2 t p] True e2 m(2) by blast
      then show ?thesis by (simp add: entries)
    next
      case False
      then have "entry t p st = None" using br known [OF a(1)] m(1) by blast
      then show ?thesis by (simp add: entries)
    qed
  next
    fix r ep e assume "known st' r ep e" "me_type e = ''bridge''"
    then show "\<exists>p t. me_pairedSessionId e = Some (id_of t st') \<and> me_pairedEndpointId e = Some p \<and> (p, t) \<in> set C"
      unfolding same using br known by blast
  qed
  moreover have "removing_ok C st'"
    using rm by (auto simp: removing_ok_def same entries split: option.splits)
  ultimately show ?thesis by (simp add: store_inv_def)
qed

text \<open>Adding endpoints \<open>N\<close> whose identifiers are new; the bridges among them are pairs within \<open>N\<close>.\<close>

lemma grow_inv:
  assumes inv: "store_inv C S st"
    and same: "length (st_heap st') = length (st_heap st)" "\<And>r. id_of r st' = id_of r st" "st_removing st' = st_removing st"
      "st_sessions st' = st_sessions st"
    and fresh: "distinct (map fst New)" "fst ` set New \<inter> fst ` set C = {}"
      "\<And>ep r. (ep, r) \<in> set New \<Longrightarrow> ep \<noteq> [] \<and> r < length (st_heap st)"
    and N: "\<And>r ep. (N r ep \<noteq> None) = ((ep, r) \<in> set New)"
    and entries: "\<And>r. owf (endpoints_of r st')"
      "\<And>r ep. entry r ep st' = (case N r ep of Some e \<Rightarrow> Some e | None \<Rightarrow> entry r ep st)"
    and index: "\<And>ep. oget (st_endpointToSession st') ep =
      (case map_of New ep of Some r \<Rightarrow> Some (id_of r st) | None \<Rightarrow> oget (st_endpointToSession st) ep)"
    and pairs: "\<And>r ep e. N r ep = Some e \<Longrightarrow> me_type e = ''bridge'' \<Longrightarrow>
      \<exists>t p e'. N t p = Some e' \<and> t \<noteq> r \<and> is_live r st \<and> is_live t st \<and> me_pairedSessionId e = Some (id_of t st)
        \<and> me_pairedEndpointId e = Some p \<and> me_type e' = ''bridge'' \<and> me_pairedSessionId e' = Some (id_of r st)
        \<and> me_pairedEndpointId e' = Some ep"
  shows "store_inv (C @ New) S st'"
proof -
  note ids = inv [unfolded store_inv_def, THEN conjunct1, unfolded ids_ok_def]
  note ix = inv [unfolded store_inv_def, THEN conjunct2, THEN conjunct1, unfolded index_ok_def]
  note br = inv [unfolded store_inv_def, THEN conjunct2, THEN conjunct2, THEN conjunct1, unfolded bridges_ok_def]
  note rm = inv [unfolded store_inv_def, THEN conjunct2, THEN conjunct2, THEN conjunct2, unfolded removing_ok_def]
  have live: "is_live r st' = is_live r st" for r by (simp add: is_live_def same)
  have mates: "mate st' e = mate st e" for e by (simp add: mate_def paired_with_same [OF same(4)])
  have old: "entry r ep st' = entry r ep st" if "ep \<notin> fst ` set New" for r ep
  proof -
    have "(ep, r) \<notin> set New" using that by force
    then show ?thesis using N [of r ep] entries(2) [of r ep] by simp
  qed
  have kn: "(ep, r) \<in> set C" if "known st r ep e" for r ep e
    using that ix rm unfolding known_def by blast
  have disj: "ep \<notin> fst ` set New" if "(ep, r) \<in> set C" for ep r
    using fresh(2) that by force
  have case_known: "known st r ep e \<and> ep \<notin> fst ` set New \<or> N r ep = Some e" if "known st' r ep e" for r ep e
  proof (cases "N r ep")
    case None
    then have k: "known st r ep e" using that by (simp add: known_def entries same)
    with disj kn show ?thesis by blast
  next
    case (Some e2)
    then have "(ep, r) \<in> set New" using N by (metis option.distinct(1))
    then have "(ep, r) \<notin> set C" using disj by force
    then have "(r, ep, Some e) \<notin> set (st_removing st)" using rm by blast
    then show ?thesis using that Some by (simp add: known_def entries same)
  qed
  have map_new: "map_of New ep = None \<longleftrightarrow> ep \<notin> fst ` set New" for ep by (simp add: map_of_eq_None_iff)
  have id_live: "id_of t st \<noteq> [] \<and> t < length (st_heap st)" if "is_live t st" for t
    using that ids unfolding is_live_def by blast
  have "ids_ok S st'"
  proof -
    have "s \<in> set S" if "oget (st_endpointToSession st') ep = Some s" for ep s
    proof (cases "map_of New ep")
      case None
      with that index ids show ?thesis by (metis option.case(1))
    next
      case (Some r)
      then have "(ep, r) \<in> set New" by (rule map_of_SomeD)
      then have "id_of r st \<in> set S" using fresh(3) ids by blast
      then show ?thesis using that Some index by simp
    qed
    then show ?thesis using ids unfolding ids_ok_def same by blast
  qed
  moreover have "index_ok (C @ New) st'"
    unfolding index_ok_def
  proof (intro conjI allI impI)
    show "distinct (map fst (C @ New))" using ix fresh(1,2) by (simp add: Int_commute)
    show "\<And>r. owf (endpoints_of r st')" by (rule entries(1))
  next
    fix ep r assume "(ep, r) \<in> set (C @ New)"
    then consider "(ep, r) \<in> set C" | "(ep, r) \<in> set New" by auto
    then have "ep \<noteq> [] \<and> r < length (st_heap st)"
    proof cases
      case 1
      then show ?thesis using ix by blast
    next
      case 2
      then show ?thesis by (rule fresh(3))
    qed
    then show "ep \<noteq> []" "r < length (st_heap st')" by (simp_all add: same)
  next
    fix r ep assume "entry r ep st' \<noteq> None"
    then have "N r ep \<noteq> None \<or> entry r ep st \<noteq> None" using entries(2) [of r ep] by (cases "N r ep") simp_all
    moreover have "entry r ep st \<noteq> None \<Longrightarrow> (ep, r) \<in> set C" using ix by blast
    ultimately show "(ep, r) \<in> set (C @ New)" unfolding N by auto
  next
    fix s r ep assume "oget (st_sessions st') s = Some r"
    then have s: "oget (st_sessions st) s = Some r" by (simp add: same)
    then have r: "r < length (st_heap st)" "id_of r st = s" using ids by blast+
    show "(oget (st_endpointToSession st') ep = Some s) = (entry r ep st' \<noteq> None)"
    proof (cases "map_of New ep")
      case None
      then have "ep \<notin> fst ` set New" by (simp add: map_new)
      moreover have "(oget (st_endpointToSession st) ep = Some s) = (entry r ep st \<noteq> None)" using ix s by blast
      ultimately show ?thesis using None index old by simp
    next
      case (Some q)
      then have q: "(ep, q) \<in> set New" by (rule map_of_SomeD)
      have "(ep, r) \<notin> set C" using disj q by force
      then have "entry r ep st = None" using ix by blast
      then have "(entry r ep st' \<noteq> None) = ((ep, r) \<in> set New)" using N [of r ep] entries(2) [of r ep] by (cases "N r ep") auto
      also have "\<dots> = (r = q)" using q fresh(1) by (metis eq_key_imp_eq_value)
      also have "\<dots> = (id_of q st = s)" using r q fresh(3) ids by metis
      finally show ?thesis using Some index by simp
    qed
  qed
  moreover have "bridges_ok (C @ New) S st'"
    unfolding bridges_ok_def
  proof (intro conjI allI impI)
    fix r ep e assume a: "is_live r st'" "r < length (st_heap st')" "entry r ep st' = Some e" "me_type e = ''bridge''"
    show "\<exists>t p e'. mate st' e = Some (t, p) \<and> t \<noteq> r \<and> entry t p st' = Some e' \<and> me_type e' = ''bridge''
           \<and> me_pairedSessionId e' = Some (id_of r st') \<and> me_pairedEndpointId e' = Some ep"
    proof (cases "N r ep")
      case None
      then have "entry r ep st = Some e" using a(3) entries by simp
      then obtain t p e' where m: "mate st e = Some (t, p)" "t \<noteq> r" "entry t p st = Some e'" "me_type e' = ''bridge''"
          "me_pairedSessionId e' = Some (id_of r st)" "me_pairedEndpointId e' = Some ep"
        using br a unfolding live same by blast
      have "(p, t) \<in> set C" using ix m(3) by blast
      then have "entry t p st' = Some e'" using m(3) old [OF disj] by simp
      with m show ?thesis by (intro exI [of _ t] exI [of _ p] exI [of _ e']) (simp add: mates same)
    next
      case (Some e2)
      then have "e2 = e" using a(3) entries by simp
      with Some pairs a(4) obtain t p e' where m: "N t p = Some e'" "t \<noteq> r" "is_live t st" "me_pairedSessionId e = Some (id_of t st)"
          "me_pairedEndpointId e = Some p" "me_type e' = ''bridge''" "me_pairedSessionId e' = Some (id_of r st)" "me_pairedEndpointId e' = Some ep"
        by blast
      have "(p, t) \<in> set New" using m(1) N [of t p] by simp
      then have "p \<noteq> []" using fresh(3) by blast
      then have "mate st e = Some (t, p)" using a(4) m(3-5) id_live by (simp add: mate_Some is_live_def)
      with m show ?thesis by (intro exI [of _ t] exI [of _ p] exI [of _ e']) (simp add: mates same entries)
    qed
  next
    fix r ep e t p assume a: "known st' r ep e" "mate st' e = Some (t, p)" "\<not> (is_live r st' \<and> entry r ep st' \<noteq> None)"
    from case_known [OF a(1)] show "entry t p st' = None"
    proof
      assume k: "known st r ep e \<and> ep \<notin> fst ` set New"
      have m: "mate st e = Some (t, p)" using a(2) mates by simp
      have "\<not> (is_live r st \<and> entry r ep st \<noteq> None)" using a(3) live old k by metis
      then have none: "entry t p st = None" using br m k by blast
      have ty: "me_type e = ''bridge''" using m by (simp add: mate_Some)
      then obtain p' t' where "me_pairedEndpointId e = Some p'" "(p', t') \<in> set C" using br k by blast
      with m have "(p, t') \<in> set C" by (simp add: mate_Some split: if_splits)
      then have "p \<in> fst ` set C" by force
      then have "p \<notin> fst ` set New" using fresh(2) by blast
      then show ?thesis using none old by simp
    next
      assume n: "N r ep = Some e"
      have "me_type e = ''bridge''" using a(2) by (simp add: mate_Some)
      then have "is_live r st" using pairs [OF n] by blast
      moreover have "entry r ep st' \<noteq> None" using n entries by simp
      ultimately show ?thesis using a(3) by (simp add: live)
    qed
  next
    fix r ep e assume a: "known st' r ep e" "me_type e = ''bridge''"
    from case_known [OF a(1)] show "\<exists>p t. me_pairedSessionId e = Some (id_of t st') \<and> me_pairedEndpointId e = Some p \<and> (p, t) \<in> set (C @ New)"
    proof
      assume "known st r ep e \<and> ep \<notin> fst ` set New"
      then have "\<exists>p t. me_pairedSessionId e = Some (id_of t st) \<and> me_pairedEndpointId e = Some p \<and> (p, t) \<in> set C"
        using br a(2) by blast
      then show ?thesis unfolding same by auto
    next
      assume "N r ep = Some e"
      from pairs [OF this a(2)] obtain t p where m: "N t p \<noteq> None" "me_pairedSessionId e = Some (id_of t st)"
          "me_pairedEndpointId e = Some p" by auto
      then have "(p, t) \<in> set New" using N by blast
      then show ?thesis using m unfolding same by auto
    qed
  qed
  moreover have "removing_ok (C @ New) st'"
    unfolding removing_ok_def
  proof (intro allI impI conjI)
    fix r ep x assume x: "(r, ep, x) \<in> set (st_removing st')"
    then have c: "(ep, r) \<in> set C" using rm same by simp
    then show "(ep, r) \<in> set (C @ New)" by simp
    have "case entry r ep st of None \<Rightarrow> True | Some e' \<Rightarrow> (case x of None \<Rightarrow> False | Some e \<Rightarrow> same_bridge e e')"
      using rm x unfolding same by blast
    then show "case entry r ep st' of None \<Rightarrow> True | Some e' \<Rightarrow> (case x of None \<Rightarrow> False | Some e \<Rightarrow> same_bridge e e')"
      using old [OF disj [OF c]] by simp
  qed
  ultimately show ?thesis by (simp add: store_inv_def)
qed

text \<open>Replacing endpoints by others of the same type and pairing.\<close>

lemma relabel_inv:
  assumes inv: "store_inv C S st"
    and same: "length (st_heap st') = length (st_heap st)" "\<And>r. id_of r st' = id_of r st" "st_removing st' = st_removing st"
      "st_sessions st' = st_sessions st" "st_endpointToSession st' = st_endpointToSession st"
    and entries: "\<And>r. owf (endpoints_of r st')" "\<And>r ep. rel_option same_bridge (entry r ep st) (entry r ep st')"
  shows "store_inv C S st'"
proof -
  note ids = inv [unfolded store_inv_def, THEN conjunct1, unfolded ids_ok_def]
  note ix = inv [unfolded store_inv_def, THEN conjunct2, THEN conjunct1, unfolded index_ok_def]
  note br = inv [unfolded store_inv_def, THEN conjunct2, THEN conjunct2, THEN conjunct1, unfolded bridges_ok_def]
  note rm = inv [unfolded store_inv_def, THEN conjunct2, THEN conjunct2, THEN conjunct2, unfolded removing_ok_def]
  have live: "is_live r st' = is_live r st" for r by (simp add: is_live_def same)
  have mates: "mate st' e = mate st e" for e by (simp add: mate_def paired_with_same [OF same(4)])
  have none: "entry r ep st' = None \<longleftrightarrow> entry r ep st = None" for r ep
    using entries(2) [of r ep] by (auto elim: option.rel_cases)
  have older: "\<exists>e0. entry r ep st = Some e0 \<and> same_bridge e0 e" if "entry r ep st' = Some e" for r ep e
    using entries(2) [of r ep] that by (auto elim: option.rel_cases)
  have forth: "\<exists>e. entry r ep st' = Some e \<and> same_bridge e0 e" if "entry r ep st = Some e0" for r ep e0
    using entries(2) [of r ep] that by (auto elim: option.rel_cases)
  have kn: "\<exists>e0. known st r ep e0 \<and> same_bridge e0 e" if "known st' r ep e" for r ep e
  proof -
    have "same_bridge e e" by (simp add: same_bridge_def)
    moreover have "entry r ep st' = Some e \<or> (r, ep, Some e) \<in> set (st_removing st)" using that by (simp add: known_def same)
    ultimately show ?thesis using older unfolding known_def by blast
  qed
  have "ids_ok S st'" using ids unfolding ids_ok_def same by blast
  moreover have "index_ok C st'"
    unfolding index_ok_def same none using ix entries(1) by (intro conjI) (blast+)
  moreover have "bridges_ok C S st'"
    unfolding bridges_ok_def
  proof (intro conjI allI impI)
    fix r ep e assume a: "is_live r st'" "r < length (st_heap st')" "entry r ep st' = Some e" "me_type e = ''bridge''"
    then obtain e0 where e0: "entry r ep st = Some e0" "same_bridge e0 e" using older by blast
    then have "me_type e0 = ''bridge''" using a(4) by (simp add: same_bridge_def)
    then obtain t p e' where m: "mate st e0 = Some (t, p)" "t \<noteq> r" "entry t p st = Some e'" "me_type e' = ''bridge''"
        "me_pairedSessionId e' = Some (id_of r st)" "me_pairedEndpointId e' = Some ep"
      using br a e0 unfolding live same by blast
    obtain e2 where "entry t p st' = Some e2" "same_bridge e' e2" using forth m(3) by blast
    moreover have "mate st e = Some (t, p)" using m(1) same_bridge_mate [OF e0(2)] by metis
    ultimately show "\<exists>t p e'. mate st' e = Some (t, p) \<and> t \<noteq> r \<and> entry t p st' = Some e' \<and> me_type e' = ''bridge''
           \<and> me_pairedSessionId e' = Some (id_of r st') \<and> me_pairedEndpointId e' = Some ep"
      using m by (intro exI [of _ t] exI [of _ p] exI [of _ e2]) (simp add: mates same same_bridge_def)
  next
    fix r ep e t p assume a: "known st' r ep e" "mate st' e = Some (t, p)" "\<not> (is_live r st' \<and> entry r ep st' \<noteq> None)"
    from kn [OF a(1)] obtain e0 where e0: "known st r ep e0" "same_bridge e0 e" by blast
    then have "mate st e0 = Some (t, p)" using a(2) same_bridge_mate mates by metis
    then have "entry t p st = None" using br e0(1) a(3) unfolding live none by blast
    then show "entry t p st' = None" by (simp add: none)
  next
    fix r ep e assume a: "known st' r ep e" "me_type e = ''bridge''"
    from kn [OF a(1)] obtain e0 where e0: "known st r ep e0" "same_bridge e0 e" by blast
    then have "me_type e0 = ''bridge''" using a(2) by (simp add: same_bridge_def)
    then have "\<exists>p t. me_pairedSessionId e0 = Some (id_of t st) \<and> me_pairedEndpointId e0 = Some p \<and> (p, t) \<in> set C" using br e0(1) by blast
    then show "\<exists>p t. me_pairedSessionId e = Some (id_of t st') \<and> me_pairedEndpointId e = Some p \<and> (p, t) \<in> set C"
      using e0(2) by (simp add: same same_bridge_def)
  qed
  moreover have "removing_ok C st'"
    unfolding removing_ok_def
  proof (intro allI impI conjI)
    fix r ep x assume "(r, ep, x) \<in> set (st_removing st')"
    then have x: "(ep, r) \<in> set C" "case entry r ep st of None \<Rightarrow> True | Some e' \<Rightarrow> (case x of None \<Rightarrow> False | Some e \<Rightarrow> same_bridge e e')"
      using rm unfolding same by blast+
    show "(ep, r) \<in> set C" by (rule x(1))
    show "case entry r ep st' of None \<Rightarrow> True | Some e' \<Rightarrow> (case x of None \<Rightarrow> False | Some e \<Rightarrow> same_bridge e e')"
    proof (cases "entry r ep st'")
      case (Some e2)
      from older [OF this] obtain e0 where "entry r ep st = Some e0" "same_bridge e0 e2" by blast
      then show ?thesis using x(2) Some by (cases x) (auto simp: same_bridge_def)
    qed simp
  qed
  ultimately show ?thesis by (simp add: store_inv_def)
qed

section \<open>Every step keeps the invariant\<close>

lemma store_invD:
  assumes "store_inv C S st"
  shows "oget (st_sessions st) s = Some r \<Longrightarrow> r < length (st_heap st) \<and> id_of r st = s \<and> is_live r st \<and> s \<in> set S \<and> s \<noteq> []"
    and "is_live r st \<Longrightarrow> r < length (st_heap st)"
    and "r < length (st_heap st) \<Longrightarrow> id_of r st \<in> set S \<and> id_of r st \<noteq> []"
    and "owf (endpoints_of r st)" and "owf (st_sessions st)"
    and "entry r ep st \<noteq> None \<Longrightarrow> (ep, r) \<in> set C"
    and "(ep, r) \<in> set C \<Longrightarrow> ep \<noteq> [] \<and> r < length (st_heap st)"
    and "(ep, r) \<in> set C \<Longrightarrow> (ep, r') \<in> set C \<Longrightarrow> r = r'"
    and "distinct (map fst C)"
proof -
  note ids = assms [unfolded store_inv_def, THEN conjunct1, unfolded ids_ok_def]
  note ix = assms [unfolded store_inv_def, THEN conjunct2, THEN conjunct1, unfolded index_ok_def]
  show s: "oget (st_sessions st) s = Some r \<Longrightarrow> r < length (st_heap st) \<and> id_of r st = s \<and> is_live r st \<and> s \<in> set S \<and> s \<noteq> []" for s r
    using ids unfolding is_live_def by metis
  show "is_live r st \<Longrightarrow> r < length (st_heap st)" using s unfolding is_live_def by blast
  show "r < length (st_heap st) \<Longrightarrow> id_of r st \<in> set S \<and> id_of r st \<noteq> []" using ids by blast
  show "owf (endpoints_of r st)" "owf (st_sessions st)" "distinct (map fst C)" using ids ix by blast+
  show "entry r ep st \<noteq> None \<Longrightarrow> (ep, r) \<in> set C" "(ep, r) \<in> set C \<Longrightarrow> ep \<noteq> [] \<and> r < length (st_heap st)" using ix by blast+
  show "(ep, r) \<in> set C \<Longrightarrow> (ep, r') \<in> set C \<Longrightarrow> r = r'"
    using ix by (metis eq_key_imp_eq_value)
qed

lemma bridge_mate:
  assumes "store_inv C S st" "is_live r st" "entry r ep st = Some e" "mate st e = Some (t, p)"
  shows "t \<noteq> r \<and> (\<exists>e'. entry t p st = Some e' \<and> mate st e' = Some (r, ep) \<and> (p, t) \<in> set C)"
proof -
  note d = store_invD [OF assms(1)]
  note br = assms(1) [unfolded store_inv_def, THEN conjunct2, THEN conjunct2, THEN conjunct1, unfolded bridges_ok_def]
  have "me_type e = ''bridge''" using assms(4) by (simp add: mate_Some)
  then obtain t' p' e' where m: "mate st e = Some (t', p')" "t' \<noteq> r" "entry t' p' st = Some e'" "me_type e' = ''bridge''"
        "me_pairedSessionId e' = Some (id_of r st)" "me_pairedEndpointId e' = Some ep"
    using br assms(2,3) d(2) [OF assms(2)] by blast
  have tp: "t' = t" "p' = p" using m(1) assms(4) by simp_all
  have "(ep, r) \<in> set C" by (rule d(6)) (simp add: assms(3))
  then have "ep \<noteq> []" "id_of r st \<noteq> []" using d(7) d(3) by blast+
  then have "mate st e' = Some (r, ep)" using m(4-6) assms(2) by (simp add: mate_Some is_live_def)
  moreover have "(p, t) \<in> set C" using m(3) by (intro d(6)) (simp add: tp)
  ultimately show ?thesis using m(2,3) tp by blast
qed

lemma known_mate_owner:
  assumes "store_inv C S st" "known st r ep e" "mate st e = Some (t, p)"
  shows "(p, t) \<in> set C"
proof -
  note d = store_invD [OF assms(1)]
  note br = assms(1) [unfolded store_inv_def, THEN conjunct2, THEN conjunct2, THEN conjunct1, unfolded bridges_ok_def]
  have "me_type e = ''bridge''" using assms(3) by (simp add: mate_Some)
  then obtain t' p' where m: "me_pairedSessionId e = Some (id_of t' st)" "me_pairedEndpointId e = Some p'" "(p', t') \<in> set C"
    using br assms(2) by blast
  from m(3) have t': "t' < length (st_heap st)" "id_of t' st \<noteq> []" using d(7) d(3) by blast+
  from assms(3) m have "p' = p" "oget (st_sessions st) (id_of t' st) = Some t" by (auto simp: mate_Some split: if_splits)
  moreover from this(2) have "t < length (st_heap st)" "id_of t st = id_of t' st" using d(1) by blast+
  moreover have "t = t'" if "id_of t st = id_of t' st" "t < length (st_heap st)"
    using assms(1) t'(1) that unfolding store_inv_def ids_ok_def by blast
  ultimately show ?thesis using m(3) by blast
qed

lemma remove_start_inv:
  assumes "store_inv C S st" "(ep, r) \<in> set C"
  shows "store_inv C S (remove_start r ep st)"
proof -
  let ?st = "remove_start r ep st"
  have f: "st_sessions ?st = st_sessions st" "st_endpointToSession ?st = st_endpointToSession st" "st_heap ?st = st_heap st"
    "\<And>q. endpoints_of q ?st = endpoints_of q st" "\<And>q. id_of q ?st = id_of q st"
    "set (st_removing ?st) = insert (r, ep, entry r ep st) (set (st_removing st))"
    by (simp_all add: remove_start_def)
  have live: "is_live q ?st = is_live q st" for q by (simp add: is_live_def f)
  have mates: "mate ?st e = mate st e" for e by (simp add: mate_def paired_with_same [OF f(1)])
  have kn: "known ?st q x e = known st q x e" for q x e by (auto simp: known_def f)
  have "removing_ok C ?st"
    using assms unfolding store_inv_def removing_ok_def f by (auto simp: same_bridge_def split: option.split)
  moreover have "ids_ok S ?st = ids_ok S st" by (simp only: ids_ok_def f)
  moreover have "index_ok C ?st = index_ok C st" by (simp only: index_ok_def f)
  moreover have "bridges_ok C S ?st = bridges_ok C S st" by (simp only: bridges_ok_def f live mates kn)
  ultimately show ?thesis using assms(1) by (simp add: store_inv_def)
qed

lemma remove_done_shape:
  assumes gone: "\<not> (\<not> ok \<and> is_live r st \<and> ohas (endpoints_of r st) ep)"
  shows "fst (remove_done now (r, ep, x) ok st) =
    (case (case x of None \<Rightarrow> None | Some e \<Rightarrow> mate st e) of
       None \<Rightarrow> removeEndpointSnapshot now r ep st
     | Some (t, p) \<Rightarrow> removeEndpointSnapshot now t p (removeEndpointSnapshot now r ep st))"
proof -
  have pw: "paired_with e (removeEndpointSnapshot now r ep st) = paired_with e st" for e by (rule paired_with_same) simp
  show ?thesis
    unfolding remove_done_def prod.case if_not_P [OF gone]
    by (simp add: Let_def mate_def removePairedBridgeEndpoint_def pw split: option.split)
qed

lemma remove_done_shrinks:
  assumes inv: "store_inv C S st" and x: "(r, ep, x) \<in> set (st_removing st)"
    and gone: "\<not> (\<not> ok \<and> is_live r st \<and> ohas (endpoints_of r st) ep)"
  shows "shrinks C st (insert (r, ep) (set_option (case x of None \<Rightarrow> None | Some e \<Rightarrow> mate st e))) {}
    (fst (remove_done now (r, ep, x) ok st))"
proof -
  note d = store_invD [OF inv]
  note rm = inv [unfolded store_inv_def, THEN conjunct2, THEN conjunct2, THEN conjunct2, unfolded removing_ok_def]
  note br = inv [unfolded store_inv_def, THEN conjunct2, THEN conjunct2, THEN conjunct1, unfolded bridges_ok_def]
  let ?m = "case x of None \<Rightarrow> None | Some e \<Rightarrow> mate st e"
  let ?D = "insert (r, ep) (set_option ?m)"
  let ?st1 = "removeEndpointSnapshot now r ep st"
  let ?st = "case ?m of None \<Rightarrow> ?st1 | Some (t, p) \<Rightarrow> removeEndpointSnapshot now t p ?st1"
  have st: "fst (remove_done now (r, ep, x) ok st) = ?st" by (rule remove_done_shape [OF gone])
  have known: "known st r ep e" if "x = Some e" for e using x that by (simp add: known_def)
  have snap: "same_bridge e e1" if "x = Some e" "entry r ep st = Some e1" for e e1
    using rm x that by fastforce
  have own: "(ep, r) \<in> set C" using rm x by blast
  have "shrinks C st ?D {} ?st"
  proof (rule shrinksI)
    show "\<And>q y. (q, y) \<in> ?D \<Longrightarrow> (y, q) \<in> set C"
      using own known_mate_owner [OF inv known] by (auto split: option.splits)
    show "\<And>q. owf (endpoints_of q ?st)" using d(4) by (auto split: option.split)
    show "\<And>q y. entry q y ?st = (if (q, y) \<in> ?D then None else entry q y st)" by (auto split: option.split)
    show "oget (st_endpointToSession ?st) y = (if \<exists>q. (q, y) \<in> ?D \<or> q \<in> {} \<and> entry q y st \<noteq> None then None
        else oget (st_endpointToSession st) y)" for y by (auto split: option.split)
  next
    fix q y e1 t p assume a: "is_live q st" "entry q y st = Some e1" "(q, y) \<in> ?D \<or> q \<in> {}" "mate st e1 = Some (t, p)"
    from a(3) consider "(q, y) = (r, ep)" | e where "x = Some e" "mate st e = Some (q, y)" by (auto split: option.splits)
    then show "(t, p) \<in> ?D \<or> t \<in> {}"
    proof cases
      case 1
      then obtain e where e: "x = Some e" using rm x a(2) by (fastforce split: option.splits)
      have "mate st e = mate st e1" by (rule same_bridge_mate, rule snap [OF e]) (use 1 a(2) in simp)
      then show ?thesis using e a(4) by simp
    next
      case (2 e)
      have "is_live r st \<and> entry r ep st \<noteq> None" using br known [OF 2(1)] 2(2) a(2) by (metis option.distinct(1))
      then obtain e2 where e2: "is_live r st" "entry r ep st = Some e2" by blast
      then have "mate st e2 = Some (q, y)" using snap 2 same_bridge_mate by metis
      from bridge_mate [OF inv e2 this] a(2,4) show ?thesis by auto
    qed
  qed (use d(5) in \<open>auto split: option.split\<close>)
  then show ?thesis by (simp only: st)
qed

lemma remove_done_inv:
  assumes inv: "store_inv C S st" and x: "(r, ep, x) \<in> set (st_removing st)"
  shows "store_inv C S (fst (remove_done now (r, ep, x) ok st))"
proof (cases "\<not> ok \<and> is_live r st \<and> ohas (endpoints_of r st) ep")
  case True
  then show ?thesis using inv by (simp add: remove_done_def)
next
  case False
  show ?thesis by (rule shrink_inv [OF inv remove_done_shrinks [OF inv x False]])
qed

lemma drop_pairs:
  defines "D L st \<equiv> {(t, p). \<exists>k e. (k, e) \<in> set L \<and> mate st e = Some (t, p)}"
  shows "let st' = foldl (\<lambda>st (_, e). if me_type e = ''bridge'' then removePairedBridgeEndpoint now e st else st) st L
    in st_sessions st' = st_sessions st \<and> length (st_heap st') = length (st_heap st) \<and> (\<forall>r. id_of r st' = id_of r st)
     \<and> st_removing st' = st_removing st \<and> ((\<forall>r. owf (endpoints_of r st)) \<longrightarrow> (\<forall>r. owf (endpoints_of r st')))
     \<and> (\<forall>r ep. entry r ep st' = (if (r, ep) \<in> D L st then None else entry r ep st))
     \<and> (\<forall>ep. oget (st_endpointToSession st') ep = (if \<exists>r. (r, ep) \<in> D L st then None else oget (st_endpointToSession st) ep))"
proof (induction L arbitrary: st)
  case Nil
  then show ?case by (simp add: D_def)
next
  case (Cons x L)
  obtain k e where x: "x = (k, e)" by (cases x)
  let ?st = "if me_type e = ''bridge'' then removePairedBridgeEndpoint now e st else st"
  have s: "?st = (case mate st e of None \<Rightarrow> st | Some (t, p) \<Rightarrow> removeEndpointSnapshot now t p st)"
    by (simp add: mate_def removePairedBridgeEndpoint_def split: option.split)
  have "st_sessions ?st = st_sessions st" unfolding s by (simp split: option.split prod.split)
  then have "mate ?st e' = mate st e'" for e' by (simp only: mate_def paired_with_same [OF \<open>st_sessions ?st = st_sessions st\<close>])
  then have D: "D (x # L) st = set_option (mate st e) \<union> D L ?st" by (auto simp: D_def x)
  let ?st' = "foldl (\<lambda>st (_, e). if me_type e = ''bridge'' then removePairedBridgeEndpoint now e st else st) st (x # L)"
  have f: "?st' = foldl (\<lambda>st (_, e). if me_type e = ''bridge'' then removePairedBridgeEndpoint now e st else st) ?st L"
    by (simp add: x)
  note ih = Cons.IH [of ?st, unfolded Let_def, folded f]
  show ?case
  proof (cases "mate st e")
    case None
    then have st0: "?st = st" using s by simp
    have dd: "D (x # L) st = D L st" using D None unfolding st0 by simp
    show ?thesis unfolding Let_def dd by (rule ih [unfolded st0])
  next
    case (Some tp)
    obtain t p where tp: "tp = (t, p)" by (cases tp)
    have st1: "?st = removeEndpointSnapshot now t p st" using s Some tp by simp
    have "D (x # L) st = insert (t, p) (D L ?st)" using D Some tp by simp
    then show ?thesis using ih unfolding Let_def st1 by auto
  qed
qed

text \<open>The endpoints of other sessions that the bridges of record \<open>r\<close> lead to.\<close>

definition far_ends :: "nat \<Rightarrow> 'ice media_store \<Rightarrow> (nat \<times> string) set" where
  "far_ends r st = {(t, p). \<exists>k e. (k, e) \<in> set (endpoints_of r st) \<and> mate st e = Some (t, p)}"

lemma cancelEndpointAction_simps [simp]:
  "st_heap (cancelEndpointAction st ep) = st_heap st" "st_sessions (cancelEndpointAction st ep) = st_sessions st"
  "st_endpointToSession (cancelEndpointAction st ep) = st_endpointToSession st"
  "st_removing (cancelEndpointAction st ep) = st_removing st"
  by (simp_all add: cancelEndpointAction_def release_def split: option.split)

lemma cancelSessionActions_simps [simp]:
  "st_heap (cancelSessionActions r st) = st_heap st" "st_sessions (cancelSessionActions r st) = st_sessions st"
  "st_endpointToSession (cancelSessionActions r st) = st_endpointToSession st"
  "st_removing (cancelSessionActions r st) = st_removing st"
proof -
  have "st_heap (foldl cancelEndpointAction st eps) = st_heap st \<and> st_sessions (foldl cancelEndpointAction st eps) = st_sessions st
    \<and> st_endpointToSession (foldl cancelEndpointAction st eps) = st_endpointToSession st
    \<and> st_removing (foldl cancelEndpointAction st eps) = st_removing st" for eps
    by (induction eps arbitrary: st) simp_all
  then show "st_heap (cancelSessionActions r st) = st_heap st" "st_sessions (cancelSessionActions r st) = st_sessions st"
    "st_endpointToSession (cancelSessionActions r st) = st_endpointToSession st"
    "st_removing (cancelSessionActions r st) = st_removing st"
    by (simp_all add: cancelSessionActions_def)
qed

lemma cancelled_same [simp]:
  "endpoints_of q (cancelSessionActions r st) = endpoints_of q st" "id_of q (cancelSessionActions r st) = id_of q st"
  "mate (cancelSessionActions r st) e = mate st e"
  by (simp_all add: endpoints_of_def id_of_def mate_def paired_with_same [OF cancelSessionActions_simps(2)])

lemma drop_session_shrinks:
  assumes inv: "store_inv C S st" and Some: "oget (st_sessions st) sid = Some r"
  shows "shrinks C st (far_ends r st) {r} (drop_session now sid st)"
  unfolding far_ends_def
proof -
  note d = store_invD [OF inv]
  let ?L = "endpoints_of r st"
  let ?D = "{(t, p). \<exists>k e. (k, e) \<in> set ?L \<and> mate st e = Some (t, p)}"
  let ?sc = "cancelSessionActions r st"
  let ?st1 = "dropPairedBridgeEndpoints now r ?sc"
  let ?st = "drop_session now sid st"
  have live: "is_live r st" using d(1) [OF Some] by blast
  note p = drop_pairs [where now = now and L = "endpoints_of r ?sc" and st = ?sc, unfolded Let_def, folded dropPairedBridgeEndpoints_def,
    unfolded cancelled_same cancelSessionActions_simps]
  note ps = p [THEN conjunct1] p [THEN conjunct2, THEN conjunct1] p [THEN conjunct2, THEN conjunct2, THEN conjunct1, THEN spec]
    p [THEN conjunct2, THEN conjunct2, THEN conjunct2, THEN conjunct1]
  note p5 = p [THEN conjunct2, THEN conjunct2, THEN conjunct2, THEN conjunct2, THEN conjunct1, THEN mp, OF allI, OF d(4), THEN spec]
  note p6 = p [THEN conjunct2, THEN conjunct2, THEN conjunct2, THEN conjunct2, THEN conjunct2]
  note entry1 = p6 [THEN conjunct1, THEN spec, THEN spec] and index1 = p6 [THEN conjunct2, THEN spec]
  have DP: "(t, q) \<in> ?D \<longleftrightarrow> (\<exists>k e. entry r k st = Some e \<and> mate st e = Some (t, q))" for t q
    using oget_iff [OF d(4)] by simp
  have DR: "(r, q) \<notin> ?D" for q using bridge_mate [OF inv live] DP by blast
  have own: "entry r q ?st1 = entry r q st" for q unfolding entry1 by (rule if_not_P, rule DR)
  have keys: "q \<in> set (okeys (endpoints_of r ?st1)) \<longleftrightarrow> entry r q st \<noteq> None" for q
    unfolding own [symmetric] by (rule ohas_keys [symmetric])
  let ?eps = "okeys (endpoints_of r ?st1)"
  have st: "?st = ?st1\<lparr>st_sessions := odel sid (st_sessions ?st1),
      st_endpointToSession := foldl (\<lambda>m ep. odel ep m) (st_endpointToSession ?st1) ?eps,
      st_sensitive := filter (\<lambda>ep. ep \<notin> set ?eps) (st_sensitive ?st1),
      st_pendingIceRestarts := filter (\<lambda>ep. ep \<notin> set ?eps) (st_pendingIceRestarts ?st1),
      st_recordings := filter (\<lambda>(_, (s, _)). s \<noteq> sid) (st_recordings ?st1)\<rparr>"
    by (simp only: drop_session_def Some Let_def option.case)
  have f: "length (st_heap ?st) = length (st_heap ?st1)" "id_of q ?st = id_of q ?st1" "endpoints_of q ?st = endpoints_of q ?st1"
    "st_removing ?st = st_removing ?st1" "st_sessions ?st = odel sid (st_sessions ?st1)"
    for q
    unfolding st by (simp_all add: endpoints_of_def id_of_def)
  have f6: "oget (st_endpointToSession ?st) x = (if entry r x st \<noteq> None then None else oget (st_endpointToSession ?st1) x)" for x
    using keys [of x] by (simp add: st om.get_foldl_del del: list.set_map)
  show "shrinks C st ?D {r} ?st"
  proof (rule shrinksI)
    show "length (st_heap ?st) = length (st_heap st)" "\<And>r. id_of r ?st = id_of r st" "st_removing ?st = st_removing st"
      "\<And>r. owf (endpoints_of r ?st)" "owf (st_sessions ?st)"
      unfolding f ps using p5 d(5) by simp_all
    show "\<And>q y. entry q y ?st = (if (q, y) \<in> ?D then None else entry q y st)" unfolding f by (rule entry1)
    show "oget (st_sessions ?st) s = (case oget (st_sessions st) s of Some q \<Rightarrow> if q \<in> {r} then None else Some q | None \<Rightarrow> None)" for s
      unfolding f ps using d(1) [of s] d(1) [OF Some] Some by (auto split: option.split)
    show "oget (st_endpointToSession ?st) y = (if \<exists>q. (q, y) \<in> ?D \<or> q \<in> {r} \<and> entry q y st \<noteq> None then None
        else oget (st_endpointToSession st) y)" for y
      unfolding f6 index1 by auto
    show "(y, q) \<in> set C" if "(q, y) \<in> ?D" for q y
      using that bridge_mate [OF inv live] DP by blast
  next
    fix q y e t z assume a: "is_live q st" "entry q y st = Some e" "(q, y) \<in> ?D \<or> q \<in> {r}" "mate st e = Some (t, z)"
    show "(t, z) \<in> ?D \<or> t \<in> {r}"
    proof (cases "q = r")
      case True
      then show ?thesis using a(2,4) DP by blast
    next
      case False
      then obtain k e' where k: "entry r k st = Some e'" "mate st e' = Some (q, y)" using a(3) DP by blast
      from bridge_mate [OF inv live k] a(2,4) show ?thesis by auto
    qed
  qed
qed

lemma drop_session_inv:
  assumes inv: "store_inv C S st"
  shows "store_inv C S (drop_session now sid st)"
proof (cases "oget (st_sessions st) sid")
  case None
  then show ?thesis using inv by (simp add: drop_session_def)
next
  case (Some r)
  show ?thesis by (rule shrink_inv [OF inv drop_session_shrinks [OF inv Some]])
qed

text \<open>\<open>Map.set\<close> of a session: a new record at the end of the heap, under an identifier that was never used.\<close>

lemma register_session_inv:
  assumes inv: "store_inv C S st" and new: "se_id s \<notin> set S" "se_id s \<noteq> []"
  shows "store_inv C (S @ [se_id s]) (register_session s st)"
proof -
  note d = store_invD [OF inv]
  note ids = inv [unfolded store_inv_def, THEN conjunct1, unfolded ids_ok_def]
  note ix = inv [unfolded store_inv_def, THEN conjunct2, THEN conjunct1, unfolded index_ok_def]
  note br = inv [unfolded store_inv_def, THEN conjunct2, THEN conjunct2, THEN conjunct1, unfolded bridges_ok_def]
  note rm = inv [unfolded store_inv_def, THEN conjunct2, THEN conjunct2, THEN conjunct2, unfolded removing_ok_def]
  let ?st = "register_session s st" and ?n = "length (st_heap st)"
  have f: "length (st_heap ?st) = Suc ?n" "st_removing ?st = st_removing st" "st_endpointToSession ?st = st_endpointToSession st"
    "st_sessions ?st = oset (se_id s) ?n (st_sessions st)" "endpoints_of q ?st = endpoints_of q st"
    "id_of q ?st = (if q = ?n then se_id s else id_of q st)" for q
    by (auto simp: register_session_def endpoints_of_def id_of_def nth_append)
  have none: "oget (st_sessions st) (se_id s) = None" using d(1) new(1) by (cases "oget (st_sessions st) (se_id s)") auto
  have fresh: "entry ?n ep ?st = None" for ep by (simp add: f)
  have idS: "id_of q st \<noteq> se_id s" if "q < ?n" for q using d(3) [OF that] new(1) by auto
  have live: "is_live q ?st \<longleftrightarrow> q = ?n \<or> is_live q st" for q
    using idS [of q] d(1) d(2) [of q] none by (auto simp: is_live_def f)
  have kn: "known ?st q ep e = known st q ep e" for q ep e by (simp add: known_def f)
  have pairS: "\<exists>p t. me_pairedSessionId e = Some (id_of t st) \<and> me_pairedEndpointId e = Some p \<and> (p, t) \<in> set C \<and> t < ?n"
    if "known st q ep e" "me_type e = ''bridge''" for q ep e
    using br that d(7) by blast
  have mates: "mate ?st e = mate st e" if "known st q ep e" for q ep e
  proof (cases "me_type e = ''bridge''")
    case True
    from pairS [OF that True] obtain t where "me_pairedSessionId e = Some (id_of t st)" "id_of t st \<noteq> se_id s" using idS by blast
    then show ?thesis using True by (simp add: mate_def paired_with_def f split: option.split)
  qed (simp add: mate_def)
  have "ids_ok (S @ [se_id s]) ?st"
    unfolding ids_ok_def
  proof (intro conjI allI impI)
    show "owf (st_sessions ?st)" using d(5) by (simp add: f)
    show "r < length (st_heap ?st)" "id_of r ?st = k" if "oget (st_sessions ?st) k = Some r" for k r
      using that d(1) [of k r] none by (auto simp: f split: if_splits)
    show "r = r'" if "r < length (st_heap ?st)" "r' < length (st_heap ?st)" "id_of r ?st = id_of r' ?st" for r r'
    proof (cases "r = ?n \<or> r' = ?n")
      case True
      then show ?thesis using that idS [of r] idS [of r'] by (auto simp: f split: if_splits)
    next
      case False
      then have "r < ?n" "r' < ?n" "id_of r st = id_of r' st" using that by (simp_all add: f)
      then show ?thesis using ids by blast
    qed
    show "id_of r ?st \<in> set (S @ [se_id s])" "id_of r ?st \<noteq> []" if "r < length (st_heap ?st)" for r
      using that d(3) [of r] new(2) by (auto simp: f)
    show "k \<in> set (S @ [se_id s])" if "oget (st_endpointToSession ?st) ep = Some k" for ep k
    proof -
      have "k \<in> set S" using that ids unfolding f by blast
      then show ?thesis by simp
    qed
  qed
  moreover have "index_ok C ?st"
    unfolding index_ok_def
  proof (intro conjI allI impI)
    show "distinct (map fst C)" "\<And>r. owf (endpoints_of r ?st)" using d(4,9) by (simp_all add: f)
    show "ep \<noteq> []" "r < length (st_heap ?st)" if "(ep, r) \<in> set C" for ep r using d(7) [OF that] by (simp_all add: f)
    show "(ep, r) \<in> set C" if "entry r ep ?st \<noteq> None" for ep r using that d(6) by (simp add: f)
    show "(oget (st_endpointToSession ?st) ep = Some k) = (entry r ep ?st \<noteq> None)" if k: "oget (st_sessions ?st) k = Some r" for k r ep
    proof (cases "k = se_id s")
      case True
      then have "r = ?n" using k by (simp add: f)
      moreover have "oget (st_endpointToSession st) ep \<noteq> Some k" using ids True new(1) by blast
      ultimately show ?thesis using True by (simp add: f)
    next
      case False
      then have "oget (st_sessions st) k = Some r" using k by (simp add: f)
      then show ?thesis using ix unfolding f by blast
    qed
  qed
  moreover have "bridges_ok C (S @ [se_id s]) ?st"
    unfolding bridges_ok_def
  proof (intro conjI allI impI)
    fix r ep e assume a: "is_live r ?st" "r < length (st_heap ?st)" "entry r ep ?st = Some e" "me_type e = ''bridge''"
    have r: "r < ?n" "entry r ep st = Some e" using a(2,3) fresh by (auto simp: f less_Suc_eq)
    then have lv: "is_live r st" using a(1) by (simp add: live)
    obtain t p e' where m: "mate st e = Some (t, p)" "t \<noteq> r" "entry t p st = Some e'" "me_type e' = ''bridge''"
        "me_pairedSessionId e' = Some (id_of r st)" "me_pairedEndpointId e' = Some ep"
      using br lv r a(4) by blast
    have "mate ?st e = Some (t, p)" using mates [of r ep e] m(1) r(2) by (simp add: known_def)
    with m r(1) show "\<exists>t p e'. mate ?st e = Some (t, p) \<and> t \<noteq> r \<and> entry t p ?st = Some e' \<and> me_type e' = ''bridge''
           \<and> me_pairedSessionId e' = Some (id_of r ?st) \<and> me_pairedEndpointId e' = Some ep"
      by (intro exI [of _ t] exI [of _ p] exI [of _ e']) (simp add: f)
  next
    fix r ep e t p assume a: "known ?st r ep e" "mate ?st e = Some (t, p)" "\<not> (is_live r ?st \<and> entry r ep ?st \<noteq> None)"
    then have "\<not> (is_live r st \<and> entry r ep st \<noteq> None)" "known st r ep e" by (auto simp: live f kn)
    moreover have "mate st e = Some (t, p)" using a(2) mates calculation(2) by simp
    ultimately have "entry t p st = None" using br by blast
    then show "entry t p ?st = None" by (simp add: f)
  next
    fix r ep e assume a: "known ?st r ep e" "me_type e = ''bridge''"
    then obtain p t where "me_pairedSessionId e = Some (id_of t st)" "me_pairedEndpointId e = Some p" "(p, t) \<in> set C" "t < ?n"
      using pairS [of r ep e] by (auto simp: kn)
    then show "\<exists>p t. me_pairedSessionId e = Some (id_of t ?st) \<and> me_pairedEndpointId e = Some p \<and> (p, t) \<in> set C"
      by (intro exI [of _ p] exI [of _ t]) (simp add: f)
  qed
  moreover have "removing_ok C ?st" using inv unfolding store_inv_def removing_ok_def by (simp add: f)
  ultimately show ?thesis by (simp add: store_inv_def)
qed

lemma addEndpoint_inv:
  assumes inv: "store_inv C S st" and new: "ep \<notin> fst ` set C" "ep \<noteq> []" "type \<noteq> ''bridge''" "r < length (st_heap st)"
  shows "store_inv (C @ [(ep, r)]) S (addEndpoint now r ep type dir None st)"
proof -
  note d = store_invD [OF inv]
  let ?N = "\<lambda>q x. if q = r \<and> x = ep then Some (new_endpoint now type dir None) else None"
  show ?thesis
  proof (rule grow_inv [OF inv, of _ _ ?N])
    show "fst ` set [(ep, r)] \<inter> fst ` set C = {}" using new(1) by simp
    show "\<And>q x. (x, q) \<in> set [(ep, r)] \<Longrightarrow> x \<noteq> [] \<and> q < length (st_heap st)" using new by simp
    show "\<And>q. owf (endpoints_of q (addEndpoint now r ep type dir None st))" using d(4) by simp
    show "\<And>q x. entry q x (addEndpoint now r ep type dir None st)
        = (case ?N q x of Some e \<Rightarrow> Some e | None \<Rightarrow> entry q x st)" using new(4) by simp
    show "\<exists>t p e'. ?N t p = Some e' \<and> t \<noteq> q \<and> is_live q st \<and> is_live t st \<and> me_pairedSessionId e = Some (id_of t st)
        \<and> me_pairedEndpointId e = Some p \<and> me_type e' = ''bridge'' \<and> me_pairedSessionId e' = Some (id_of q st)
        \<and> me_pairedEndpointId e' = Some x"
      if "?N q x = Some e" "me_type e = ''bridge''" for q x e
      using that new(3) by (auto simp: new_endpoint_def split: if_splits)
  qed auto
qed

lemma bridge_done_inv:
  assumes inv: "store_inv C S st" and r: "r \<noteq> t" "is_live r st" "is_live t st"
    and new: "ep \<notin> fst ` set C" "tep \<notin> fst ` set C" "ep \<noteq> tep" "ep \<noteq> []" "tep \<noteq> []"
  shows "store_inv (C @ [(ep, r), (tep, t)]) S (fst (bridge_done now r t dir ep tep st))"
proof -
  note d = store_invD [OF inv]
  let ?e1 = "new_endpoint now ''bridge'' (Some dir) (Some (id_of t st, tep))"
  let ?e2 = "new_endpoint now ''bridge'' (Some dir) (Some (id_of r st, ep))"
  let ?N = "\<lambda>q x. if q = r \<and> x = ep then Some ?e1 else if q = t \<and> x = tep then Some ?e2 else None"
  let ?st = "fst (bridge_done now r t dir ep tep st)"
  have st: "?st = addEndpoint now t tep ''bridge'' (Some dir) (Some (id_of r st, ep))
      (addEndpoint now r ep ''bridge'' (Some dir) (Some (id_of t st, tep)) st)"
    using r by (simp add: bridge_done_def)
  have len: "r < length (st_heap st)" "t < length (st_heap st)" using d(2) r by blast+
  show ?thesis
  proof (rule grow_inv [OF inv, of _ _ ?N])
    show "fst ` set [(ep, r), (tep, t)] \<inter> fst ` set C = {}" using new by simp
    show "\<And>q x. (x, q) \<in> set [(ep, r), (tep, t)] \<Longrightarrow> x \<noteq> [] \<and> q < length (st_heap st)" using new len by auto
    show "\<And>q. owf (endpoints_of q ?st)" using d(4) by (simp add: st)
    show "\<And>q x. entry q x ?st = (case ?N q x of Some e \<Rightarrow> Some e | None \<Rightarrow> entry q x st)"
      using len r(1) by (simp add: st)
    show "oget (st_endpointToSession ?st) x =
        (case map_of [(ep, r), (tep, t)] x of Some q \<Rightarrow> Some (id_of q st) | None \<Rightarrow> oget (st_endpointToSession st) x)" for x
      using new(3) by (simp add: st)
    show "\<exists>t' p e'. ?N t' p = Some e' \<and> t' \<noteq> q \<and> is_live q st \<and> is_live t' st \<and> me_pairedSessionId e = Some (id_of t' st)
        \<and> me_pairedEndpointId e = Some p \<and> me_type e' = ''bridge'' \<and> me_pairedSessionId e' = Some (id_of q st)
        \<and> me_pairedEndpointId e' = Some x"
      if N: "?N q x = Some e" "me_type e = ''bridge''" for q x e
    proof (cases "q = r \<and> x = ep")
      case True
      then have "e = ?e1" using N by simp
      then show ?thesis using True r by (intro exI [of _ t] exI [of _ tep] exI [of _ ?e2]) (simp add: new_endpoint_def)
    next
      case False
      then have "q = t \<and> x = tep" "e = ?e2" using N by (simp_all split: if_splits)
      then show ?thesis using r by (intro exI [of _ r] exI [of _ ep] exI [of _ ?e1]) (simp add: new_endpoint_def)
    qed
    show "distinct (map fst [(ep, r), (tep, t)])" using new(3) by simp
    show "(?N q x \<noteq> None) = ((x, q) \<in> set [(ep, r), (tep, t)])" for q x by auto
  qed (simp_all add: st)
qed

lemma set_direction_inv:
  assumes inv: "store_inv C S st"
  shows "store_inv C S (set_direction now r ep dir st)"
proof (rule relabel_inv [OF inv])
  note d = store_invD [OF inv]
  have same: "\<And>e. same_bridge e e" "\<And>e. same_bridge e (e\<lparr>me_direction := Some dir\<rparr>)" by (simp_all add: same_bridge_def)
  have e: "endpoints_of q (set_direction now r ep dir st) =
      (case entry r ep st of None \<Rightarrow> endpoints_of q st
       | Some e \<Rightarrow> if q = r then oset ep (e\<lparr>me_direction := Some dir\<rparr>) (endpoints_of q st) else endpoints_of q st)" for q
    by (auto simp: set_direction_def endpoints_of_update endpoints_at split: option.split)
  show "\<And>q. owf (endpoints_of q (set_direction now r ep dir st))" using d(4) by (simp add: e split: option.split)
  show "rel_option same_bridge (entry q x st) (entry q x (set_direction now r ep dir st))" for q x
    by (auto simp: e same option.rel_refl split: option.split)
qed (simp_all add: set_direction_def id_of_update split: option.split)

lemma ice_set_inv:
  assumes inv: "store_inv C S st"
  shows "store_inv C S (touch now r (update_session r (\<lambda>s. s\<lparr>se_ice := ice\<rparr>) st))"
proof (rule relabel_inv [OF inv])
  note d = store_invD [OF inv]
  have e: "endpoints_of q (update_session r (\<lambda>s. s\<lparr>se_ice := ice\<rparr>) st) = endpoints_of q st" for q
    by (simp add: endpoints_of_update endpoints_at)
  show "\<And>q. owf (endpoints_of q (touch now r (update_session r (\<lambda>s. s\<lparr>se_ice := ice\<rparr>) st)))" using d(4) by (simp add: e)
  show "rel_option same_bridge (entry q x st) (entry q x (touch now r (update_session r (\<lambda>s. s\<lparr>se_ice := ice\<rparr>) st)))" for q x
    by (auto simp: e same_bridge_def intro: option.rel_refl)
qed (simp_all add: id_of_update)

text \<open>The other tables have no part in the invariant.\<close>

definition same_tables :: "'ice media_store \<Rightarrow> 'ice media_store \<Rightarrow> bool" where
  "same_tables st st' \<longleftrightarrow> st_heap st' = st_heap st \<and> st_sessions st' = st_sessions st
     \<and> st_endpointToSession st' = st_endpointToSession st \<and> st_removing st' = st_removing st"

lemma same_tables_inv: "same_tables st st' \<Longrightarrow> store_inv C S st \<Longrightarrow> store_inv C S st'"
proof -
  assume t: "same_tables st st'" and inv: "store_inv C S st"
  then have "endpoints_of q st' = endpoints_of q st" "id_of q st' = id_of q st" for q
    by (simp_all add: same_tables_def endpoints_of_def id_of_def)
  with t show ?thesis
    by (intro relabel_inv [OF inv]) (auto simp: same_tables_def store_invD(4) [OF inv] intro: option.rel_refl simp: same_bridge_def)
qed

lemma other_steps:
  "same_tables st (store_step st (ActionClaimed ep action))" "same_tables st (store_step st (ActionReleased ep k))"
  "same_tables st (store_step st (ActionCancelled ep))" "same_tables st (store_step st (SensitiveMarked ep))"
  "same_tables st (store_step st (SensitiveCleared ep))" "same_tables st (store_step st (IceRestartPending ep))"
  "same_tables st (store_step st (IceRestartOver ep))" "same_tables st (store_step st (RecordingStarted rec sid m))"
  "same_tables st (store_step st (RecordingStopped rec))"
  by (auto simp: same_tables_def claimEndpointAction_def release_def split: option.split)

end
