(* ===== verification/MediaRuns.thy ===== *)
theory MediaRuns
  imports MediaStore
begin

text \<open>
  Runs of the media store: which events may come, that the invariant of \<open>MediaStore\<close> holds after all of
  them, the abstract table of endpoints that the store implements, and what follows for the lookups, the
  bridges and the end of a session.
\<close>

section \<open>Runs\<close>

text \<open>
  What rtpbridge and the callers guarantee: identifiers are never empty and never used twice, a bridge
  joins two different records, endpoints of type bridge come from bridges alone, and only an endpoint
  that was created in a record is removed from it.
\<close>

fun usable :: "(string \<times> nat) list \<Rightarrow> string list \<Rightarrow> 'ice media_store \<Rightarrow> 'ice store_event \<Rightarrow> bool" where
  "usable C S st (Registered s) = (se_id s \<notin> set S \<and> se_id s \<noteq> [])"
| "usable C S st (EndpointAdded now r ep type dir) =
     (r < length (st_heap st) \<and> ep \<notin> set (map fst C) \<and> ep \<noteq> [] \<and> type \<noteq> ''bridge'')"
| "usable C S st (BridgeDone now r t dir ep tep) =
     (r \<noteq> t \<and> ep \<notin> set (map fst C) \<and> tep \<notin> set (map fst C) \<and> ep \<noteq> tep \<and> ep \<noteq> [] \<and> tep \<noteq> [])"
| "usable C S st (RemoveStart r ep) = ((ep, r) \<in> set C)"
| "usable C S st _ = True"

fun created :: "'ice media_store \<Rightarrow> 'ice store_event \<Rightarrow> (string \<times> nat) list" where
  "created st (EndpointAdded now r ep type dir) = [(ep, r)]"
| "created st (BridgeDone now r t dir ep tep) = (if is_live r st \<and> is_live t st then [(ep, r), (tep, t)] else [])"
| "created st _ = []"

fun opened :: "'ice store_event \<Rightarrow> string list" where
  "opened (Registered s) = [se_id s]"
| "opened _ = []"

fun admissible :: "(string \<times> nat) list \<Rightarrow> string list \<Rightarrow> 'ice media_store \<Rightarrow> 'ice store_event list \<Rightarrow> bool" where
  "admissible C S st [] = True"
| "admissible C S st (e # es) = (usable C S st e \<and> admissible (C @ created st e) (S @ opened e) (store_step st e) es)"

definition store_after :: "'ice store_event list \<Rightarrow> 'ice media_store" where
  "store_after = foldl store_step empty_store"

lemma store_step_inv:
  assumes inv: "store_inv C S st" and ok: "usable C S st e"
  shows "store_inv (C @ created st e) (S @ opened e) (store_step st e)"
proof (cases e)
  case (Registered s)
  then show ?thesis using register_session_inv [OF inv] ok by simp
next
  case (EndpointAdded now r ep type dir)
  then show ?thesis using addEndpoint_inv [OF inv] ok by simp
next
  case (BridgeDone now r t dir ep tep)
  show ?thesis
  proof (cases "is_live r st \<and> is_live t st")
    case True
    then show ?thesis using bridge_done_inv [OF inv] ok BridgeDone by simp
  next
    case False
    then show ?thesis using inv BridgeDone by (auto simp: bridge_done_def)
  qed
next
  case (RemoveStart r ep)
  then show ?thesis using remove_start_inv [OF inv] ok by simp
next
  case (RemoveDone now k ok')
  obtain r ep x where k: "st_removing st ! k = (r, ep, x)" by (cases "st_removing st ! k") auto
  show ?thesis
  proof (cases "k < length (st_removing st)")
    case True
    then have "(r, ep, x) \<in> set (st_removing st)" using nth_mem k by metis
    from remove_done_inv [OF inv this] show ?thesis using RemoveDone True k by simp
  next
    case False
    then show ?thesis using inv RemoveDone by simp
  qed
next
  case (DirectionSet now r ep dir)
  then show ?thesis using set_direction_inv [OF inv] by simp
next
  case (IceSet now r ice)
  then show ?thesis using ice_set_inv [OF inv] by simp
next
  case (Dropped now sid)
  then show ?thesis using drop_session_inv [OF inv] by simp
qed (simp_all only: created.simps opened.simps append_Nil2 other_steps [THEN same_tables_inv, OF inv])

lemma empty_store_inv: "store_inv [] [] empty_store"
  by (simp add: store_inv_def ids_ok_def index_ok_def bridges_ok_def removing_ok_def empty_store_def is_live_def known_def
      endpoints_of_def)

lemma admissible_inv: "store_inv C S st \<Longrightarrow> admissible C S st es \<Longrightarrow> \<exists>C' S'. store_inv C' S' (foldl store_step st es)"
proof (induction es arbitrary: C S st)
  case Nil
  then show ?case by auto
next
  case (Cons e es)
  have "store_inv (C @ created st e) (S @ opened e) (store_step st e)" using store_step_inv [OF Cons.prems(1)] Cons.prems(2) by simp
  from Cons.IH [OF this] Cons.prems(2) show ?case by simp
qed

lemma reachable_inv:
  assumes "admissible [] [] empty_store es"
  obtains C S where "store_inv C S (store_after es)"
  using admissible_inv [OF empty_store_inv assms] unfolding store_after_def by blast

lemma live_record: "store_inv C S st \<Longrightarrow> is_live r st \<longleftrightarrow> (\<exists>s. oget (st_sessions st) s = Some r)"
  by (metis is_live_def store_invD(1))

section \<open>Live endpoints\<close>

text \<open>
  The abstract state: each endpoint that a request can reach, with its session and, for a bridge, the
  endpoint at the other end.
\<close>

type_synonym endpoint_view = "string \<Rightarrow> (string \<times> string option) option"

definition view :: "'ice media_store \<Rightarrow> endpoint_view" where
  "view st ep = (case oget (st_endpointToSession st) ep of
      None \<Rightarrow> None
    | Some s \<Rightarrow> (case oget (st_sessions st) s of
          None \<Rightarrow> None
        | Some r \<Rightarrow> map_option (\<lambda>e. (s, map_option snd (mate st e))) (entry r ep st)))"

definition forget :: "string \<Rightarrow> endpoint_view \<Rightarrow> endpoint_view" where
  "forget ep v = (case v ep of
      None \<Rightarrow> v
    | Some (s, m) \<Rightarrow> (\<lambda>x. if x = ep \<or> Some x = m then None else v x))"

definition forget_session :: "string \<Rightarrow> endpoint_view \<Rightarrow> endpoint_view" where
  "forget_session sid v x = (case v x of
      None \<Rightarrow> None
    | Some (s, m) \<Rightarrow> if s = sid \<or> (case m of None \<Rightarrow> False | Some p \<Rightarrow> map_option fst (v p) = Some sid) then None else Some (s, m))"

fun view_after :: "'ice media_store \<Rightarrow> 'ice store_event \<Rightarrow> endpoint_view \<Rightarrow> endpoint_view" where
  "view_after st (EndpointAdded now r ep type dir) v = (if is_live r st then v(ep \<mapsto> (id_of r st, None)) else v)"
| "view_after st (BridgeDone now r t dir ep tep) v =
     (if is_live r st \<and> is_live t st then v(ep \<mapsto> (id_of r st, Some tep), tep \<mapsto> (id_of t st, Some ep)) else v)"
| "view_after st (RemoveDone now k ok) v =
     (if k < length (st_removing st) \<and> ok then forget (fst (snd (st_removing st ! k))) v else v)"
| "view_after st (Dropped now sid) v = forget_session sid v"
| "view_after st _ v = v"

lemma view_iff:
  assumes inv: "store_inv C S st"
  shows "view st ep = Some (s, m) \<longleftrightarrow>
    (\<exists>r e. oget (st_sessions st) s = Some r \<and> entry r ep st = Some e \<and> m = map_option snd (mate st e))"
proof -
  note ix = inv [unfolded store_inv_def, THEN conjunct2, THEN conjunct1, unfolded index_ok_def]
  show ?thesis (is "?l = ?r")
  proof
    assume ?l
    then show ?r by (auto simp: view_def split: option.splits)
  next
    assume ?r
    then obtain r e where r: "oget (st_sessions st) s = Some r" "entry r ep st = Some e" "m = map_option snd (mate st e)" by blast
    then have "oget (st_endpointToSession st) ep = Some s" using ix by (metis option.distinct(1))
    then show ?l using r by (simp add: view_def)
  qed
qed

lemma view_eqI: "(\<And>s m. v ep = Some (s, m) \<longleftrightarrow> w ep = Some (s, m)) \<Longrightarrow> v ep = w ep"
  by (metis not_None_eq surj_pair)

lemma view_shrinks:
  assumes inv: "store_inv C S st" and sh: "shrinks C st D X st'"
  shows "view st' ep = (case view st ep of
      None \<Rightarrow> None
    | Some (s, m) \<Rightarrow> if \<exists>r. oget (st_sessions st) s = Some r \<and> ((r, ep) \<in> D \<or> r \<in> X) then None else Some (s, m))"
    (is "_ = ?w")
proof -
  note d = store_invD [OF inv]
  have inv': "store_inv C S st'" by (rule shrink_inv [OF inv sh])
  have sess: "oget (st_sessions st') s = Some r \<longleftrightarrow> oget (st_sessions st) s = Some r \<and> r \<notin> X" for s r
    using sh by (auto simp: shrinks_def split: option.splits if_splits)
  have ent: "entry r x st' = Some e \<longleftrightarrow> entry r x st = Some e \<and> (r, x) \<notin> D" for r x e
    using sh by (auto simp: shrinks_def split: if_splits)
  have closed: "(t, p) \<in> D \<or> t \<in> X" if "is_live r st" "entry r x st = Some e" "(r, x) \<in> D \<or> r \<in> X" "mate st e = Some (t, p)" for r x e t p
    using sh that unfolding shrinks_def by blast
  have mates: "mate st' e = mate st e" if lv: "is_live r st" "entry r ep st = Some e" "(r, ep) \<notin> D" "r \<notin> X" for r e
  proof (cases "mate st e")
    case None
    have "mate st' e = Some (t, p) \<Longrightarrow> mate st e = Some (t, p)" for t p by (auto simp: mate_Some sess)
    then show ?thesis using None by (cases "mate st' e") auto
  next
    case (Some tp)
    obtain t p where tp: "tp = (t, p)" by (cases tp)
    from bridge_mate [OF inv lv(1,2), of t p] Some tp obtain e' where e': "entry t p st = Some e'" "mate st e' = Some (r, ep)" by blast
    have lt: "is_live t st" using Some tp live_record [OF inv, of t] by (auto simp: mate_Some)
    have "t \<notin> X" using closed [OF lt e'(1) _ e'(2)] lv(3,4) by blast
    then have "mate st' e = Some (t, p)" using Some tp by (simp add: mate_Some sess)
    then show ?thesis by (simp only: Some tp)
  qed
  show ?thesis
  proof (cases "view st ep")
    case None
    have "view st' ep \<noteq> Some (s, m)" for s m
    proof
      assume "view st' ep = Some (s, m)"
      then obtain r e where "oget (st_sessions st) s = Some r" "entry r ep st = Some e"
        unfolding view_iff [OF inv'] sess ent by blast
      then have "view st ep = Some (s, map_option snd (mate st e))" unfolding view_iff [OF inv] by blast
      with None show False by simp
    qed
    then show ?thesis using None by (cases "view st' ep") auto
  next
    case (Some sm)
    obtain s m where sm: "sm = (s, m)" by (cases sm)
    from Some [unfolded sm view_iff [OF inv]] obtain r e where r: "oget (st_sessions st) s = Some r" "entry r ep st = Some e"
        "m = map_option snd (mate st e)" by blast
    have lv: "is_live r st" using r(1) live_record [OF inv] by blast
    show ?thesis
    proof (cases "(r, ep) \<in> D \<or> r \<in> X")
      case True
      have "view st' ep \<noteq> Some (s', m')" for s' m'
      proof
        assume "view st' ep = Some (s', m')"
        then obtain r' e' where r': "oget (st_sessions st) s' = Some r'" "r' \<notin> X" "entry r' ep st = Some e'" "(r', ep) \<notin> D"
          unfolding view_iff [OF inv'] sess ent by blast
        have "(ep, r') \<in> set C" "(ep, r) \<in> set C" using d(6) [of r' ep] d(6) [of r ep] r' r by simp_all
        then have "r' = r" by (rule d(8))
        then show False using True r' by simp
      qed
      then show ?thesis using True r Some sm by (cases "view st' ep") auto
    next
      case False
      then have "view st' ep = Some (s, m)"
        unfolding view_iff [OF inv'] sess ent using r mates [OF lv r(2)] by (intro exI [of _ r] exI [of _ e]) auto
      then show ?thesis using False r Some sm by simp
    qed
  qed
qed

lemma view_shrinks_None: "store_inv C S st \<Longrightarrow> shrinks C st D X st' \<Longrightarrow> view st ep = None \<Longrightarrow> view st' ep = None"
  by (simp add: view_shrinks)

lemma view_shrinks_Some:
  assumes inv: "store_inv C S st" and sh: "shrinks C st D X st'" and v: "view st ep = Some (s, m)"
  obtains r e where "oget (st_sessions st) s = Some r" "entry r ep st = Some e" "m = map_option snd (mate st e)"
    "view st' ep = (if (r, ep) \<in> D \<or> r \<in> X then None else Some (s, m))"
proof -
  from v [unfolded view_iff [OF inv]] obtain r e where r: "oget (st_sessions st) s = Some r" "entry r ep st = Some e"
      "m = map_option snd (mate st e)" by blast
  have "view st' ep = (if (r, ep) \<in> D \<or> r \<in> X then None else Some (s, m))"
    unfolding view_shrinks [OF inv sh] v by (simp add: r(1))
  with r that show thesis by blast
qed

lemma view_unused: "store_inv C S st \<Longrightarrow> ep \<notin> set (map fst C) \<Longrightarrow> view st ep = None"
proof -
  assume inv: "store_inv C S st" and ep: "ep \<notin> set (map fst C)"
  have "(ep, r) \<notin> set C" for r using ep by force
  then have "entry r ep st = None" for r using store_invD(6) [OF inv, of r ep] by blast
  then show ?thesis by (auto simp: view_def split: option.split)
qed

lemma view_same:
  assumes "st_sessions st' = st_sessions st" "st_endpointToSession st' = st_endpointToSession st"
    "\<And>r ep. rel_option same_bridge (entry r ep st) (entry r ep st')"
  shows "view st' = view st"
proof
  fix ep
  have m: "mate st' e = mate st e" for e by (simp only: mate_def paired_with_same [OF assms(1)])
  have "map_option (\<lambda>e. (s, map_option snd (mate st' e))) (entry r ep st') = map_option (\<lambda>e. (s, map_option snd (mate st e))) (entry r ep st)"
    for s r
    using assms(3) [of r ep] by (cases rule: option.rel_cases)
      (auto simp: m dest: same_bridge_mate [of _ _ st])
  note same = this
  show "view st' ep = view st ep"
    unfolding view_def assms(1,2) by (simp split: option.split) (intro allI impI, rule same)
qed

lemma view_same_tables: "same_tables st st' \<Longrightarrow> view st' = view st"
  by (rule view_same) (auto simp: same_tables_def endpoints_of_def same_bridge_def intro: option.rel_refl)

lemma view_add:
  assumes inv: "store_inv C S st" and new: "ep \<notin> set (map fst C)" "type \<noteq> ''bridge''" "r < length (st_heap st)"
  shows "view (addEndpoint now r ep type dir None st) = view_after st (EndpointAdded now r ep type dir) (view st)"
proof
  fix x
  let ?st = "addEndpoint now r ep type dir None st"
  note ids = inv [unfolded store_inv_def, THEN conjunct1, unfolded ids_ok_def]
  have s: "st_sessions ?st = st_sessions st" by simp
  have m: "mate ?st e = mate st e" for e by (simp only: mate_def paired_with_same [OF s])
  have uniq: "q = r" if "oget (st_sessions st) (id_of r st) = Some q" for q
    using that store_invD(1) [OF inv that] ids new(3) by blast
  have self: "mate st (new_endpoint now type dir None) = None" using new(2) by (simp add: mate_def new_endpoint_def)
  show "view ?st x = view_after st (EndpointAdded now r ep type dir) (view st) x"
  proof (cases "x = ep")
    case True
    then show ?thesis
      using uniq new(3) view_unused [OF inv new(1)]
      by (auto simp: view_def [of ?st] m self is_live_def split: option.split)
  next
    case False
    then have "view ?st x = view st x" by (simp add: view_def m split: option.split)
    with False show ?thesis by simp
  qed
qed

lemma view_bridge:
  assumes inv: "store_inv C S st" and r: "r \<noteq> t" "is_live r st" "is_live t st" "ep \<noteq> tep" "ep \<noteq> []" "tep \<noteq> []"
  shows "view (fst (bridge_done now r t dir ep tep st)) = (view st)(ep \<mapsto> (id_of r st, Some tep), tep \<mapsto> (id_of t st, Some ep))"
proof
  fix x
  let ?st = "fst (bridge_done now r t dir ep tep st)"
  let ?e1 = "new_endpoint now ''bridge'' (Some dir) (Some (id_of t st, tep))"
  let ?e2 = "new_endpoint now ''bridge'' (Some dir) (Some (id_of r st, ep))"
  have st: "?st = addEndpoint now t tep ''bridge'' (Some dir) (Some (id_of r st, ep))
      (addEndpoint now r ep ''bridge'' (Some dir) (Some (id_of t st, tep)) st)"
    using r by (simp add: bridge_done_def)
  note d = store_invD [OF inv]
  have len: "r < length (st_heap st)" "t < length (st_heap st)" using d(2) r by blast+
  have s: "st_sessions ?st = st_sessions st" by (simp add: st)
  have m: "mate ?st e = mate st e" for e by (simp only: mate_def paired_with_same [OF s])
  have live: "oget (st_sessions st) (id_of r st) = Some r" "oget (st_sessions st) (id_of t st) = Some t"
    using r by (simp_all add: is_live_def)
  have "id_of r st \<noteq> []" "id_of t st \<noteq> []" using d(3) len by blast+
  then have new: "mate st ?e1 = Some (t, tep)" "mate st ?e2 = Some (r, ep)"
    using live r by (simp_all add: mate_Some new_endpoint_def)
  show "view ?st x = ((view st)(ep \<mapsto> (id_of r st, Some tep), tep \<mapsto> (id_of t st, Some ep))) x"
  proof (cases "x = ep \<or> x = tep")
    case True
    then show ?thesis
      using r(1,4) len live new unfolding view_def [of ?st] m s by (auto simp: st)
  next
    case False
    then have "view ?st x = view st x" unfolding view_def m s by (simp add: st split: option.split)
    with False show ?thesis by simp
  qed
qed

lemma view_remove:
  assumes inv: "store_inv C S st" and x: "(r, ep, x) \<in> set (st_removing st)"
  shows "view (fst (remove_done now (r, ep, x) ok st)) = (if ok then forget ep (view st) else view st)"
proof (cases "\<not> ok \<and> is_live r st \<and> ohas (endpoints_of r st) ep")
  case True
  then show ?thesis by (simp add: remove_done_def)
next
  case gone: False
  note d = store_invD [OF inv]
  note br = inv [unfolded store_inv_def, THEN conjunct2, THEN conjunct2, THEN conjunct1, unfolded bridges_ok_def]
  note rm = inv [unfolded store_inv_def, THEN conjunct2, THEN conjunct2, THEN conjunct2, unfolded removing_ok_def]
  let ?D = "insert (r, ep) (set_option (case x of None \<Rightarrow> None | Some e \<Rightarrow> mate st e))"
  let ?st = "fst (remove_done now (r, ep, x) ok st)"
  note sh = remove_done_shrinks [OF inv x gone]
  have own: "(ep, r) \<in> set C" using rm x by blast
  have at_ep: "q = r" if "entry q ep st \<noteq> None" for q using d(8) [OF d(6) [OF that] own] .
  show ?thesis
  proof (cases "view st ep")
    case None
    have "(q, y) \<notin> ?D" if q: "oget (st_sessions st) s = Some q" "entry q y st \<noteq> None" for s q y
    proof
      assume "(q, y) \<in> ?D"
      moreover have "\<not> (is_live r st \<and> entry r ep st \<noteq> None)"
        using None view_iff [OF inv] live_record [OF inv] by (metis option.distinct(1) option.exhaust)
      moreover have "entry q y st = None" if "x = Some e" "mate st e = Some (q, y)" for e
        using br calculation(2) that x unfolding known_def by blast
      moreover have "is_live q st" using q live_record [OF inv] by blast
      ultimately show False using q(2) by (auto split: option.splits)
    qed
    note kept = this
    have "view ?st y = view st y" for y
    proof (cases "view st y")
      case None
      then show ?thesis using view_shrinks_None [OF inv sh] by metis
    next
      case (Some sm)
      obtain s m where sm: "sm = (s, m)" by (cases sm)
      from view_shrinks_Some [OF inv sh Some [unfolded sm]] obtain t e where "oget (st_sessions st) s = Some t"
          "entry t y st = Some e" "view ?st y = (if (t, y) \<in> ?D \<or> t \<in> {} then None else Some (s, m))" .
      then show ?thesis using kept [of s t y] Some sm by simp
    qed
    then show ?thesis using None by (auto simp: forget_def)
  next
    case (Some sm)
    obtain s m where sm: "sm = (s, m)" by (cases sm)
    from Some [unfolded sm view_iff [OF inv]] obtain q e where q: "oget (st_sessions st) s = Some q" "entry q ep st = Some e"
        "m = map_option snd (mate st e)" by blast
    have "q = r" using at_ep q(2) by simp
    with q have r: "oget (st_sessions st) s = Some r" "entry r ep st = Some e" by simp_all
    have live: "is_live r st" using r(1) live_record [OF inv] by blast
    then have ok: ok using gone r by simp
    obtain e0 where e0: "x = Some e0" "same_bridge e0 e" using rm x r(2) by (fastforce split: option.splits)
    have "mate st e0 = mate st e" by (rule same_bridge_mate [OF e0(2)])
    then have D: "?D = insert (r, ep) (set_option (mate st e))" by (simp add: e0(1))
    have inD: "(t, y) \<in> ?D \<longleftrightarrow> y = ep \<or> Some y = m" if t: "entry t y st \<noteq> None" for t y
    proof -
      have "t = z" if "mate st e = Some (z, y)" for z
        using bridge_mate [OF inv live r(2) that] d(8) [OF d(6) [OF t]] by blast
      moreover have "Some y = m \<longleftrightarrow> (\<exists>z. mate st e = Some (z, y))" using q(3) by (cases "mate st e") auto
      moreover have "t = r" if "y = ep" using at_ep t that by blast
      ultimately show ?thesis unfolding D by auto
    qed
    have "view ?st y = forget ep (view st) y" for y
    proof (cases "view st y")
      case None
      then show ?thesis using view_shrinks_None [OF inv sh None] by (simp add: forget_def Some sm)
    next
      case (Some sm')
      obtain s' m' where sm': "sm' = (s', m')" by (cases sm')
      from view_shrinks_Some [OF inv sh Some [unfolded sm']] obtain t e' where t: "entry t y st = Some e'"
          "view ?st y = (if (t, y) \<in> ?D \<or> t \<in> {} then None else Some (s', m'))" .
      from inD [of t y] t show ?thesis using Some sm' \<open>view st ep = Some sm\<close> sm by (auto simp: forget_def)
    qed
    then show ?thesis using ok by auto
  qed
qed

lemma view_drop:
  assumes inv: "store_inv C S st"
  shows "view (drop_session now sid st) = forget_session sid (view st)"
proof
  fix x
  note d = store_invD [OF inv]
  show "view (drop_session now sid st) x = forget_session sid (view st) x"
  proof (cases "oget (st_sessions st) sid")
    case None
    have "fst sm \<noteq> sid" if "view st y = Some sm" for y sm
      using that None view_iff [OF inv, of y "fst sm" "snd sm"] by auto
    then have "forget_session sid (view st) x = view st x" by (fastforce simp: forget_session_def split: option.split)
    then show ?thesis using None by (simp add: drop_session_def)
  next
    case r: (Some r)
    note sh = drop_session_shrinks [OF inv r, of now]
    have live: "is_live r st" using r live_record [OF inv] by blast
    have DP: "(t, q) \<in> far_ends r st \<longleftrightarrow> (\<exists>k e. entry r k st = Some e \<and> mate st e = Some (t, q))" for t q
      using oget_iff [OF d(4)] by (simp add: far_ends_def)
    show ?thesis
    proof (cases "view st x")
      case None
      then show ?thesis using view_shrinks_None [OF inv sh None] by (simp add: forget_session_def)
    next
      case (Some sm)
      obtain s m where sm: "sm = (s, m)" by (cases sm)
      from view_shrinks_Some [OF inv sh Some [unfolded sm]] obtain t e where t: "oget (st_sessions st) s = Some t"
          "entry t x st = Some e" "m = map_option snd (mate st e)" and
        vx: "view (drop_session now sid st) x = (if (t, x) \<in> far_ends r st \<or> t \<in> {r} then None else Some (s, m))" .
      have lt: "is_live t st" using t(1) live_record [OF inv] by blast
      have same: "k = sid \<longleftrightarrow> q = r" if "oget (st_sessions st) k = Some q" for k q
      proof -
        have "id_of q st = k" "id_of r st = sid" using d(1) that r by blast+
        then show ?thesis using that r by (metis option.inject)
      qed
      have s: "s = sid \<longleftrightarrow> t = r" by (rule same [OF t(1)])
      have far: "(t, x) \<in> far_ends r st \<longleftrightarrow> (\<exists>p. mate st e = Some (r, p))"
      proof
        assume "(t, x) \<in> far_ends r st"
        then obtain k e' where k: "entry r k st = Some e'" "mate st e' = Some (t, x)" unfolding DP by blast
        from bridge_mate [OF inv live k] t(2) show "\<exists>p. mate st e = Some (r, p)" by auto
      next
        assume "\<exists>p. mate st e = Some (r, p)"
        then obtain p where "mate st e = Some (r, p)" by blast
        from bridge_mate [OF inv lt t(2) this] show "(t, x) \<in> far_ends r st" unfolding DP by blast
      qed
      have "(\<exists>p. mate st e = Some (r, p)) \<longleftrightarrow> (case m of None \<Rightarrow> False | Some p \<Rightarrow> map_option fst (view st p) = Some sid)"
      proof (cases "mate st e")
        case None
        then show ?thesis using t(3) by simp
      next
        case (Some qp)
        obtain q p where qp: "qp = (q, p)" by (cases qp)
        from bridge_mate [OF inv lt t(2), of q p] Some qp obtain e' where e': "entry q p st = Some e'" by blast
        obtain s' where s': "oget (st_sessions st) s' = Some q" using Some qp by (auto simp: mate_Some)
        then have "view st p = Some (s', map_option snd (mate st e'))" using view_iff [OF inv] e' by blast
        moreover have "s' = sid \<longleftrightarrow> q = r" by (rule same [OF s'])
        ultimately show ?thesis using Some qp t(3) by simp
      qed
      note far' = this
      show ?thesis unfolding vx far far' by (simp add: forget_session_def Some sm s disj_commute)
    qed
  qed
qed

lemma admissible_snoc: "admissible C S st (es @ [e]) \<Longrightarrow>
    admissible C S st es \<and> (\<forall>C0 S0. store_inv C0 S0 st \<longrightarrow> C0 = C \<longrightarrow> S0 = S \<longrightarrow>
      (\<exists>C' S'. store_inv C' S' (foldl store_step st es) \<and> usable C' S' (foldl store_step st es) e))"
proof (induction es arbitrary: C S st)
  case Nil
  then show ?case by auto
next
  case (Cons x es)
  from Cons.IH [of "C @ created st x" "S @ opened x" "store_step st x"] Cons.prems store_step_inv [of C S st x]
  show ?case by simp
qed

lemma view_step:
  assumes inv: "store_inv C S st" and ok: "usable C S st e"
  shows "view (store_step st e) = view_after st e (view st)"
proof (cases e)
  case (Registered s)
  note d = store_invD [OF inv]
  note ids = inv [unfolded store_inv_def, THEN conjunct1, unfolded ids_ok_def]
  note inv' = store_step_inv [OF inv ok, unfolded Registered]
  let ?st = "register_session s st"
  have new: "se_id s \<notin> set S" using ok Registered by simp
  have none: "oget (st_sessions st) (se_id s) = None" using d(1) new by (cases "oget (st_sessions st) (se_id s)") auto
  have "view ?st x = view st x" for x
  proof -
    have ent: "endpoints_of q ?st = endpoints_of q st" for q
      by (auto simp: register_session_def endpoints_of_def nth_append)
    have idx: "oget (st_endpointToSession st) x \<noteq> Some (se_id s)" using ids new by blast
    have mates: "mate ?st e = mate st e" if "entry r x st = Some e" for r e
    proof (cases "me_pairedSessionId e = Some (se_id s) \<and> me_type e = ''bridge''")
      case True
      have "known st r x e" using that by (simp add: known_def)
      then obtain t where "me_pairedSessionId e = Some (id_of t st)" "t < length (st_heap st)"
        using inv True d(7) unfolding store_inv_def bridges_ok_def by blast
      then show ?thesis using True d(3) [of t] new by auto
    next
      case False
      then show ?thesis by (auto simp: mate_def paired_with_def register_session_def present_eq split: option.split)
    qed
    show ?thesis
      using idx mates unfolding view_def ent
      by (auto simp: register_session_def split: option.split intro!: option.map_cong)
  qed
  then show ?thesis using Registered by auto
next
  case (EndpointAdded now r ep type dir)
  then show ?thesis using view_add [OF inv] ok by simp
next
  case (BridgeDone now r t dir ep tep)
  show ?thesis
  proof (cases "is_live r st \<and> is_live t st")
    case True
    then show ?thesis using view_bridge [OF inv] ok BridgeDone by simp
  next
    case False
    then show ?thesis using BridgeDone by (auto simp: bridge_done_def)
  qed
next
  case (RemoveStart r ep)
  have "view (remove_start r ep st) = view st"
    by (rule view_same) (simp_all add: remove_start_def option.rel_refl same_bridge_def)
  then show ?thesis using RemoveStart by simp
next
  case (RemoveDone now k ok')
  obtain r ep x where k: "st_removing st ! k = (r, ep, x)" by (cases "st_removing st ! k") auto
  show ?thesis
  proof (cases "k < length (st_removing st)")
    case True
    then have "(r, ep, x) \<in> set (st_removing st)" using nth_mem k by metis
    from view_remove [OF inv this] show ?thesis using RemoveDone True k by simp
  next
    case False
    then show ?thesis using RemoveDone by simp
  qed
next
  case (DirectionSet now r ep dir)
  have "view (set_direction now r ep dir st) = view st"
    by (rule view_same)
      (auto simp: set_direction_def endpoints_of_update endpoints_at same_bridge_def option.rel_refl split: option.split)
  then show ?thesis using DirectionSet by simp
next
  case (IceSet now r ice)
  have "view (touch now r (update_session r (\<lambda>s. s\<lparr>se_ice := ice\<rparr>) st)) = view st"
    by (rule view_same) (auto simp: endpoints_of_update endpoints_at same_bridge_def option.rel_refl)
  then show ?thesis using IceSet by simp
next
  case (Dropped now sid)
  then show ?thesis using view_drop [OF inv] by simp
qed (simp_all only: view_after.simps other_steps [THEN view_same_tables])

text \<open>
  C2. The media store implements a plain table of endpoints: whatever requests, answers of rtpbridge
  and disconnects come in whatever order, a creation adds the endpoint when its session is still
  there and nothing otherwise, a bridge adds both its ends or none, a removal that rtpbridge confirms
  takes the endpoint and the other end of its bridge, a failed one changes nothing, the end of a
  session takes its endpoints and the far ends of its bridges, and nothing else has an effect.
\<close>

theorem store_refines_view:
  assumes "admissible [] [] empty_store (es @ [e])"
  shows "view (store_after (es @ [e])) = view_after (store_after es) e (view (store_after es))"
  using admissible_snoc [OF assms] empty_store_inv view_step [of _ _ "store_after es" e] by (auto simp: store_after_def)

lemma endpoint_found:
  assumes inv: "store_inv C S st"
  shows "(requireSessionForEndpoint ep st = Inr r) = (is_live r st \<and> ohas (endpoints_of r st) ep)"
proof -
  note d = store_invD [OF inv]
  note ix = inv [unfolded store_inv_def, THEN conjunct2, THEN conjunct1, unfolded index_ok_def]
  show ?thesis
  proof
    assume "requireSessionForEndpoint ep st = Inr r"
    then obtain s where s: "oget (st_endpointToSession st) ep = Some s" "oget (st_sessions st) s = Some r"
      by (auto simp: requireSessionForEndpoint_def requireSession_def rbind_eq_Inr present_eq)
    then have "ohas (endpoints_of r st) ep" using ix by blast
    then show "is_live r st \<and> ohas (endpoints_of r st) ep" using live_record [OF inv] s(2) by blast
  next
    assume a: "is_live r st \<and> ohas (endpoints_of r st) ep"
    then obtain s where s: "oget (st_sessions st) s = Some r" using live_record [OF inv] by blast
    then have "oget (st_endpointToSession st) ep = Some s" using a ix by blast
    moreover have "s \<noteq> []" using d(1) [OF s] by blast
    ultimately show "requireSessionForEndpoint ep st = Inr r"
      using s by (simp add: requireSessionForEndpoint_def requireSession_def)
  qed
qed

text \<open>Two sessions on one backend, bridged, with a file player in the first.\<close>

definition new_record :: "string \<Rightarrow> unit media_session" where
  "new_record sid = \<lparr>se_id = sid, se_callId = None, se_backendId = Some ''b'', se_ice = None, se_owner = Some ''c'',
     se_createdAt = ''t0'', se_updatedAt = ''t0'', se_endpoints = []\<rparr>"

definition bridged_run :: "unit store_event list" where
  "bridged_run = [Registered (new_record ''s1''), Registered (new_record ''s2''), BridgeDone ''t1'' 0 1 ''sendrecv'' ''e1'' ''e2'',
     EndpointAdded ''t2'' 0 ''e3'' ''file'' None, RemoveStart 0 ''e3'']"

theorem store_refines_view_witness:
  "view (store_after (bridged_run @ [Dropped ''t3'' ''s1''])) = forget_session ''s1'' (view (store_after bridged_run))
    \<and> view (store_after bridged_run) ''e2'' = Some (''s2'', Some ''e1'')
    \<and> view (store_after (bridged_run @ [Dropped ''t3'' ''s1''])) ''e2'' = None"
proof -
  have "admissible [] [] empty_store (bridged_run @ [Dropped ''t3'' ''s1''])" by code_simp
  from store_refines_view [OF this]
  have "view (store_after (bridged_run @ [Dropped ''t3'' ''s1''])) = forget_session ''s1'' (view (store_after bridged_run))" by simp
  moreover have "view (store_after bridged_run) ''e2'' = Some (''s2'', Some ''e1'')" by code_simp
  moreover have "view (store_after (bridged_run @ [Dropped ''t3'' ''s1''])) ''e2'' = None" by code_simp
  ultimately show ?thesis by blast
qed

text \<open>
  C3. The indexes agree and bridges are symmetric: in every reachable store a request finds the record
  of an endpoint exactly when the record belongs to a live session and holds the endpoint; and a bridge
  endpoint that a request finds is one of a pair, with an endpoint of another live session that leads
  back to it.
\<close>

theorem bridges_symmetric:
  assumes "admissible [] [] empty_store es"
  defines "st \<equiv> store_after es"
  shows "(requireSessionForEndpoint ep st = Inr r) = (is_live r st \<and> ohas (endpoints_of r st) ep)
    \<and> (case (requireSessionForEndpoint ep st, oget (endpoints_of r st) ep) of
         (Inr q, Some e) \<Rightarrow> q \<noteq> r \<or> me_type e \<noteq> ''bridge'' \<or>
           (case paired_with e st of
              None \<Rightarrow> False
            | Some (t, p) \<Rightarrow> t \<noteq> r \<and> requireSessionForEndpoint p st = Inr t
                \<and> Option.bind (oget (endpoints_of t st) p) (mate st) = Some (r, ep))
       | _ \<Rightarrow> True)"
proof -
  obtain C S where inv: "store_inv C S st" using reachable_inv [OF assms(1)] unfolding st_def .
  note d = store_invD [OF inv]
  note br = inv [unfolded store_inv_def, THEN conjunct2, THEN conjunct2, THEN conjunct1, unfolded bridges_ok_def]
  have "\<exists>t p e'. paired_with e st = Some (t, p) \<and> t \<noteq> r \<and> requireSessionForEndpoint p st = Inr t
      \<and> entry t p st = Some e' \<and> mate st e' = Some (r, ep)"
    if q: "requireSessionForEndpoint ep st = Inr r" and e: "entry r ep st = Some e" "me_type e = ''bridge''" for e
  proof -
    have live: "is_live r st" using q endpoint_found [OF inv] by blast
    then obtain t p where m: "mate st e = Some (t, p)" using br e d(2) [OF live] by blast
    from bridge_mate [OF inv live e(1) m] obtain e' where e': "t \<noteq> r" "entry t p st = Some e'" "mate st e' = Some (r, ep)" by blast
    have "is_live t st" using m live_record [OF inv] by (auto simp: mate_Some)
    then have "requireSessionForEndpoint p st = Inr t" using endpoint_found [OF inv] e'(2) by simp
    moreover have "paired_with e st = Some (t, p)" using m e(2) by (simp add: mate_def)
    ultimately show ?thesis using e' by blast
  qed
  then show ?thesis
    using endpoint_found [OF inv, of ep r] by (auto split: sum.split option.split)
qed

theorem bridges_symmetric_witness:
  "(requireSessionForEndpoint ''e1'' (store_after bridged_run) = Inr 0)
      = (is_live 0 (store_after bridged_run) \<and> ohas (endpoints_of 0 (store_after bridged_run)) ''e1'')
    \<and> requireSessionForEndpoint ''e1'' (store_after bridged_run) = Inr 0
    \<and> requireSessionForEndpoint ''e2'' (store_after bridged_run) = Inr 1"
proof -
  have "admissible [] [] empty_store bridged_run" by code_simp
  note p = bridges_symmetric [OF this, of "''e1''" 0]
  have "requireSessionForEndpoint ''e1'' (store_after bridged_run) = Inr 0"
    "requireSessionForEndpoint ''e2'' (store_after bridged_run) = Inr 1" by code_simp+
  with p [THEN conjunct1] show ?thesis by blast
qed

text \<open>
  C4. Nothing survives its session: once a live session is dropped, no request finds it, no entry of
  the endpoint index names it, none of its endpoints is found, and no endpoint of a remaining session
  is bridged to it.
\<close>

theorem dropped_session_gone:
  fixes es :: "'ice store_event list" and sid ep now :: string
  assumes "admissible [] [] empty_store es" and "oget (st_sessions (store_after es)) sid = Some r"
  defines "st \<equiv> drop_session now sid (store_after es)"
  shows "requireSession sid st = Inl (MediaSessionNotFoundError (''Media session '' @ sid @ '' not found''))
    \<and> oget (st_endpointToSession st) ep \<noteq> Some sid
    \<and> (case view st ep of None \<Rightarrow> True | Some (s, m) \<Rightarrow> s \<noteq> sid \<and> view (store_after es) ep = Some (s, m)
        \<and> (case m of None \<Rightarrow> True | Some p \<Rightarrow> map_option fst (view (store_after es) p) \<noteq> Some sid))"
proof -
  obtain C S where inv: "store_inv C S (store_after es)" using reachable_inv [OF assms(1)] .
  note ix = inv [unfolded store_inv_def, THEN conjunct2, THEN conjunct1, unfolded index_ok_def]
  note sh = drop_session_shrinks [OF inv assms(2), of now, folded st_def]
  have "oget (st_sessions st) sid = None" using sh assms(2) by (simp add: shrinks_def)
  moreover have "oget (st_endpointToSession st) ep \<noteq> Some sid"
  proof
    assume a: "oget (st_endpointToSession st) ep = Some sid"
    have i: "oget (st_endpointToSession st) ep =
        (if \<exists>q. (q, ep) \<in> far_ends r (store_after es) \<or> q \<in> {r} \<and> entry q ep (store_after es) \<noteq> None then None
         else oget (st_endpointToSession (store_after es)) ep)"
      using sh unfolding shrinks_def by blast
    from a i have "oget (st_endpointToSession (store_after es)) ep = Some sid" "entry r ep (store_after es) = None"
      by (auto split: if_splits)
    then show False using ix assms(2) by blast
  qed
  moreover have "view st ep = forget_session sid (view (store_after es)) ep"
    unfolding st_def view_drop [OF inv] by simp
  ultimately show ?thesis
    by (auto simp: requireSession_def forget_session_def split: option.splits if_splits)
qed

theorem dropped_session_gone_witness:
  "requireSession ''s1'' (drop_session ''t3'' ''s1'' (store_after bridged_run))
      = Inl (MediaSessionNotFoundError (''Media session '' @ ''s1'' @ '' not found''))
    \<and> oget (st_endpointToSession (drop_session ''t3'' ''s1'' (store_after bridged_run))) ''e3'' \<noteq> Some ''s1''"
proof -
  have "admissible [] [] empty_store bridged_run" "oget (st_sessions (store_after bridged_run)) ''s1'' = Some 0" by code_simp+
  from dropped_session_gone [OF this, of "''t3''" "''e3''"] show ?thesis by blast
qed

text \<open>
  The exception that the last property leaves open: \<open>createWebrtcOffer\<close> and its kin do not look again
  whether the session is still there, so an answer that comes after \<open>dropSession\<close> leaves an entry in
  \<open>endpointToSession\<close> that nothing removes.
\<close>

lemma late_endpoint_leaks:
  "oget (st_sessions (store_after [Registered (new_record ''s1''), Dropped ''t1'' ''s1'', EndpointAdded ''t2'' 0 ''e1'' ''webrtc'' None])) ''s1''
      = None
    \<and> oget (st_endpointToSession
          (store_after [Registered (new_record ''s1''), Dropped ''t1'' ''s1'', EndpointAdded ''t2'' 0 ''e1'' ''webrtc'' None])) ''e1''
      = Some ''s1''"
  by code_simp

end
