(* ===== verification/MediaSessions.thy ===== *)
theory MediaSessions
  imports MediaRuns
begin

text \<open>
  The media session service (\<open>src/media-session-service.ts\<close>) around its store: sensitive mode for digit
  collection and the redaction of the events that go to the owner, the ICE configuration, the start and
  the end of sessions, recordings, and what a client sees of a session.
\<close>

section \<open>Events to the owner\<close>

definition redactSensitiveDtmfEvent :: "jv \<Rightarrow> string list \<Rightarrow> jv" where
  "redactSensitiveDtmfEvent event marked =
     (if \<not> is_record event then event
      else if fld event ''event'' \<noteq> JStr ''dtmf'' \<or> \<not> is_record (fld event ''data'') then event
      else let d = fld event ''data'';
               sensitive = fld d ''sensitive'' = JBool True
                 \<or> (case str_of (fld d ''endpointId'') of Some ep \<Rightarrow> ep \<in> set marked | None \<Rightarrow> False)
           in if \<not> sensitive then event
              else JObj (oset ''data''
                (JObj (oset ''sensitive'' (JBool True) (oset ''digit'' (JStr ''~'') (entries d)))) (entries event)))"

text \<open>The owner, the session and the event that are handed to \<open>sendEvent\<close>, when there is an owner and a publisher.\<close>

definition publishRtpbridgeEvent :: "bool \<Rightarrow> nat \<Rightarrow> jv \<Rightarrow> 'ice media_store \<Rightarrow> (string \<times> string \<times> jv) option" where
  "publishRtpbridgeEvent publisher r event st =
     (case present (se_owner (st_heap st ! r)) of
        None \<Rightarrow> None
      | Some c \<Rightarrow> if \<not> publisher then None
          else Some (c, id_of r st, redactSensitiveDtmfEvent event (st_sensitive st)))"

section \<open>Sensitive mode\<close>

definition assertDtmfGatherAvailable :: "string \<Rightarrow> bool \<Rightarrow> 'ice media_store \<Rightarrow> (gw_error, unit) result" where
  "assertDtmfGatherAvailable ep sensitive st =
     (let active = oget (st_activeEndpointActions st) ep
      in guard (\<not> (ep \<in> set (st_sensitive st) \<or> sensitive \<and> active \<noteq> None))
           (MediaActionConflictError (''Endpoint '' @ ep @ '' already has active '' @
              (case active of Some (name, _) \<Rightarrow> name | None \<Rightarrow> ''sensitive gather''))))"

text \<open>The guards of \<open>gather\<close> and \<open>playAndGather\<close>.\<close>

definition gather_allowed :: "string \<Rightarrow> string \<Rightarrow> bool \<Rightarrow> 'ice media_store \<Rightarrow> (gw_error, nat) result" where
  "gather_allowed sid ep sensitive st =
     rbind (requireEndpointInSession sid ep st) (\<lambda>r.
     rbind (assertDtmfGatherAvailable ep sensitive st) (\<lambda>_. Inr r))"

text \<open>
  The calls of \<open>withSensitiveDtmf\<close>, numbered in the order of their start. A call waits for rtpbridge to
  switch the mode on, then for its operation, then for rtpbridge to switch the mode off.
\<close>

datatype sensitive_phase = Enabling | Operating | Disabling | SwitchedOff | StillOn

record 'ice service =
  sv_store :: "'ice media_store"
  sv_calls :: "(string \<times> sensitive_phase) list"

datatype 'ice service_event =
  GatherAsked string string bool
| EnableAnswered nat bool
| OperationOver nat
| DisableAnswered nat bool
| StoreEvent "'ice store_event"

definition empty_service :: "'ice service" where
  "empty_service = \<lparr>sv_store = empty_store, sv_calls = []\<rparr>"

definition mark :: "string \<Rightarrow> 'ice service \<Rightarrow> 'ice service" where
  "mark ep sv = sv\<lparr>sv_store := store_step (sv_store sv) (SensitiveMarked ep)\<rparr>"

definition unmark :: "string \<Rightarrow> 'ice service \<Rightarrow> 'ice service" where
  "unmark ep sv = sv\<lparr>sv_store := store_step (sv_store sv) (SensitiveCleared ep)\<rparr>"

definition set_phase :: "nat \<Rightarrow> sensitive_phase \<Rightarrow> 'ice service \<Rightarrow> 'ice service" where
  "set_phase k p sv = sv\<lparr>sv_calls := (sv_calls sv)[k := (fst (sv_calls sv ! k), p)]\<rparr>"

definition in_phase :: "nat \<Rightarrow> sensitive_phase \<Rightarrow> 'ice service \<Rightarrow> bool" where
  "in_phase k p sv \<longleftrightarrow> k < length (sv_calls sv) \<and> snd (sv_calls sv ! k) = p"

definition withSensitiveDtmf :: "string \<Rightarrow> 'ice service \<Rightarrow> 'ice service" where
  "withSensitiveDtmf ep sv = mark ep (sv\<lparr>sv_calls := sv_calls sv @ [(ep, Enabling)]\<rparr>)"

fun service_step :: "'ice service \<Rightarrow> 'ice service_event \<Rightarrow> 'ice service" where
  "service_step sv (GatherAsked sid ep sensitive) =
     (case gather_allowed sid ep sensitive (sv_store sv) of
        Inl _ \<Rightarrow> sv
      | Inr _ \<Rightarrow> if sensitive then withSensitiveDtmf ep sv else sv)"
| "service_step sv (EnableAnswered k ok) =
     (if \<not> in_phase k Enabling sv then sv
      else if ok then set_phase k Operating sv
      else unmark (fst (sv_calls sv ! k)) (set_phase k SwitchedOff sv))"
| "service_step sv (OperationOver k) = (if in_phase k Operating sv then set_phase k Disabling sv else sv)"
| "service_step sv (DisableAnswered k ok) =
     (if \<not> in_phase k Disabling sv then sv
      else if ok then unmark (fst (sv_calls sv ! k)) (set_phase k SwitchedOff sv)
      else set_phase k StillOn sv)"
| "service_step sv (StoreEvent e) = sv\<lparr>sv_store := store_step (sv_store sv) e\<rparr>"

text \<open>The marks are set and cleared by \<open>withSensitiveDtmf\<close> and by the removal of endpoints only.\<close>

definition sets_marks :: "'ice store_event \<Rightarrow> bool" where
  "sets_marks e = (case e of SensitiveMarked _ \<Rightarrow> True | SensitiveCleared _ \<Rightarrow> True | _ \<Rightarrow> False)"

fun service_admissible :: "(string \<times> nat) list \<Rightarrow> string list \<Rightarrow> 'ice service \<Rightarrow> 'ice service_event list \<Rightarrow> bool" where
  "service_admissible C S sv [] = True"
| "service_admissible C S sv (StoreEvent e # es) =
     (\<not> sets_marks e \<and> usable C S (sv_store sv) e
       \<and> service_admissible (C @ created (sv_store sv) e) (S @ opened e) (service_step sv (StoreEvent e)) es)"
| "service_admissible C S sv (e # es) = service_admissible C S (service_step sv e) es"

text \<open>
  What holds in every reachable state: a call that rtpbridge has not confirmed to be over has its
  endpoint marked, unless the endpoint is gone; no two such calls share an endpoint that is there.
\<close>

definition protected :: "'ice service \<Rightarrow> string \<Rightarrow> sensitive_phase \<Rightarrow> bool" where
  "protected sv ep p \<longleftrightarrow> p = SwitchedOff \<or> ep \<in> set (st_sensitive (sv_store sv)) \<or> view (sv_store sv) ep = None"

definition service_inv :: "(string \<times> nat) list \<Rightarrow> string list \<Rightarrow> 'ice service \<Rightarrow> bool" where
  "service_inv C S sv \<longleftrightarrow> store_inv C S (sv_store sv)
     \<and> (\<forall>ep p. (ep, p) \<in> set (sv_calls sv) \<longrightarrow> ep \<in> fst ` set C \<and> protected sv ep p)
     \<and> (\<forall>i j. i < length (sv_calls sv) \<longrightarrow> j < length (sv_calls sv) \<longrightarrow> fst (sv_calls sv ! i) = fst (sv_calls sv ! j)
          \<longrightarrow> snd (sv_calls sv ! i) \<noteq> SwitchedOff \<longrightarrow> snd (sv_calls sv ! j) \<noteq> SwitchedOff
          \<longrightarrow> view (sv_store sv) (fst (sv_calls sv ! i)) \<noteq> None \<longrightarrow> i = j)"

text \<open>An endpoint that is gone does not come back.\<close>

lemma view_stays_none:
  assumes inv: "store_inv C S st" and ok: "usable C S st e" and ep: "ep \<in> fst ` set C" "view st ep = None"
  shows "view (store_step st e) ep = None"
  unfolding view_step [OF inv ok] using ok ep
  by (cases e) (auto simp: forget_def forget_session_def split: option.split)

lemma shrinks_gone:
  assumes inv: "store_inv C S st" and sh: "shrinks C st D X st'" and gone: "(t, q) \<in> D \<or> t \<in> X \<and> entry t q st \<noteq> None"
  shows "view st' q = None"
proof (rule ccontr)
  assume "view st' q \<noteq> None"
  then obtain s m where "view st' q = Some (s, m)" by (cases "view st' q") auto
  then obtain r e where r: "oget (st_sessions st') s = Some r" "entry r q st' = Some e"
    unfolding view_iff [OF shrink_inv [OF inv sh]] by blast
  have "(q, t) \<in> set C" using gone sh store_invD(6) [OF inv] unfolding shrinks_def by blast
  moreover have e: "entry r q st = Some e" "(r, q) \<notin> D" using sh r(2) by (auto simp: shrinks_def split: if_splits)
  then have "(q, r) \<in> set C" using store_invD(6) [OF inv, of r q] by simp
  ultimately have "r = t" using store_invD(8) [OF inv] by blast
  moreover have "r \<notin> X" using sh r(1) by (auto simp: shrinks_def split: option.splits if_splits)
  ultimately show False using gone e(2) by blast
qed

lemma sensitive_removed [simp]:
  "st_sensitive (removeEndpointSnapshot now r ep st) = removeAll ep (st_sensitive st)"
  by (simp add: removeEndpointSnapshot_def Let_def touch_def update_session_def)

lemma unmarked_gone_remove:
  assumes inv: "store_inv C S st" and x: "(r, ep, x) \<in> set (st_removing st)" and m: "q \<in> set (st_sensitive st)"
  shows "q \<in> set (st_sensitive (fst (remove_done now (r, ep, x) ok st)))
    \<or> view (fst (remove_done now (r, ep, x) ok st)) q = None"
proof (cases "\<not> ok \<and> is_live r st \<and> ohas (endpoints_of r st) ep")
  case True
  then show ?thesis using m by (simp add: remove_done_def)
next
  case False
  let ?st = "fst (remove_done now (r, ep, x) ok st)"
  let ?m = "case x of None \<Rightarrow> None | Some e \<Rightarrow> mate st e"
  have "q \<in> set (st_sensitive (case y of None \<Rightarrow> removeEndpointSnapshot now r ep st
      | Some (t, p) \<Rightarrow> removeEndpointSnapshot now t p (removeEndpointSnapshot now r ep st)))
      \<or> (\<exists>t. (t, q) \<in> insert (r, ep) (set_option y))" for y
    using m by (cases y; cases "q = ep") auto
  then have "q \<in> set (st_sensitive ?st) \<or> (\<exists>t. (t, q) \<in> insert (r, ep) (set_option ?m))"
    unfolding remove_done_shape [OF False] .
  then show ?thesis
  proof
    assume "\<exists>t. (t, q) \<in> insert (r, ep) (set_option ?m)"
    then obtain t where "(t, q) \<in> insert (r, ep) (set_option ?m)" ..
    then show ?thesis by (intro disjI2 shrinks_gone [OF inv remove_done_shrinks [OF inv x False]] disjI1)
  qed (rule disjI1)
qed

lemma sensitive_drop_pairs:
  "q \<in> set (st_sensitive st) \<Longrightarrow>
    q \<in> set (st_sensitive (foldl (\<lambda>st (_, e). if me_type e = ''bridge'' then removePairedBridgeEndpoint now e st else st) st L))
    \<or> (\<exists>k e t. (k, e) \<in> set L \<and> mate st e = Some (t, q))"
proof (induction L arbitrary: st)
  case (Cons x L)
  obtain k e where x: "x = (k, e)" by (cases x)
  let ?st = "if me_type e = ''bridge'' then removePairedBridgeEndpoint now e st else st"
  have s: "?st = (case mate st e of None \<Rightarrow> st | Some (t, p) \<Rightarrow> removeEndpointSnapshot now t p st)"
    by (simp add: mate_def removePairedBridgeEndpoint_def split: option.split)
  have "st_sessions ?st = st_sessions st" unfolding s by (simp split: option.split prod.split)
  then have m: "mate ?st e' = mate st e'" for e' by (simp only: mate_def paired_with_same [OF \<open>st_sessions ?st = st_sessions st\<close>])
  show ?case
  proof (cases "\<exists>t. mate st e = Some (t, q)")
    case True
    then show ?thesis by (auto simp: x)
  next
    case False
    then have "q \<in> set (st_sensitive ?st)" using Cons.prems unfolding s by (auto split: option.split)
    from Cons.IH [OF this] show ?thesis unfolding m by (auto simp: x)
  qed
qed simp

lemma cancel_sensitive [simp]: "st_sensitive (cancelSessionActions r st) = st_sensitive st"
proof -
  have "st_sensitive (foldl cancelEndpointAction st eps) = st_sensitive st" for eps
    by (induction eps arbitrary: st) (simp_all add: cancelEndpointAction_def release_def split: option.split)
  then show ?thesis by (simp add: cancelSessionActions_def)
qed

lemma unmarked_gone_drop:
  assumes inv: "store_inv C S st" and m: "q \<in> set (st_sensitive st)"
  shows "q \<in> set (st_sensitive (drop_session now sid st)) \<or> view (drop_session now sid st) q = None"
proof (cases "oget (st_sessions st) sid")
  case None
  then show ?thesis using m by (simp add: drop_session_def)
next
  case (Some r)
  note gone = shrinks_gone [OF inv drop_session_shrinks [OF inv Some, of now]]
  let ?s1 = "dropPairedBridgeEndpoints now r (cancelSessionActions r st)"
  have sens: "st_sensitive (drop_session now sid st) = filter (\<lambda>ep. ep \<notin> set (okeys (endpoints_of r ?s1))) (st_sensitive ?s1)"
    by (simp add: drop_session_def Some Let_def)
  have "q \<in> set (st_sensitive ?s1) \<or> (\<exists>k e t. (k, e) \<in> set (endpoints_of r st) \<and> mate st e = Some (t, q))"
    using sensitive_drop_pairs [of q "cancelSessionActions r st" now "endpoints_of r st"] m
    by (simp add: dropPairedBridgeEndpoints_def)
  then show ?thesis
  proof
    assume a: "q \<in> set (st_sensitive ?s1)"
    show ?thesis
    proof (cases "ohas (endpoints_of r ?s1) q")
      case True
      then have "entry r q st \<noteq> None"
        using drop_pairs [where now = now and L = "endpoints_of r st" and st = "cancelSessionActions r st"]
        by (auto simp: dropPairedBridgeEndpoints_def Let_def split: if_splits)
      then show ?thesis using gone [of r q] by simp
    next
      case False
      then have "q \<notin> set (okeys (endpoints_of r ?s1))" unfolding ohas_keys .
      then show ?thesis using a unfolding sens by simp
    qed
  next
    assume "\<exists>k e t. (k, e) \<in> set (endpoints_of r st) \<and> mate st e = Some (t, q)"
    then obtain t where "(t, q) \<in> far_ends r st" unfolding far_ends_def by blast
    then show ?thesis by (intro disjI2 gone disjI1)
  qed
qed

lemma marks_kept:
  assumes inv: "store_inv C S st" and ok: "usable C S st e" "\<not> sets_marks e" and m: "q \<in> set (st_sensitive st)"
  shows "q \<in> set (st_sensitive (store_step st e)) \<or> view (store_step st e) q = None"
proof (cases e)
  case (RemoveDone now k ok')
  obtain r ep x where k: "st_removing st ! k = (r, ep, x)" by (cases "st_removing st ! k") auto
  show ?thesis
  proof (cases "k < length (st_removing st)")
    case True
    then have "(r, ep, x) \<in> set (st_removing st)" using nth_mem k by metis
    from unmarked_gone_remove [OF inv this m] show ?thesis using RemoveDone True k by simp
  next
    case False
    then show ?thesis using m RemoveDone by simp
  qed
next
  case (Dropped now sid)
  then show ?thesis using unmarked_gone_drop [OF inv m] by simp
qed (use m ok(2) in \<open>auto simp: register_session_def addEndpoint_def touch_def update_session_def bridge_done_def remove_start_def
    set_direction_def claimEndpointAction_def release_def cancelEndpointAction_def sets_marks_def Let_def split: option.split\<close>)

lemma mark_same [simp]:
  "view (sv_store (mark ep sv)) = view (sv_store sv)" "view (sv_store (unmark ep sv)) = view (sv_store sv)"
  "sv_calls (mark ep sv) = sv_calls sv" "sv_calls (unmark ep sv) = sv_calls sv"
  "set (st_sensitive (sv_store (mark ep sv))) = insert ep (set (st_sensitive (sv_store sv)))"
  "set (st_sensitive (sv_store (unmark ep sv))) = set (st_sensitive (sv_store sv)) - {ep}"
  using view_same_tables [OF other_steps(4)] view_same_tables [OF other_steps(5)] by (auto simp: mark_def unmark_def)

lemma mark_store_inv:
  "store_inv C S (sv_store sv) \<Longrightarrow> store_inv C S (sv_store (mark ep sv))"
  "store_inv C S (sv_store sv) \<Longrightarrow> store_inv C S (sv_store (unmark ep sv))"
  using same_tables_inv [OF other_steps(4)] same_tables_inv [OF other_steps(5)] by (simp_all add: mark_def unmark_def)

lemma set_phase_simps [simp]:
  "sv_store (set_phase k p sv) = sv_store sv" "length (sv_calls (set_phase k p sv)) = length (sv_calls sv)"
  "k < length (sv_calls sv) \<Longrightarrow> sv_calls (set_phase k p sv) ! i = (if i = k then (fst (sv_calls sv ! k), p) else sv_calls sv ! i)"
  by (auto simp: set_phase_def nth_list_update)

lemma service_invI:
  assumes "store_inv C S (sv_store sv)"
    and "\<And>i. i < length (sv_calls sv) \<Longrightarrow> fst (sv_calls sv ! i) \<in> fst ` set C
      \<and> protected sv (fst (sv_calls sv ! i)) (snd (sv_calls sv ! i))"
    and "\<And>i j. i < length (sv_calls sv) \<Longrightarrow> j < length (sv_calls sv) \<Longrightarrow> fst (sv_calls sv ! i) = fst (sv_calls sv ! j)
      \<Longrightarrow> snd (sv_calls sv ! i) \<noteq> SwitchedOff \<Longrightarrow> snd (sv_calls sv ! j) \<noteq> SwitchedOff
      \<Longrightarrow> view (sv_store sv) (fst (sv_calls sv ! i)) \<noteq> None \<Longrightarrow> i = j"
  shows "service_inv C S sv"
  unfolding service_inv_def
proof (intro conjI allI impI)
  fix ep p assume "(ep, p) \<in> set (sv_calls sv)"
  then obtain i where "i < length (sv_calls sv)" "sv_calls sv ! i = (ep, p)" by (auto simp: in_set_conv_nth)
  then show "ep \<in> fst ` set C" "protected sv ep p" using assms(2) [of i] by simp_all
qed (use assms in blast)+

lemma service_invD:
  assumes "service_inv C S sv"
  shows "store_inv C S (sv_store sv)"
    and "i < length (sv_calls sv) \<Longrightarrow> fst (sv_calls sv ! i) \<in> fst ` set C
      \<and> protected sv (fst (sv_calls sv ! i)) (snd (sv_calls sv ! i))"
    and "i < length (sv_calls sv) \<Longrightarrow> j < length (sv_calls sv) \<Longrightarrow> fst (sv_calls sv ! i) = fst (sv_calls sv ! j)
      \<Longrightarrow> snd (sv_calls sv ! i) \<noteq> SwitchedOff \<Longrightarrow> snd (sv_calls sv ! j) \<noteq> SwitchedOff
      \<Longrightarrow> view (sv_store sv) (fst (sv_calls sv ! i)) \<noteq> None \<Longrightarrow> i = j"
  using assms unfolding service_inv_def by (blast, metis nth_mem surjective_pairing, blast)

lemma phase_inv:
  assumes inv: "service_inv C S sv" and k: "k < length (sv_calls sv)" "snd (sv_calls sv ! k) \<noteq> SwitchedOff"
  shows "service_inv C S (set_phase k p sv)"
proof (rule service_invI)
  note d = service_invD [OF inv]
  show "store_inv C S (sv_store (set_phase k p sv))" using d(1) by simp
  show "fst (sv_calls (set_phase k p sv) ! i) \<in> fst ` set C
      \<and> protected (set_phase k p sv) (fst (sv_calls (set_phase k p sv) ! i)) (snd (sv_calls (set_phase k p sv) ! i))"
    if "i < length (sv_calls (set_phase k p sv))" for i
    using d(2) [of i] that k by (auto simp: protected_def)
  show "i = j" if "i < length (sv_calls (set_phase k p sv))" "j < length (sv_calls (set_phase k p sv))"
    "fst (sv_calls (set_phase k p sv) ! i) = fst (sv_calls (set_phase k p sv) ! j)"
    "snd (sv_calls (set_phase k p sv) ! i) \<noteq> SwitchedOff" "snd (sv_calls (set_phase k p sv) ! j) \<noteq> SwitchedOff"
    "view (sv_store (set_phase k p sv)) (fst (sv_calls (set_phase k p sv) ! i)) \<noteq> None" for i j
    using that d(3) [of i j] k by (simp split: if_splits)
qed

lemma leave_inv:
  assumes inv: "service_inv C S sv" and k: "k < length (sv_calls sv)" "snd (sv_calls sv ! k) \<noteq> SwitchedOff"
  shows "service_inv C S (unmark (fst (sv_calls sv ! k)) (set_phase k SwitchedOff sv))"
proof (rule service_invI)
  let ?ep = "fst (sv_calls sv ! k)"
  let ?sv = "unmark ?ep (set_phase k SwitchedOff sv)"
  note d = service_invD [OF inv]
  note d' = service_invD [OF phase_inv [OF inv k, of SwitchedOff]]
  show "store_inv C S (sv_store ?sv)" by (rule mark_store_inv(2) [OF d'(1)])
  show "fst (sv_calls ?sv ! i) \<in> fst ` set C \<and> protected ?sv (fst (sv_calls ?sv ! i)) (snd (sv_calls ?sv ! i))"
    if i: "i < length (sv_calls ?sv)" for i
  proof (cases "i = k")
    case True
    then show ?thesis using d(2) [of k] k by (simp add: protected_def)
  next
    case False
    then have n: "sv_calls ?sv ! i = sv_calls sv ! i" "i < length (sv_calls sv)" using i k by simp_all
    have "fst (sv_calls sv ! i) \<noteq> ?ep \<or> snd (sv_calls sv ! i) = SwitchedOff \<or> view (sv_store sv) (fst (sv_calls sv ! i)) = None"
      using d(3) [of i k] n k False by blast
    then show ?thesis using d(2) [OF n(2)] unfolding n by (auto simp: protected_def)
  qed
  show "i = j" if "i < length (sv_calls ?sv)" "j < length (sv_calls ?sv)" "fst (sv_calls ?sv ! i) = fst (sv_calls ?sv ! j)"
    "snd (sv_calls ?sv ! i) \<noteq> SwitchedOff" "snd (sv_calls ?sv ! j) \<noteq> SwitchedOff" "view (sv_store ?sv) (fst (sv_calls ?sv ! i)) \<noteq> None" for i j
    using that d'(3) [of i j] by simp
qed

fun service_created :: "'ice service \<Rightarrow> 'ice service_event \<Rightarrow> (string \<times> nat) list" where
  "service_created sv (StoreEvent e) = created (sv_store sv) e"
| "service_created sv _ = []"

fun service_opened :: "'ice service_event \<Rightarrow> string list" where
  "service_opened (StoreEvent e) = opened e"
| "service_opened _ = []"

lemma store_event_inv:
  assumes inv: "service_inv C S sv" and ok: "usable C S (sv_store sv) e" "\<not> sets_marks e"
  shows "service_inv (C @ created (sv_store sv) e) (S @ opened e) (service_step sv (StoreEvent e))"
proof (rule service_invI)
  let ?sv = "service_step sv (StoreEvent e)" and ?st = "sv_store sv"
  note d = service_invD [OF inv]
  show "store_inv (C @ created ?st e) (S @ opened e) (sv_store ?sv)" using store_step_inv [OF d(1) ok(1)] by simp
  show "fst (sv_calls ?sv ! i) \<in> fst ` set (C @ created ?st e) \<and> protected ?sv (fst (sv_calls ?sv ! i)) (snd (sv_calls ?sv ! i))"
    if "i < length (sv_calls ?sv)" for i
    using that d(2) [of i] marks_kept [OF d(1) ok, of "fst (sv_calls sv ! i)"]
      view_stays_none [OF d(1) ok(1), of "fst (sv_calls sv ! i)"]
    by (auto simp: protected_def)
  show "i = j" if "i < length (sv_calls ?sv)" "j < length (sv_calls ?sv)" "fst (sv_calls ?sv ! i) = fst (sv_calls ?sv ! j)"
    "snd (sv_calls ?sv ! i) \<noteq> SwitchedOff" "snd (sv_calls ?sv ! j) \<noteq> SwitchedOff" "view (sv_store ?sv) (fst (sv_calls ?sv ! i)) \<noteq> None" for i j
  proof -
    have "view (sv_store sv) (fst (sv_calls sv ! i)) \<noteq> None"
    proof
      assume "view (sv_store sv) (fst (sv_calls sv ! i)) = None"
      from view_stays_none [OF d(1) ok(1) _ this] d(2) [of i] that(1,6) show False by simp
    qed
    with that show ?thesis by (intro d(3)) simp_all
  qed
qed

lemma allowed_tracked:
  assumes inv: "store_inv C S st" and ok: "gather_allowed sid ep sensitive st = Inr r"
  shows "ep \<in> fst ` set C" "ep \<notin> set (st_sensitive st)" "view st ep \<noteq> None"
proof -
  from ok have a: "requireEndpointInSession sid ep st = Inr r" "ep \<notin> set (st_sensitive st)"
    by (auto simp: gather_allowed_def rbind_eq_Inr assertDtmfGatherAvailable_def Let_def)
  then have "oget (st_sessions st) sid = Some r" "oget (st_endpointToSession st) ep = Some sid" and e: "entry r ep st \<noteq> None"
    by (auto simp: requireEndpointInSession_def requireSession_def rbind_eq_Inr)
  then show "view st ep \<noteq> None" by (auto simp: view_def)
  have "(ep, r) \<in> set C" by (rule store_invD(6) [OF inv e])
  then show "ep \<in> fst ` set C" by force
  show "ep \<notin> set (st_sensitive st)" by (rule a(2))
qed

lemma sensitive_start_inv:
  assumes inv: "service_inv C S sv" and ok: "gather_allowed sid ep sensitive (sv_store sv) = Inr r"
  shows "service_inv C S (withSensitiveDtmf ep sv)"
proof (rule service_invI)
  let ?sv = "withSensitiveDtmf ep sv"
  note d = service_invD [OF inv]
  note t = allowed_tracked [OF d(1) ok]
  have f: "sv_calls ?sv = sv_calls sv @ [(ep, Enabling)]" "view (sv_store ?sv) = view (sv_store sv)"
    "set (st_sensitive (sv_store ?sv)) = insert ep (set (st_sensitive (sv_store sv)))"
    by (simp_all add: withSensitiveDtmf_def)
  show "store_inv C S (sv_store ?sv)" unfolding withSensitiveDtmf_def by (rule mark_store_inv(1)) (simp add: d(1))
  show "fst (sv_calls ?sv ! i) \<in> fst ` set C \<and> protected ?sv (fst (sv_calls ?sv ! i)) (snd (sv_calls ?sv ! i))"
    if "i < length (sv_calls ?sv)" for i
    using that d(2) [of i] t(1) by (auto simp: protected_def f nth_append)
  have new: "snd (sv_calls sv ! i) = SwitchedOff" if "i < length (sv_calls sv)" "fst (sv_calls sv ! i) = ep" for i
    using d(2) [OF that(1)] t(2,3) that(2) by (auto simp: protected_def)
  show "i = j" if "i < length (sv_calls ?sv)" "j < length (sv_calls ?sv)" "fst (sv_calls ?sv ! i) = fst (sv_calls ?sv ! j)"
    "snd (sv_calls ?sv ! i) \<noteq> SwitchedOff" "snd (sv_calls ?sv ! j) \<noteq> SwitchedOff" "view (sv_store ?sv) (fst (sv_calls ?sv ! i)) \<noteq> None" for i j
    using that d(3) [of i j] new [of i] new [of j] unfolding f by (auto simp: nth_append less_Suc_eq split: if_splits)
qed

lemma service_step_inv:
  assumes inv: "service_inv C S sv" and ok: "case e of StoreEvent e' \<Rightarrow> \<not> sets_marks e' \<and> usable C S (sv_store sv) e' | _ \<Rightarrow> True"
  shows "service_inv (C @ service_created sv e) (S @ service_opened e) (service_step sv e)"
proof (cases e)
  case (GatherAsked sid ep sensitive)
  then show ?thesis using inv sensitive_start_inv [OF inv] by (auto split: sum.split)
next
  case (StoreEvent e')
  then show ?thesis using store_event_inv [OF inv, of e'] ok by simp
qed (use inv phase_inv [OF inv] leave_inv [OF inv] in \<open>auto simp: in_phase_def\<close>)

definition service_after :: "'ice service_event list \<Rightarrow> 'ice service" where
  "service_after = foldl service_step empty_service"

lemma service_reachable:
  "service_inv C S sv \<Longrightarrow> service_admissible C S sv es \<Longrightarrow> \<exists>C' S'. service_inv C' S' (foldl service_step sv es)"
proof (induction es arbitrary: C S sv)
  case (Cons e es)
  have "case e of StoreEvent e' \<Rightarrow> \<not> sets_marks e' \<and> usable C S (sv_store sv) e' | _ \<Rightarrow> True"
    and adm: "service_admissible (C @ service_created sv e) (S @ service_opened e) (service_step sv e) es"
    using Cons.prems(2)
    by (cases e; simp only: service_admissible.simps service_created.simps service_opened.simps append_Nil2
        service_event.case simp_thms)+
  from service_step_inv [OF Cons.prems(1) this(1)] adm show ?case unfolding foldl.simps by (rule Cons.IH)
qed auto

lemma empty_service_inv: "service_inv [] [] empty_service"
  by (simp add: service_inv_def empty_service_def empty_store_inv)

text \<open>The event that rtpbridge sends for a digit.\<close>

definition dtmf_event :: "string \<Rightarrow> string \<Rightarrow> jv" where
  "dtmf_event ep digit = JObj [(''event'', JStr ''dtmf''),
     (''data'', JObj [(''endpointId'', JStr ep), (''digit'', JStr digit), (''sensitive'', JBool False)])]"

text \<open>
  C1. Sensitive digits fail closed: from the moment that a sensitive digit collection asks rtpbridge to
  switch the mode on until rtpbridge has confirmed that it is off, an event with a digit of that
  endpoint goes to the owner without the digit, also when rtpbridge did not mark it; when the mode
  could not be switched off it stays like that for as long as the endpoint exists.
\<close>

theorem sensitive_digits_hidden:
  assumes "service_admissible [] [] empty_service es"
    and "k < length (sv_calls (service_after es))" and "snd (sv_calls (service_after es) ! k) \<noteq> SwitchedOff"
    and "view (sv_store (service_after es)) (fst (sv_calls (service_after es) ! k)) \<noteq> None"
  shows "publishRtpbridgeEvent publisher r (dtmf_event (fst (sv_calls (service_after es) ! k)) digit) (sv_store (service_after es))
    = map_option (\<lambda>c. (c, id_of r (sv_store (service_after es)),
        JObj [(''event'', JStr ''dtmf''),
          (''data'', JObj [(''endpointId'', JStr (fst (sv_calls (service_after es) ! k))), (''digit'', JStr ''~''), (''sensitive'', JBool True)])]))
      (if publisher then present (se_owner (st_heap (sv_store (service_after es)) ! r)) else None)"
proof -
  obtain C S where inv: "service_inv C S (service_after es)"
    using service_reachable [OF empty_service_inv assms(1)] unfolding service_after_def by blast
  have "fst (sv_calls (service_after es) ! k) \<in> set (st_sensitive (sv_store (service_after es)))"
    using service_invD(2) [OF inv assms(2)] assms(3,4) by (simp add: protected_def)
  then show ?thesis
    by (simp add: publishRtpbridgeEvent_def redactSensitiveDtmfEvent_def dtmf_event_def is_record_def entries_def split: option.split)
qed

definition sensitive_run :: "unit service_event list" where
  "sensitive_run = [StoreEvent (Registered (new_record ''s1'')), StoreEvent (EndpointAdded ''t1'' 0 ''e1'' ''rtp'' None),
     GatherAsked ''s1'' ''e1'' True, EnableAnswered 0 True, OperationOver 0, DisableAnswered 0 False]"

theorem sensitive_digits_hidden_witness:
  "publishRtpbridgeEvent True 0 (dtmf_event ''e1'' ''7'') (sv_store (service_after sensitive_run))
    = Some (''c'', ''s1'', JObj [(''event'', JStr ''dtmf''),
        (''data'', JObj [(''endpointId'', JStr ''e1''), (''digit'', JStr ''~''), (''sensitive'', JBool True)])])"
proof -
  have f: "service_admissible [] [] empty_service sensitive_run" "0 < length (sv_calls (service_after sensitive_run))"
    "snd (sv_calls (service_after sensitive_run) ! 0) \<noteq> SwitchedOff"
    "view (sv_store (service_after sensitive_run)) (fst (sv_calls (service_after sensitive_run) ! 0)) \<noteq> None" by code_simp+
  have g: "fst (sv_calls (service_after sensitive_run) ! 0) = ''e1''" "id_of 0 (sv_store (service_after sensitive_run)) = ''s1''"
    "present (se_owner (st_heap (sv_store (service_after sensitive_run)) ! 0)) = Some ''c''" by code_simp+
  from sensitive_digits_hidden [OF f, of True 0 "''7''"] show ?thesis unfolding g by simp
qed

section \<open>ICE configuration\<close>

text \<open>\<open>isIP(s) === 4\<close>: four decimal octets without leading zeros.\<close>

definition is_octet :: "string \<Rightarrow> bool" where
  "is_octet s \<longleftrightarrow> s \<noteq> [] \<and> length s \<le> 3 \<and> list_all is_digit s \<and> (s = ''0'' \<or> hd s \<noteq> CHR ''0'') \<and> read_nat s < 256"

definition is_ipv4 :: "string \<Rightarrow> bool" where
  "is_ipv4 s \<longleftrightarrow> (case split_on (CHR ''.'') s of [a, b, c, d] \<Rightarrow> list_all is_octet [a, b, c, d] | _ \<Rightarrow> False)"

definition ipv4_candidate :: "jv \<Rightarrow> string option" where
  "ipv4_candidate v = (case str_of v of None \<Rightarrow> None | Some s \<Rightarrow> if is_ipv4 (js_trim s) then Some (js_trim s) else None)"

definition selectCoturnIpv4 :: "jv \<Rightarrow> string option" where
  "selectCoturnIpv4 mediaIp =
     (case List.map_filter ipv4_candidate (case arr_of mediaIp of Some vs \<Rightarrow> vs | None \<Rightarrow> [mediaIp]) of
        [] \<Rightarrow> None
      | ip # _ \<Rightarrow> Some ip)"

record ice_server =
  is_urls :: "string list"
  is_username :: "string option"
  is_credential :: "string option"

record ice_configuration =
  ic_backendId :: string
  ic_mediaIp :: string
  ic_expiresAt :: string
  ic_servers :: "ice_server list"

record turn_config =
  tc_secret :: "string option"
  tc_ttl :: "nat option"
  tc_urls :: "string list option"

text \<open>
  What \<open>createIceConfiguration\<close> takes from the client: the URLs of its backend, its identifier and host.
  \<open>info\<close> is the answer to \<open>server.info\<close>, \<open>now\<close> is \<open>Date.now()\<close>, \<open>hmac\<close> the base64 HMAC-SHA1 and \<open>isoTime\<close>
  the ISO format of a time in milliseconds.
\<close>

record ice_client =
  icl_urls :: "string list option"
  icl_backendId :: "string option"
  icl_backendHost :: "string option"

fun first_some :: "'a option list \<Rightarrow> 'a option" where
  "first_some [] = None"
| "first_some (None # xs) = first_some xs"
| "first_some (Some x # xs) = Some x"

definition coturn_urls :: "string \<Rightarrow> string list" where
  "coturn_urls ip = [''stun:'' @ ip @ '':3478'', ''turn:'' @ ip @ '':3478?transport=udp'', ''turn:'' @ ip @ '':3478?transport=tcp'']"

definition is_stun :: "string \<Rightarrow> bool" where
  "is_stun u = starts_with u ''stun:''"

definition ice_servers :: "string \<Rightarrow> string option \<Rightarrow> string list \<Rightarrow> ice_server list" where
  "ice_servers username credential urls =
     (let stuns = filter is_stun urls; turns = filter (\<lambda>u. \<not> is_stun u) urls
      in (if stuns = [] then [] else [\<lparr>is_urls = stuns, is_username = None, is_credential = None\<rparr>]) @
         (if turns = [] then [] else [\<lparr>is_urls = turns, is_username = Some username, is_credential = credential\<rparr>]))"

definition createIceConfiguration ::
  "(string \<Rightarrow> string \<Rightarrow> string) \<Rightarrow> (nat \<Rightarrow> string) \<Rightarrow> nat \<Rightarrow> turn_config option \<Rightarrow> ice_client \<Rightarrow>
    (gw_error, jv) result \<Rightarrow> string \<Rightarrow> (gw_error, ice_configuration option) result" where
  "createIceConfiguration hmac isoTime now turn client info sid =
     (let secret = present (Option.bind turn tc_secret);
          configured = first_some [icl_urls client, Option.bind turn tc_urls]
      in if secret = None \<and> configured = None then Inr None
      else rbind info (\<lambda>mediaIpField.
        let mediaIp = selectCoturnIpv4 mediaIpField
        in rbind (guard (mediaIp \<noteq> None \<or> configured \<noteq> None)
             (MediaUnavailableError ''rtpbridge server.info returned no usable IPv4 media_ip for cohosted coturn'')) (\<lambda>_.
        let backendId = (case first_some [icl_backendId client, icl_backendHost client, mediaIp] of Some b \<Rightarrow> b | None \<Rightarrow> []);
            expires = now div 1000 + (case Option.bind turn tc_ttl of Some t \<Rightarrow> t | None \<Rightarrow> 86400);
            username = show_nat expires @ '':rtc-session-'' @ sid;
            urls = (case configured of Some us \<Rightarrow> us
              | None \<Rightarrow> coturn_urls (case mediaIp of Some i \<Rightarrow> i | None \<Rightarrow> ''undefined''))
        in rbind (guard (list_all is_stun urls \<or> secret \<noteq> None) (MediaUnavailableError ''TURN URLs require COTURN_AUTH_SECRET'')) (\<lambda>_.
           Inr (Some \<lparr>ic_backendId = backendId, ic_mediaIp = (case mediaIp of Some i \<Rightarrow> i | None \<Rightarrow> []),
             ic_expiresAt = isoTime (expires * 1000),
             ic_servers = ice_servers username (map_option (\<lambda>k. hmac k username) secret) urls\<rparr>)))))"

lemma selectCoturnIpv4_valid: "selectCoturnIpv4 v = Some ip \<Longrightarrow> is_ipv4 ip"
proof -
  have "\<And>ip. ip \<in> set (List.map_filter ipv4_candidate vs) \<Longrightarrow> is_ipv4 ip" for vs
    by (induction vs) (auto simp: List.map_filter_simps ipv4_candidate_def split: option.splits if_splits)
  then show "selectCoturnIpv4 v = Some ip \<Longrightarrow> is_ipv4 ip"
    by (auto simp: selectCoturnIpv4_def split: list.splits) (metis list.set_intros(1))+
qed

lemma first_some_None: "first_some [a, b] = None \<longleftrightarrow> a = None \<and> b = None"
  by (cases a; cases b) simp_all

text \<open>The servers of a list of URLs: with a secret, one that needs it for whatever is no STUN URL.\<close>

definition servers_of :: "(string \<Rightarrow> string \<Rightarrow> string) \<Rightarrow> string option \<Rightarrow> string \<Rightarrow> string list \<Rightarrow> ice_server list \<Rightarrow> bool" where
  "servers_of hmac secret username urls servers \<longleftrightarrow>
     concat (map is_urls (filter (\<lambda>v. is_username v = None) servers)) = filter is_stun urls
     \<and> concat (map is_urls (filter (\<lambda>v. is_username v \<noteq> None) servers)) = filter (\<lambda>u. \<not> is_stun u) urls
     \<and> list_all (\<lambda>v. is_username v = None \<and> is_credential v = None
         \<or> is_username v = Some username \<and> (case secret of None \<Rightarrow> False | Some k \<Rightarrow> is_credential v = Some (hmac k username))) servers"

lemma ice_servers_of:
  "list_all is_stun urls \<or> secret \<noteq> None \<Longrightarrow> credential = map_option (\<lambda>k. hmac k username) secret \<Longrightarrow>
    servers_of hmac secret username urls (ice_servers username credential urls)"
  by (auto simp: servers_of_def ice_servers_def Let_def list_all_iff filter_empty_conv)

lemma coturn_urls_named:
  "list_all (\<lambda>u. starts_with u (''stun:'' @ ip) \<or> starts_with u (''turn:'' @ ip)) (coturn_urls ip)"
  by (auto simp: coturn_urls_def starts_with_iff)


section \<open>Start and end of sessions\<close>

datatype service_output =
  DestroyRemote string
| CloseClient
| UnregisterCall string "string option"

text \<open>
  \<open>createAdmittedSession\<close>: the answers to its calls are arguments, in the order in which it waits for them.
  What is registered is registered in the segment after the last of them.
\<close>

definition createAdmittedSession ::
  "string option \<Rightarrow> string option \<Rightarrow> string \<Rightarrow> (gw_error, string option) result \<Rightarrow> (gw_error, string) result \<Rightarrow>
    (gw_error, 'ice option) result \<Rightarrow> bool \<Rightarrow> 'ice media_store \<Rightarrow>
    'ice media_store \<times> service_output list \<times> (gw_error, 'ice media_session) result" where
  "createAdmittedSession callId owner now client session ice running st =
     (case client of
        Inl e \<Rightarrow> (st, [], Inl e)
      | Inr backendId \<Rightarrow>
          let failed = (\<lambda>sid e. (st,
                (case present sid of Some s \<Rightarrow> [DestroyRemote s] | None \<Rightarrow> []) @ [CloseClient] @
                (case present callId of Some c \<Rightarrow> [UnregisterCall c backendId] | None \<Rightarrow> []), Inl e))
          in (case session of
                Inl e \<Rightarrow> failed None e
              | Inr sid \<Rightarrow>
                  (case ice of
                     Inl e \<Rightarrow> failed (Some sid) e
                   | Inr cfg \<Rightarrow>
                       if \<not> running then failed (Some sid) GatewayDrainingError
                       else let s = \<lparr>se_id = sid, se_callId = callId, se_backendId = backendId, se_ice = cfg, se_owner = owner,
                                se_createdAt = now, se_updatedAt = now, se_endpoints = []\<rparr>
                            in (register_session s st, [], Inr s))))"

text \<open>\<open>destroySession\<close> after rtpbridge has answered: \<open>answer\<close> is its error, if any.\<close>

definition destroySession ::
  "string \<Rightarrow> string \<Rightarrow> nat \<Rightarrow> gw_error option \<Rightarrow> 'ice media_store \<Rightarrow> 'ice media_store \<times> (gw_error, unit) result" where
  "destroySession now sid r answer st =
     (drop_session now sid st,
      case answer of
        Some e \<Rightarrow> if oget (st_sessions st) sid = Some r then Inl e else Inr ()
      | None \<Rightarrow> Inr ())"

definition owner_of :: "nat \<Rightarrow> 'ice media_store \<Rightarrow> string option" where
  "owner_of r st = (if r < length (st_heap st) then se_owner (st_heap st ! r) else None)"

definition owned_sessions :: "string \<Rightarrow> 'ice media_store \<Rightarrow> string list" where
  "owned_sessions c st = map fst (filter (\<lambda>(_, r). owner_of r st = Some c) (st_sessions st))"

definition destroySessionsForOwner :: "string \<Rightarrow> string \<Rightarrow> 'ice media_store \<Rightarrow> 'ice media_store \<times> service_output list" where
  "destroySessionsForOwner now c st =
     (foldl (\<lambda>st sid. drop_session now sid st) st (owned_sessions c st),
      concat (map (\<lambda>sid. [DestroyRemote sid, CloseClient]) (owned_sessions c st)))"

lemma owner_kept [simp]: "owner_of q (removeEndpointSnapshot now r ep st) = owner_of q st"
  by (auto simp: owner_of_def removeEndpointSnapshot_def touch_def update_session_def Let_def nth_list_update)

lemma owner_removePaired [simp]: "owner_of q (removePairedBridgeEndpoint now e st) = owner_of q st"
  by (simp add: removePairedBridgeEndpoint_def split: option.split prod.split)

lemma owner_drop: "owner_of q (drop_session now sid st) = owner_of q st"
proof -
  have f: "owner_of q (foldl (\<lambda>st (_, e). if me_type e = ''bridge'' then removePairedBridgeEndpoint now e st else st) st L) = owner_of q st" for L st
    by (induction L arbitrary: st) (auto split: prod.split)
  have "owner_of q (cancelSessionActions r st) = owner_of q st" for r by (simp add: owner_of_def)
  then have "owner_of q (dropPairedBridgeEndpoints now r (cancelSessionActions r st)) = owner_of q st" for r
    unfolding dropPairedBridgeEndpoints_def by (simp add: f)
  moreover have "owner_of q (drop_session now sid st) =
      (case oget (st_sessions st) sid of None \<Rightarrow> owner_of q st | Some r \<Rightarrow> owner_of q (dropPairedBridgeEndpoints now r (cancelSessionActions r st)))"
    by (simp add: drop_session_def Let_def owner_of_def split: option.split)
  ultimately show ?thesis by (simp split: option.split)
qed

lemma sessions_drop:
  assumes "store_inv C S st"
  shows "oget (st_sessions (drop_session now sid st)) s = (if s = sid then None else oget (st_sessions st) s)"
proof (cases "oget (st_sessions st) sid")
  case None
  then show ?thesis by (simp add: drop_session_def)
next
  case (Some r)
  have "oget (st_sessions (drop_session now sid st)) s =
      (case oget (st_sessions st) s of Some q \<Rightarrow> if q \<in> {r} then None else Some q | None \<Rightarrow> None)"
    using drop_session_shrinks [OF assms Some, of now] unfolding shrinks_def by blast
  moreover have "id_of r st = sid" using store_invD(1) [OF assms Some] by blast
  moreover have "id_of q st = s" if "oget (st_sessions st) s = Some q" for q using store_invD(1) [OF assms that] by blast
  ultimately show ?thesis using Some by (cases "oget (st_sessions st) s") auto
qed

lemma drop_all:
  assumes "store_inv C S st"
  shows "store_inv C S (foldl (\<lambda>st sid. drop_session now sid st) st sids)
    \<and> oget (st_sessions (foldl (\<lambda>st sid. drop_session now sid st) st sids)) s = (if s \<in> set sids then None else oget (st_sessions st) s)
    \<and> owner_of q (foldl (\<lambda>st sid. drop_session now sid st) st sids) = owner_of q st
    \<and> view (foldl (\<lambda>st sid. drop_session now sid st) st sids) = foldl (\<lambda>v sid. forget_session sid v) (view st) sids"
  using assms
proof (induction sids arbitrary: st)
  case (Cons sid sids)
  from Cons.IH [OF drop_session_inv [OF Cons.prems, of now sid]] show ?case
    using sessions_drop [OF Cons.prems] owner_drop view_drop [OF Cons.prems] by auto
qed simp

lemma count_destroyed:
  "distinct L \<Longrightarrow> count_list (concat (map (\<lambda>sid. [DestroyRemote sid, CloseClient]) L)) (DestroyRemote s) = (if s \<in> set L then 1 else 0)"
  by (induction L) auto

text \<open>
  C20. When a control connection goes, exactly its sessions go: afterwards no live session belongs to the
  owner, every other session is still there with the record it had, the endpoints that remain are those
  the sessions leave behind one after the other, and each of the dropped sessions is destroyed at
  rtpbridge once.
\<close>

theorem owner_sessions_destroyed:
  fixes es :: "'ice store_event list" and c now s :: string
  assumes "admissible [] [] empty_store es"
  defines "st \<equiv> store_after es"
  defines "st' \<equiv> fst (destroySessionsForOwner now c st)"
  shows "oget (st_sessions st') s =
      (case oget (st_sessions st) s of None \<Rightarrow> None | Some r \<Rightarrow> if owner_of r st = Some c then None else Some r)
    \<and> (case oget (st_sessions st') s of None \<Rightarrow> True | Some r \<Rightarrow> owner_of r st' \<noteq> Some c)
    \<and> view st' = foldl (\<lambda>v sid. forget_session sid v) (view st) (owned_sessions c st)
    \<and> count_list (snd (destroySessionsForOwner now c st)) (DestroyRemote s) = (if s \<in> set (owned_sessions c st) then 1 else 0)"
proof -
  obtain C S where inv: "store_inv C S st" using reachable_inv [OF assms(1)] unfolding st_def .
  note d = store_invD [OF inv]
  let ?L = "owned_sessions c st"
  have L: "s \<in> set ?L \<longleftrightarrow> (\<exists>r. oget (st_sessions st) s = Some r \<and> owner_of r st = Some c)" for s
    using oget_iff [OF d(5)] by (force simp: owned_sessions_def)
  have st': "st' = foldl (\<lambda>st sid. drop_session now sid st) st ?L" by (simp add: st'_def destroySessionsForOwner_def)
  note all = drop_all [OF inv, of now ?L, folded st']
  have "oget (st_sessions st') s =
      (case oget (st_sessions st) s of None \<Rightarrow> None | Some r \<Rightarrow> if owner_of r st = Some c then None else Some r)" for s
    using all [of s] L [of s] by (auto split: option.split)
  moreover have "distinct ?L"
    using d(5) unfolding owned_sessions_def by (rule distinct_map_filter)
  then have "count_list (concat (map (\<lambda>sid. [DestroyRemote sid, CloseClient]) ?L)) (DestroyRemote s) = (if s \<in> set ?L then 1 else 0)"
    by (rule count_destroyed)
  ultimately show ?thesis
    using all by (auto simp: destroySessionsForOwner_def split: option.split if_splits)
qed

theorem owner_sessions_destroyed_witness:
  "oget (st_sessions (fst (destroySessionsForOwner ''t9'' ''c'' (store_after bridged_run)))) ''s1'' = None
    \<and> oget (st_sessions (fst (destroySessionsForOwner ''t9'' ''d'' (store_after bridged_run)))) ''s1'' = Some 0"
proof -
  have a: "admissible [] [] empty_store bridged_run" by code_simp
  have f: "oget (st_sessions (store_after bridged_run)) ''s1'' = Some 0" "owner_of 0 (store_after bridged_run) = Some ''c''" by code_simp+
  from owner_sessions_destroyed [OF a, of "''t9''" "''c''" "''s1''"] owner_sessions_destroyed [OF a, of "''t9''" "''d''" "''s1''"] f
  show ?thesis by simp
qed

text \<open>
  A session that cannot be set up leaves nothing behind: whichever call fails, and also when the
  gateway stops in between, the store is as it was, a session that rtpbridge has opened is destroyed
  there, the client is closed and the pin of the call is given back; a success registers the session
  and does none of that.
\<close>

theorem createAdmittedSession_cleans_up:
  "case createAdmittedSession callId owner now client session ice running st of
     (st', outs, Inl e) \<Rightarrow> st' = st
       \<and> (client = Inl e \<and> outs = []
         \<or> (\<exists>b. client = Inr b \<and> CloseClient \<in> set outs
              \<and> (case session of Inl err \<Rightarrow> e = err | Inr sid \<Rightarrow> (DestroyRemote sid \<in> set outs) = (sid \<noteq> [])
                    \<and> (ice = Inl e \<or> \<not> running \<and> e = GatewayDrainingError))
              \<and> (case present callId of None \<Rightarrow> True | Some c \<Rightarrow> UnregisterCall c b \<in> set outs)))
   | (st', outs, Inr s) \<Rightarrow> outs = [] \<and> running \<and> session = Inr (se_id s) \<and> client = Inr (se_backendId s) \<and> ice = Inr (se_ice s)
       \<and> st' = register_session s st \<and> oget (st_sessions st') (se_id s) = Some (length (st_heap st))"
  by (auto simp: createAdmittedSession_def register_session_def Let_def split: sum.split option.split)

section \<open>Requests for endpoints\<close>

text \<open>
  The synchronous part of \<open>restartIce\<close>: the record, and whether a new request goes to rtpbridge or the
  caller waits for the one under way.
\<close>

definition restartIce_begin :: "string \<Rightarrow> 'ice media_store \<Rightarrow> (gw_error, nat \<times> bool \<times> 'ice media_store) result" where
  "restartIce_begin ep st =
     rbind (requireSessionForEndpoint ep st) (\<lambda>r.
     Inr (if ep \<in> set (st_pendingIceRestarts st) then (r, False, st)
          else (r, True, store_step st (IceRestartPending ep))))"

text \<open>The answer: a failure clears the way for another request, a success refreshes the ICE configuration.\<close>

definition restartIce_failed :: "string \<Rightarrow> 'ice media_store \<Rightarrow> 'ice media_store" where
  "restartIce_failed ep st = store_step st (IceRestartOver ep)"

definition restartIce_done ::
  "string \<Rightarrow> nat \<Rightarrow> (gw_error, 'ice option) result \<Rightarrow> 'ice media_store \<Rightarrow> 'ice media_store \<times> (gw_error, 'ice option) result" where
  "restartIce_done now r ice st =
     (case ice of Inl e \<Rightarrow> (st, Inl e) | Inr cfg \<Rightarrow> (store_step st (IceSet now r cfg), Inr cfg))"

definition acceptWebrtcAnswer_done :: "string \<Rightarrow> 'ice media_store \<Rightarrow> 'ice media_store" where
  "acceptWebrtcAnswer_done ep st = store_step st (IceRestartOver ep)"

definition stopMedia_begin :: "string \<Rightarrow> 'ice media_store \<Rightarrow> (gw_error, nat \<times> 'ice media_store) result" where
  "stopMedia_begin ep st =
     rbind (requireSessionForEndpoint ep st) (\<lambda>r. Inr (r, remove_start r ep (cancelEndpointAction st ep)))"

definition unbridge_begin :: "string \<Rightarrow> 'ice media_store \<Rightarrow> (gw_error, nat \<times> 'ice media_store) result" where
  "unbridge_begin ep st =
     rbind (requireSessionForEndpoint ep st) (\<lambda>r.
     rbind (guard (case oget (endpoints_of r st) ep of Some e \<Rightarrow> me_type e = ''bridge'' | None \<Rightarrow> False)
       (MediaActionConflictError (''Media endpoint '' @ ep @ '' is not a bridge endpoint''))) (\<lambda>_.
     Inr (r, remove_start r ep st)))"

definition dtmf_digit :: "string \<Rightarrow> bool" where
  "dtmf_digit d \<longleftrightarrow> (case d of [c] \<Rightarrow> is_digit c \<or> to_upper c \<in> set ''ABCD#*'' | _ \<Rightarrow> False)"

definition injectDtmf :: "string \<Rightarrow> string \<Rightarrow> 'ice media_store \<Rightarrow> (gw_error, nat \<times> string) result" where
  "injectDtmf ep digit st =
     rbind (guard (dtmf_digit digit) (MediaRecordingProxyError 400 ''digit must be one DTMF character'')) (\<lambda>_.
     rbind (requireSessionForEndpoint ep st) (\<lambda>r. Inr (r, map to_upper digit)))"

section \<open>Recordings of a session\<close>

definition startRecording_begin ::
  "(string \<Rightarrow> string option) \<Rightarrow> recording_config \<Rightarrow> string \<Rightarrow> string \<Rightarrow> string option \<Rightarrow> 'ice media_store \<Rightarrow>
    (gw_error, nat \<times> string) result" where
  "startRecording_begin dec cfg fresh sid path st =
     rbind (requireSession sid st) (\<lambda>r.
     rbind (recordingFilePath dec cfg fresh path sid) (\<lambda>f. Inr (r, f)))"

definition startRecording_done ::
  "(string \<Rightarrow> string option) \<Rightarrow> recording_config \<Rightarrow> string \<Rightarrow> nat \<Rightarrow> string \<Rightarrow> string \<Rightarrow> 'ice media_store \<Rightarrow>
    'ice media_store \<times> (gw_error, recording_metadata) result" where
  "startRecording_done dec cfg sid r f recordingId st =
     (case recordingMetadata dec cfg (se_backendId (st_heap st ! r)) f of
        Inl e \<Rightarrow> (st, Inl e)
      | Inr m \<Rightarrow> (store_step st (RecordingStarted recordingId sid m), Inr m))"

definition stopRecording_begin :: "string \<Rightarrow> 'ice media_store \<Rightarrow> (gw_error, nat \<times> recording_metadata) result" where
  "stopRecording_begin recordingId st =
     rbind (require (MediaEndpointNotFoundError (''Recording '' @ recordingId @ '' not found'')) (oget (st_recordings st) recordingId))
       (\<lambda>(sid, m). rbind (requireSession sid st) (\<lambda>r. Inr (r, m)))"

definition stopRecording_done ::
  "(string \<Rightarrow> string option) \<Rightarrow> recording_config \<Rightarrow> nat \<Rightarrow> string \<Rightarrow> recording_metadata \<Rightarrow> string option \<Rightarrow> 'ice media_store \<Rightarrow>
    'ice media_store \<times> (gw_error, recording_metadata) result" where
  "stopRecording_done dec cfg r recordingId m filePath st =
     (store_step st (RecordingStopped recordingId),
      recordingMetadata dec cfg (se_backendId (st_heap st ! r)) (case present filePath of Some f \<Rightarrow> f | None \<Rightarrow> rm_filePath m))"

section \<open>What clients see\<close>

record 'ice media_snapshot =
  sn_sessionId :: string
  sn_callId :: "string option"
  sn_backendId :: "string option"
  sn_ice :: "'ice option"
  sn_createdAt :: string
  sn_updatedAt :: string
  sn_endpoints :: "media_endpoint list"

definition snapshotSession :: "'ice media_session \<Rightarrow> 'ice media_snapshot" where
  "snapshotSession s = \<lparr>sn_sessionId = se_id s, sn_callId = se_callId s, sn_backendId = se_backendId s, sn_ice = se_ice s,
     sn_createdAt = se_createdAt s, sn_updatedAt = se_updatedAt s, sn_endpoints = map snd (se_endpoints s)\<rparr>"

definition sessions_list :: "'ice media_store \<Rightarrow> 'ice media_snapshot list" where
  "sessions_list st = map (\<lambda>(_, r). snapshotSession (st_heap st ! r)) (st_sessions st)"

definition get_session :: "string \<Rightarrow> 'ice media_store \<Rightarrow> 'ice media_snapshot option" where
  "get_session sid st = map_option (\<lambda>r. snapshotSession (st_heap st ! r)) (oget (st_sessions st) sid)"

lemma set_join_slash: "set (join_slash ss) \<subseteq> insert (CHR ''/'') (\<Union>s\<in>set ss. set s)"
  by (induction ss rule: join_slash.induct) auto

lemma set_push: "set (foldl push_segment acc ss) \<subseteq> set ss \<union> set acc"
proof (induction ss arbitrary: acc)
  case (Cons a ss)
  have "set (push_segment acc a) \<subseteq> insert a (set acc)" by (auto simp: push_segment_def dest: in_set_butlastD)
  with Cons.IH [of "push_segment acc a"] show ?case by auto
qed simp

lemma set_path_segments: "s \<in> set (path_segments p) \<Longrightarrow> set s \<subseteq> set p"
  unfolding path_segments_def using set_push [of "[]" "split_on (CHR ''/'') p"] set_in_split [of s "CHR ''/''" p] by auto

lemma set_path_resolve: "set (path_resolve b p) \<subseteq> insert (CHR ''/'') (set b \<union> set p)"
proof -
  have "set (path_of (path_segments q)) \<subseteq> insert (CHR ''/'') (set q)" for q
    using set_join_slash [of "path_segments q"] set_path_segments [of _ q] by (auto simp: path_of_def)
  from this [of p] this [of "b @ ''/'' @ p"] show ?thesis by (auto simp: path_resolve_def)
qed

lemma slashes_resolved:
  assumes "CHR 0x5C \<notin> set (rc_cwd cfg)"
  shows "slashes (path_resolve (recordingsRootPath cfg) (slashes p)) = path_resolve (recordingsRootPath cfg) (slashes p)"
proof -
  have s: "CHR 0x5C \<notin> set (slashes q)" for q by (auto simp: slashes_def)
  have "CHR 0x5C \<notin> set (strip_trailing (slashes q))" for q
    using s [of q] by (auto simp: strip_trailing_def dest: set_dropWhileD)
  then have "CHR 0x5C \<notin> set (recordingsRootPath cfg)"
    using assms set_path_resolve [of "rc_cwd cfg"] by (fastforce simp: recordingsRootPath_def Let_def split: if_splits)
  then have "CHR 0x5C \<notin> set (path_resolve (recordingsRootPath cfg) (slashes p))"
    using set_path_resolve [of "recordingsRootPath cfg" "slashes p"] s [of p] by auto
  then show ?thesis by (rule slashes_id)
qed

text \<open>
  C32. A started recording is not lost when the service is configured with a prefix: whatever path
  rtpbridge was asked to record to, the answer is then turned into metadata for that path. Without a
  prefix this fails for one kind of path only, one whose percent escapes are invalid or hide a
  separator, and then rtpbridge is already recording.
\<close>

theorem recording_start_settles:
  assumes "CHR 0x5C \<notin> set (rc_cwd cfg)"
    and "startRecording_begin dec cfg fresh sid path st = Inr (r, f)"
  shows "case startRecording_done dec cfg sid r f recId st' of
     (st'', Inr m) \<Rightarrow> rm_filePath m = f \<and> oget (st_recordings st'') recId = Some (sid, m)
   | (st'', Inl e) \<Rightarrow> st'' = st' \<and> rc_active_prefix cfg = None \<and> e = invalid_path
       \<and> safeRecordingPathSegments dec (relativeRecordingPath cfg f) = Inl e"
proof -
  let ?root = "recordingsRootPath cfg"
  from assms(2) obtain q where f: "f = path_resolve ?root (slashes q)"
    and rel: "path_relative ?root f \<noteq> []" "\<not> starts_with (path_relative ?root f) ''..''" "\<not> is_absolute (path_relative ?root f)"
    and own: "requireOwnedRecordingPath dec cfg (path_relative ?root f) = Inr ()"
    by (auto simp: startRecording_begin_def recordingFilePath_def Let_def rbind_eq_Inr)
  have "is_absolute f" by (simp add: f path_resolve_def path_of_def is_absolute_def starts_with_iff)
  then have rp: "relativeRecordingPath cfg f = path_relative ?root f"
    using rel slashes_resolved [OF assms(1), of q, folded f] by (simp add: relativeRecordingPath_def Let_def)
  have safe: "\<exists>ss. safeRecordingPathSegments dec (path_relative ?root f) = Inr ss" if "rc_active_prefix cfg \<noteq> None"
    using own that by (auto simp: requireOwnedRecordingPath_def ownsRecordingPath_def rbind_eq_Inr split: option.splits)
  have err: "only_fails (\<lambda>e. e = invalid_path) (safeRecordingPathSegments dec p)" for p
    unfolding safeRecordingPathSegments_def safe_segment_def by (intro only_fails_rbind only_fails_rmap) auto
  note md = recordingMetadata_def [of dec cfg _ f, unfolded Let_def rp own rbind_simps]
  show ?thesis
  proof (cases "safeRecordingPathSegments dec (path_relative ?root f)")
    case (Inl e)
    then have "rc_active_prefix cfg = None" "e = invalid_path" using safe only_failsD [OF err] by fastforce+
    with Inl show ?thesis
      by (simp add: startRecording_done_def md rp encodeRecordingPath_def split: option.split)
  next
    case (Inr ss)
    then show ?thesis by (simp add: startRecording_done_def md encodeRecordingPath_def split: option.split)
  qed
qed

text \<open>A percent sign that starts no escape, without a prefix: rtpbridge records, the answer is an error.\<close>

theorem recording_start_settles_witness:
  "case startRecording_done (\<lambda>s. if s = ''a%'' then None else Some s)
       \<lparr>rc_recordingsPath = ''/rec'', rc_prefix = Some ''p-'', rc_cwd = ''/''\<rparr> ''s1'' 0 ''/rec/p-1'' ''r1'' (store_after bridged_run) of
     (st'', Inr m) \<Rightarrow> rm_filePath m = ''/rec/p-1'' \<and> oget (st_recordings st'') ''r1'' = Some (''s1'', m)
   | (st'', Inl e) \<Rightarrow> False"
proof -
  let ?cfg = "\<lparr>rc_recordingsPath = ''/rec'', rc_prefix = Some ''p-'', rc_cwd = ''/''\<rparr>"
  let ?dec = "\<lambda>s. if s = ''a%'' then None else Some s"
  have c: "CHR 0x5C \<notin> set (rc_cwd ?cfg)" by simp
  have b: "startRecording_begin ?dec ?cfg ''u'' ''s1'' (Some ''p-1'') (store_after bridged_run) = Inr (0, ''/rec/p-1'')" by code_simp
  have p: "rc_active_prefix ?cfg = Some ''p-''" by (simp add: rc_active_prefix_def)
  from recording_start_settles [OF c b, where recId = "''r1''" and st' = "store_after bridged_run"] p show ?thesis
    by (auto split: prod.splits sum.splits)
qed

text \<open>A percent sign that starts no escape, without a prefix: rtpbridge records, the answer is an error.\<close>

lemma unprefixed_recording_is_lost:
  "startRecording_begin (\<lambda>s. if s = ''a%'' then None else Some s)
      \<lparr>rc_recordingsPath = ''/rec'', rc_prefix = None, rc_cwd = ''/''\<rparr> ''u'' ''s1'' (Some ''a%'') (store_after bridged_run) = Inr (0, ''/rec/a%'')
    \<and> snd (startRecording_done (\<lambda>s. if s = ''a%'' then None else Some s)
      \<lparr>rc_recordingsPath = ''/rec'', rc_prefix = None, rc_cwd = ''/''\<rparr> ''s1'' 0 ''/rec/a%'' ''r1'' (store_after bridged_run)) = Inl invalid_path"
  by code_simp

end
