(* ===== verification/MediaRequests.thy ===== *)
theory MediaRequests
  imports MediaActions MediaStore
begin

text \<open>
  The requests of \<open>src/media-session-service.ts\<close> that go to rtpbridge and come back: the ones that create
  an endpoint, the ones about an endpoint, and playing a prompt while collecting digits. Each is split at
  its \<open>await\<close>s: what is checked before the request and what its answer does to the store.
\<close>

section \<open>Creating endpoints\<close>

datatype create_call = CreateWebrtcOffer | CreateWebrtcFromOffer | CreateRtpOffer | CreateRtpFromOffer | PlayFile

definition created_type :: "create_call \<Rightarrow> string" where
  "created_type call = (case call of
     CreateWebrtcOffer \<Rightarrow> ''webrtc'' | CreateWebrtcFromOffer \<Rightarrow> ''webrtc''
   | CreateRtpOffer \<Rightarrow> ''rtp'' | CreateRtpFromOffer \<Rightarrow> ''rtp'' | PlayFile \<Rightarrow> ''file'')"

text \<open>The answer is taken for the session record that the request found, whatever has become of the session.\<close>

definition create_endpoint_begin :: "string \<Rightarrow> 'ice media_store \<Rightarrow> (gw_error, nat) result" where
  "create_endpoint_begin sid st = requireSession sid st"

definition create_endpoint_done ::
  "create_call \<Rightarrow> string \<Rightarrow> nat \<Rightarrow> string option \<Rightarrow> (gw_error, string) result \<Rightarrow> 'ice media_store
   \<Rightarrow> 'ice media_store \<times> (gw_error, string) result" where
  "create_endpoint_done call now r direction reply st =
     (case reply of
        Inl e \<Rightarrow> (st, Inl e)
      | Inr ep \<Rightarrow>
          (store_step st (EndpointAdded now r ep (created_type call) (if call = PlayFile then None else direction)), Inr ep))"

section \<open>Requests about an endpoint\<close>

text \<open>
  \<open>acceptWebrtcAnswer\<close>, \<open>acceptWebrtcOffer\<close>, \<open>acceptRtpAnswer\<close>, \<open>rtpReinvite\<close> and \<open>updateDirection\<close> look up
  the session of the endpoint; only the first and the last change the store when rtpbridge has answered.
\<close>

datatype endpoint_call = AcceptWebrtcAnswer | AcceptWebrtcOffer | AcceptRtpAnswer | RtpReinvite | UpdateDirection string

definition endpoint_call_begin :: "string \<Rightarrow> 'ice media_store \<Rightarrow> (gw_error, nat) result" where
  "endpoint_call_begin ep st = requireSessionForEndpoint ep st"

definition endpoint_call_done ::
  "endpoint_call \<Rightarrow> string \<Rightarrow> nat \<Rightarrow> string \<Rightarrow> (gw_error, jv) result \<Rightarrow> 'ice media_store
   \<Rightarrow> 'ice media_store \<times> (gw_error, jv) result" where
  "endpoint_call_done call now r ep reply st =
     (case reply of
        Inl e \<Rightarrow> (st, Inl e)
      | Inr v \<Rightarrow>
          (case call of
             AcceptWebrtcAnswer \<Rightarrow> (store_step st (IceRestartOver ep), Inr (JObj [(''ok'', JBool True)]))
           | AcceptWebrtcOffer \<Rightarrow> (st, Inr v)
           | AcceptRtpAnswer \<Rightarrow> (st, Inr (JObj [(''ok'', JBool True)]))
           | RtpReinvite \<Rightarrow> (st, Inr v)
           | UpdateDirection dir \<Rightarrow> (set_direction now r ep dir st, Inr (JObj [(''ok'', JBool True)]))))"

section \<open>Playing a prompt while collecting digits\<close>

text \<open>
  \<open>playAndGather\<close> after its checks: the prompt is created at rtpbridge, then the gather runs, then the
  prompt is removed unless its removal has been started by the first digit; the removal started at the
  end is awaited, the one started by a digit is not. The record holds the endpoint of the prompt and
  whether its removal has been started.
\<close>

type_synonym gather_outcome = "(gw_error, string \<times> gather_reason) result"

datatype prompt_phase =
  PromptCreating
| PromptGathering gather_config gather
| PromptStopping gather_outcome
| PromptOver

record prompt =
  pg_phase :: prompt_phase
  pg_endpoint :: "string option"
  pg_stopped :: bool

datatype prompt_event =
  PromptCreated "(gw_error, string) result" "gw_error option"
| PromptGather gather_event
| PromptRemoved

datatype prompt_output =
  PromptAdded string
| PromptRemoving string
| ActionReleasedNow
| PromptReturned string gather_reason string
| PromptThrew gw_error

definition start_prompt :: prompt where
  "start_prompt = \<lparr>pg_phase = PromptCreating, pg_endpoint = None, pg_stopped = False\<rparr>"

text \<open>\<open>stopPlayback\<close>: does nothing without an endpoint or when it has been called before.\<close>

definition playing :: "prompt \<Rightarrow> bool" where
  "playing p \<longleftrightarrow> \<not> pg_stopped p \<and> truthy_opt (pg_endpoint p)"

definition prompt_endpoint :: "prompt \<Rightarrow> string" where
  "prompt_endpoint p = (case pg_endpoint p of Some ep \<Rightarrow> ep | None \<Rightarrow> [])"

definition stopPlayback :: "prompt \<Rightarrow> prompt \<times> prompt_output list" where
  "stopPlayback p = (if playing p then (p\<lparr>pg_stopped := True\<rparr>, [PromptRemoving (prompt_endpoint p)]) else (p, []))"

definition conclude :: "gather_outcome \<Rightarrow> prompt \<Rightarrow> prompt_output" where
  "conclude r p = (case r of Inl e \<Rightarrow> PromptThrew e | Inr (digits, reason) \<Rightarrow> PromptReturned digits reason (prompt_endpoint p))"

text \<open>The \<open>finally\<close> block: without anything to stop the action is over at once.\<close>

definition prompt_finally :: "gather_outcome \<Rightarrow> prompt \<Rightarrow> prompt \<times> prompt_output list" where
  "prompt_finally r p =
     (if playing p
      then (case stopPlayback p of (p', outs) \<Rightarrow> (p'\<lparr>pg_phase := PromptStopping r\<rparr>, outs))
      else (p\<lparr>pg_phase := PromptOver\<rparr>, [conclude r p]))"

text \<open>The hooks of \<open>collectDtmf\<close>: the first digit, and the timeout that the end of the prompt arms.\<close>

definition prompt_config :: "play_gather_params \<Rightarrow> string \<Rightarrow> (gw_error, gather_config) result" where
  "prompt_config params ep = collectDtmf_config params (map_option (\<lambda>t. (ep, t)) (pg_postPlaybackTimeoutMs params))"

definition prompt_created ::
  "play_gather_params \<Rightarrow> string \<Rightarrow> gw_error option \<Rightarrow> prompt \<Rightarrow> prompt \<times> prompt_output list" where
  "prompt_created params ep claim p =
     (let p1 = p\<lparr>pg_endpoint := Some ep\<rparr>;
          (p2, outs) = (case prompt_config params ep of
             Inl e \<Rightarrow> prompt_finally (Inl e) p1
           | Inr cfg \<Rightarrow> (case claim of
                 Some e \<Rightarrow> prompt_finally (Inl e) p1
               | None \<Rightarrow> (p1\<lparr>pg_phase := PromptGathering cfg (start_gather cfg)\<rparr>, [])))
      in (p2, PromptAdded ep # outs))"

text \<open>What a step of the gather means: at most one of its outputs is the first digit or the result.\<close>

fun prompt_gathered :: "play_gather_params \<Rightarrow> gather_output list \<Rightarrow> prompt \<Rightarrow> prompt \<times> prompt_output list" where
  "prompt_gathered params [] p = (p, [])"
| "prompt_gathered params (FirstDigit # outs) p =
     (case (if pg_stopPlaybackOnDigit params = Some False then (p, []) else stopPlayback p) of
        (p1, outs1) \<Rightarrow> (case prompt_gathered params outs p1 of (p2, outs2) \<Rightarrow> (p2, outs1 @ outs2)))"
| "prompt_gathered params (GatherReleased # outs) p =
     (case prompt_gathered params outs p of (p1, outs1) \<Rightarrow> (p1, ActionReleasedNow # outs1))"
| "prompt_gathered params (GatherResolved digits reason # outs) p =
     (case prompt_finally (Inr (digits, reason)) p of
        (p1, outs1) \<Rightarrow> (case prompt_gathered params outs p1 of (p2, outs2) \<Rightarrow> (p2, outs1 @ outs2)))"

fun prompt_step :: "play_gather_params \<Rightarrow> prompt \<Rightarrow> prompt_event \<Rightarrow> prompt \<times> prompt_output list" where
  "prompt_step params p (PromptCreated reply claim) =
     (if pg_phase p \<noteq> PromptCreating then (p, [])
      else case reply of
             Inl e \<Rightarrow> prompt_finally (Inl e) p
           | Inr ep \<Rightarrow> prompt_created params ep claim p)"
| "prompt_step params p (PromptGather e) =
     (case pg_phase p of
        PromptGathering cfg g \<Rightarrow>
          (case gather_step cfg g e of
             (g', outs) \<Rightarrow> prompt_gathered params outs (p\<lparr>pg_phase := PromptGathering cfg g'\<rparr>))
      | _ \<Rightarrow> (p, []))"
| "prompt_step params p PromptRemoved =
     (case pg_phase p of
        PromptStopping r \<Rightarrow> (p\<lparr>pg_phase := PromptOver\<rparr>, [conclude r p])
      | _ \<Rightarrow> (p, []))"

abbreviation prompt_run :: "play_gather_params \<Rightarrow> prompt_event list \<Rightarrow> prompt \<times> prompt_output list" where
  "prompt_run params es \<equiv> steps (prompt_step params) start_prompt es"

section \<open>Properties\<close>

definition removals :: "prompt_output list \<Rightarrow> nat" where
  "removals outs = length (filter (\<lambda>x. case x of PromptRemoving _ \<Rightarrow> True | _ \<Rightarrow> False) outs)"

definition additions :: "prompt_output list \<Rightarrow> nat" where
  "additions outs = length (filter (\<lambda>x. case x of PromptAdded ep \<Rightarrow> ep \<noteq> [] | _ \<Rightarrow> False) outs)"

definition endings :: "prompt_output list \<Rightarrow> nat" where
  "endings outs = length (filter (\<lambda>x. case x of PromptReturned _ _ _ \<Rightarrow> True | PromptThrew _ \<Rightarrow> True | _ \<Rightarrow> False) outs)"

lemma prompt_counts [simp]:
  "removals [] = 0" "removals (xs @ ys) = removals xs + removals ys"
  "removals (x # xs) = (case x of PromptRemoving _ \<Rightarrow> 1 | _ \<Rightarrow> 0) + removals xs"
  "additions [] = 0" "additions (xs @ ys) = additions xs + additions ys"
  "additions (x # xs) = (case x of PromptAdded ep \<Rightarrow> of_bool (ep \<noteq> []) | _ \<Rightarrow> 0) + additions xs"
  "endings [] = 0" "endings (xs @ ys) = endings xs + endings ys"
  "endings (x # xs) = (case x of PromptReturned _ _ _ \<Rightarrow> 1 | PromptThrew _ \<Rightarrow> 1 | _ \<Rightarrow> 0) + endings xs"
  by (auto simp: removals_def additions_def endings_def split: prompt_output.split)

text \<open>The books of a prompt: what has been added, removed and concluded, as its phase tells.\<close>

definition prompt_over :: "prompt \<Rightarrow> bool" where
  "prompt_over p \<longleftrightarrow> pg_phase p = PromptOver"

definition prompt_sound :: "prompt \<Rightarrow> bool" where
  "prompt_sound p \<longleftrightarrow> (pg_phase p = PromptCreating \<longrightarrow> pg_endpoint p = None) \<and> (pg_stopped p \<longrightarrow> truthy_opt (pg_endpoint p))
     \<and> (case pg_phase p of PromptStopping _ \<Rightarrow> \<not> playing p | PromptOver \<Rightarrow> \<not> playing p | _ \<Rightarrow> True)"

definition prompt_moves :: "prompt \<Rightarrow> prompt \<times> prompt_output list \<Rightarrow> bool" where
  "prompt_moves p r \<longleftrightarrow> prompt_sound (fst r)
     \<and> of_bool (pg_stopped (fst r)) = of_bool (pg_stopped p) + removals (snd r)
     \<and> of_bool (truthy_opt (pg_endpoint (fst r))) = of_bool (truthy_opt (pg_endpoint p)) + additions (snd r)
     \<and> of_bool (prompt_over (fst r)) = of_bool (prompt_over p) + endings (snd r)"

lemma moves_trans: "prompt_moves p (p1, outs1) \<Longrightarrow> prompt_moves p1 (p2, outs2) \<Longrightarrow> prompt_moves p (p2, outs1 @ outs2)"
  by (simp add: prompt_moves_def)

lemma finally_moves:
  assumes "prompt_sound p" and "pg_phase p \<noteq> PromptOver"
  shows "prompt_moves p (prompt_finally r p)"
  using assms
  by (auto simp: prompt_finally_def stopPlayback_def prompt_moves_def prompt_sound_def prompt_over_def playing_def conclude_def
      split: sum.split prod.split)

lemma created_moves:
  assumes "prompt_sound p" and "pg_phase p = PromptCreating"
  shows "prompt_moves p (prompt_created params ep claim p)"
proof -
  let ?p = "p\<lparr>pg_endpoint := Some ep\<rparr>"
  have p: "pg_endpoint p = None" "\<not> pg_stopped p" using assms by (auto simp: prompt_sound_def truthy_opt_def)
  then have s: "prompt_sound (?p\<lparr>pg_phase := PromptGathering cfg (start_gather cfg)\<rparr>)" for cfg
    by (simp add: prompt_sound_def start_gather_def)
  have f: "prompt_moves p (case prompt_finally (Inl e) ?p of (p2, outs) \<Rightarrow> (p2, PromptAdded ep # outs))" for e
    using assms(2) p
    by (auto simp: prompt_finally_def stopPlayback_def prompt_moves_def prompt_sound_def prompt_over_def playing_def
        conclude_def truthy_opt_def)
  show ?thesis
  proof (cases "prompt_config params ep")
    case (Inl e)
    with f [of e] show ?thesis by (simp add: prompt_created_def Let_def)
  next
    case (Inr cfg)
    show ?thesis
    proof (cases claim)
      case None
      with Inr s [of cfg] p assms(2) show ?thesis
        by (simp add: prompt_created_def Let_def prompt_moves_def prompt_over_def truthy_opt_def)
    next
      case (Some e)
      with Inr f [of e] show ?thesis by (simp add: prompt_created_def Let_def)
    qed
  qed
qed

text \<open>What a step of a gather puts out, and that it goes on unless it resolves.\<close>

lemma gather_outputs:
  assumes "gather_step cfg g e = (g', outs)"
  shows "outs = [] \<or> outs = [FirstDigit]
     \<or> (\<exists>d r. outs = [GatherReleased, GatherResolved d r] \<or> outs = [FirstDigit, GatherReleased, GatherResolved d r])"
  using assms
  by (cases e) (auto simp: onDtmf_def finish_gather_def armTimer_def Let_def split: if_splits option.splits)

lemma gather_goes_on:
  assumes "gather_step cfg g e = (g', outs)" and "\<not> ga_finished g" and "outs = [] \<or> outs = [FirstDigit]"
  shows "\<not> ga_finished g'"
  using assms
  by (cases e) (auto simp: onDtmf_def finish_gather_def armTimer_def onTimeoutReset_def Let_def split: if_splits option.splits)

lemma stop_moves:
  assumes "prompt_sound p" and "pg_phase p = PromptGathering cfg g"
  shows "prompt_moves p (stopPlayback p)" and "pg_phase (fst (stopPlayback p)) = PromptGathering cfg g"
  using assms by (auto simp: stopPlayback_def prompt_moves_def prompt_sound_def prompt_over_def playing_def)

lemma resolved_moves:
  assumes "prompt_sound p" and "pg_phase p = PromptGathering cfg g"
  shows "prompt_moves p (prompt_gathered params [GatherReleased, GatherResolved d r] p)"
  using finally_moves [OF assms(1), of "Inr (d, r)"] assms(2)
  by (simp add: case_prod_beta prompt_moves_def)

lemma first_moves:
  assumes "prompt_sound p" and "pg_phase p = PromptGathering cfg g"
    and "\<And>q. prompt_sound q \<Longrightarrow> pg_phase q = PromptGathering cfg g \<Longrightarrow> prompt_moves q (prompt_gathered params outs q)"
  shows "prompt_moves p (prompt_gathered params (FirstDigit # outs) p)"
proof -
  define r where "r = (if pg_stopPlaybackOnDigit params = Some False then (p, []) else stopPlayback p)"
  have "prompt_moves p r" "pg_phase (fst r) = PromptGathering cfg g"
    using stop_moves [OF assms(1,2)] assms(1,2) by (auto simp: r_def prompt_moves_def)
  moreover from this have "prompt_moves (fst r) (prompt_gathered params outs (fst r))"
    by (intro assms(3)) (auto simp: prompt_moves_def)
  ultimately have "prompt_moves p (fst (prompt_gathered params outs (fst r)), snd r @ snd (prompt_gathered params outs (fst r)))"
    by (intro moves_trans [of p "fst r" "snd r"]) simp_all
  then show ?thesis by (simp add: case_prod_beta flip: r_def)
qed

lemma gathered_moves:
  assumes "prompt_sound p" and "pg_phase p = PromptGathering cfg g" and "gather_step cfg g e = (g', outs)"
  shows "prompt_moves p (prompt_gathered params outs (p\<lparr>pg_phase := PromptGathering cfg g'\<rparr>))"
proof -
  let ?p = "p\<lparr>pg_phase := PromptGathering cfg g'\<rparr>"
  have s: "prompt_sound ?p" using assms(1,2) by (simp add: prompt_sound_def)
  have none: "prompt_moves q (prompt_gathered params [] q)" if "prompt_sound q" for q
    using that by (simp add: prompt_moves_def)
  have "prompt_moves ?p (prompt_gathered params outs ?p)"
    using gather_outputs [OF assms(3)]
  proof (elim disjE exE)
    assume "outs = []" then show ?thesis using none [OF s] by simp
  next
    assume "outs = [FirstDigit]" then show ?thesis using first_moves [OF s, of cfg g' params "[]"] none by simp
  next
    fix d r assume "outs = [GatherReleased, GatherResolved d r]"
    then show ?thesis using resolved_moves [OF s, of cfg g' params d r] by simp
  next
    fix d r assume o: "outs = [FirstDigit, GatherReleased, GatherResolved d r]"
    show ?thesis unfolding o by (rule first_moves [OF s, of cfg g']) (simp_all add: resolved_moves del: prompt_gathered.simps)
  qed
  then show ?thesis using assms(2) by (simp add: prompt_moves_def prompt_over_def)
qed

lemma stay_moves: "prompt_sound p \<Longrightarrow> prompt_moves p (p, [])"
  by (simp add: prompt_moves_def)

lemma step_moves:
  assumes s: "prompt_sound p"
  shows "prompt_moves p (prompt_step params p e)"
proof (cases e)
  case (PromptCreated reply claim)
  show ?thesis
  proof (cases "pg_phase p = PromptCreating")
    case True
    then have "pg_phase p \<noteq> PromptOver" by simp
    from finally_moves [OF s this] created_moves [OF s True] True PromptCreated show ?thesis by (cases reply) simp_all
  qed (use PromptCreated stay_moves [OF s] in simp)
next
  case (PromptGather x)
  show ?thesis
  proof (cases "pg_phase p")
    case (PromptGathering cfg g)
    obtain g' outs where "gather_step cfg g x = (g', outs)" by fastforce
    with gathered_moves [OF s PromptGathering this] PromptGathering PromptGather show ?thesis by simp
  qed (use PromptGather stay_moves [OF s] in simp_all)
next
  case PromptRemoved
  show ?thesis
  proof (cases "pg_phase p")
    case (PromptStopping r)
    with s have "prompt_moves p (p\<lparr>pg_phase := PromptOver\<rparr>, [conclude r p])"
      by (cases r) (auto simp: prompt_moves_def prompt_sound_def prompt_over_def conclude_def playing_def)
    with PromptRemoved PromptStopping show ?thesis by simp
  qed (use PromptRemoved stay_moves [OF s] in simp_all)
qed

text \<open>Three things that happen at most once: the removal, the addition and the end.\<close>

interpretation removal: single_shot "prompt_step params" prompt_sound "\<lambda>p. of_bool (pg_stopped p)" removals "\<lambda>_. False" for params
  by unfold_locales (use step_moves in \<open>auto simp: prompt_moves_def\<close>)

interpretation addition: single_shot "prompt_step params" prompt_sound "\<lambda>p. of_bool (truthy_opt (pg_endpoint p))" additions "\<lambda>_. False" for params
  by unfold_locales (use step_moves in \<open>auto simp: prompt_moves_def\<close>)

interpretation prompt_end: single_shot "prompt_step params" prompt_sound "\<lambda>p. of_bool (prompt_over p)" endings "\<lambda>_. False" for params
  by unfold_locales (use step_moves in \<open>auto simp: prompt_moves_def\<close>)

lemma start_prompt_sound: "prompt_sound start_prompt"
  by (simp add: prompt_sound_def start_prompt_def)

lemmas prompt_books =
  removal.counted [OF start_prompt_sound, simplified] addition.counted [OF start_prompt_sound, simplified]
  prompt_end.counted [OF start_prompt_sound, simplified]

subsection \<open>A way out\<close>

definition prompt_alive :: "prompt \<Rightarrow> bool" where
  "prompt_alive p \<longleftrightarrow> (case pg_phase p of PromptGathering _ g \<Rightarrow> \<not> ga_finished g | _ \<Rightarrow> True)"

lemma stop_phase [simp]: "pg_phase (fst (stopPlayback p)) = pg_phase p"
  by (simp add: stopPlayback_def)

lemma finally_alive [simp]: "prompt_alive (fst (prompt_finally r p))"
  by (simp add: prompt_finally_def prompt_alive_def case_prod_beta)

lemma step_alive:
  assumes "prompt_alive p"
  shows "prompt_alive (fst (prompt_step params p e))"
proof (cases e)
  case (PromptCreated reply claim)
  have "prompt_alive (fst (prompt_created params ep claim p))" for ep
    by (simp add: prompt_created_def Let_def case_prod_beta prompt_alive_def start_gather_def split: sum.split option.split)
      (metis finally_alive prompt_alive_def)
  with PromptCreated assms show ?thesis by (simp split: sum.split)
next
  case (PromptGather x)
  show ?thesis
  proof (cases "pg_phase p")
    case (PromptGathering cfg g)
    obtain g' outs where o: "gather_step cfg g x = (g', outs)" by fastforce
    have on: "outs = [] \<or> outs = [FirstDigit] \<Longrightarrow> \<not> ga_finished g'"
      using gather_goes_on [OF o] assms PromptGathering by (simp add: prompt_alive_def)
    show ?thesis
      using gather_outputs [OF o] on PromptGathering PromptGather o
      by (auto simp: case_prod_beta prompt_alive_def [of "p\<lparr>pg_phase := a\<rparr>" for a] prompt_alive_def [of "fst (stopPlayback q)" for q])
  qed (use PromptGather assms in simp_all)
next
  case PromptRemoved
  with assms show ?thesis by (cases "pg_phase p") (simp_all add: prompt_alive_def)
qed

lemma run_alive: "prompt_alive (fst (prompt_run params es))"
proof (induction es rule: rev_induct)
  case (snoc e es)
  then show ?case by (simp add: steps_append case_prod_beta step_alive)
qed (simp add: start_prompt_def prompt_alive_def)

definition way_out :: "prompt_event list" where
  "way_out = [PromptCreated (Inl ThrownValue) None, PromptGather GatherCancel, PromptRemoved]"

definition ending :: "prompt \<Rightarrow> bool" where
  "ending p \<longleftrightarrow> (case pg_phase p of PromptStopping _ \<Rightarrow> True | PromptOver \<Rightarrow> True | _ \<Rightarrow> False)"

lemma finally_ending [simp]: "ending (fst (prompt_finally r p))"
  by (simp add: prompt_finally_def ending_def case_prod_beta)

lemma ending_steps:
  "ending p \<Longrightarrow> ending (fst (prompt_step params p (PromptGather x)))"
  "ending p \<Longrightarrow> prompt_over (fst (prompt_step params p PromptRemoved))"
  by (cases "pg_phase p"; simp add: ending_def prompt_over_def)+

lemma way_out_ends:
  assumes "prompt_alive p"
  shows "prompt_over (fst (steps (prompt_step params) p way_out))"
proof -
  define q where "q = fst (prompt_step params p (PromptCreated (Inl ThrownValue) None))"
  have "ending (fst (prompt_step params q (PromptGather GatherCancel)))"
  proof (cases "pg_phase p")
    case PromptCreating
    then have "ending q" by (simp add: q_def)
    then show ?thesis by (rule ending_steps)
  next
    case (PromptGathering cfg g)
    with assms have "q = p" "\<not> ga_finished g" by (simp_all add: q_def prompt_alive_def)
    with PromptGathering show ?thesis by (simp add: finish_gather_def case_prod_beta)
  qed (simp_all add: q_def ending_def)
  from ending_steps(2) [OF this, of params] show ?thesis
    by (simp add: way_out_def case_prod_beta del: prompt_step.simps flip: q_def)
qed

text \<open>
  C40. Whatever rtpbridge, the caller and the timers do, a prompt that was played is taken down again: its
  removal is started at most once and, when \<open>playAndGather\<close> returns or throws, exactly as often as a
  prompt was added; it returns or throws at most once; and from every reachable state the failure or the
  cancellation of what is under way makes it end.
\<close>

theorem prompt_removed_once:
  "let outs = snd (prompt_run params es) in
   removals outs \<le> additions outs \<and> additions outs \<le> 1 \<and> endings outs \<le> 1
   \<and> (endings outs = 0 \<or> removals outs = additions outs)
   \<and> endings (snd (prompt_run params (es @ way_out))) = 1"
proof -
  have books: "prompt_sound (fst (prompt_run params fs))" "of_bool (pg_stopped (fst (prompt_run params fs))) = removals (snd (prompt_run params fs))"
      "of_bool (truthy_opt (pg_endpoint (fst (prompt_run params fs)))) = additions (snd (prompt_run params fs))"
      "of_bool (prompt_over (fst (prompt_run params fs))) = endings (snd (prompt_run params fs))" for fs
    using removal.run_shot_inv [OF start_prompt_sound] prompt_books by (simp_all add: start_prompt_def prompt_over_def truthy_opt_def)
  have over: "prompt_over (fst (prompt_run params (es @ way_out)))"
    using way_out_ends [OF run_alive] by (simp add: steps_append case_prod_beta)
  let ?p = "fst (prompt_run params es)"
  note b = books [of es]
  have "pg_stopped ?p \<Longrightarrow> truthy_opt (pg_endpoint ?p)" "prompt_over ?p \<Longrightarrow> pg_stopped ?p \<or> \<not> truthy_opt (pg_endpoint ?p)"
    using b(1) by (auto simp: prompt_sound_def prompt_over_def playing_def)
  then show ?thesis
    using over unfolding Let_def b(2-4) [symmetric] books(4) [of "es @ way_out", symmetric]
    by (auto simp: of_bool_def)
qed

end
