(* ===== verification/GatewayConfig.thy ===== *)
theory GatewayConfig
  imports MediaServers
begin

text \<open>
  The configuration (\<open>src/config.ts\<close>): reading and checking the environment. \<open>env\<close> is the environment,
  \<open>num\<close> is \<open>Number\<close> on a string, \<open>url\<close> is \<open>new URL(s).toString()\<close> when that does not throw, \<open>json\<close> is
  \<open>JSON.parse\<close> when that does not throw and \<open>is_ip\<close> is \<open>isIP\<close>.
\<close>

datatype auth_mode = Bearer | NoAuth

datatype config_error =
  ConfigError string
| ConfigJsonSyntax
| ConfigRouting routing_error

record gateway_config =
  DRACHTIO_HOST :: string
  DRACHTIO_PORT :: int
  DRACHTIO_SECRET :: "string option"
  DRACHTIO_APP_TAG :: "string option"
  DRACHTIO_ROUTE_FALLBACK_URL :: "string option"
  HTTP_PORT :: int
  SHUTDOWN_MAX_WAIT_MS :: int
  SHUTDOWN_CLEANUP_TIMEOUT_MS :: int
  CONTROL_WS_PATH :: string
  CONTROL_AUTH_MODE :: auth_mode
  CONTROL_AUTH_TOKEN :: "string option"
  CONTROL_MAX_PAYLOAD_BYTES :: int
  CONTROL_REQUEST_TIMEOUT_MS :: int
  RTPBRIDGE_HOST :: "string option"
  RTPBRIDGE_PORT :: int
  RTPBRIDGE_SRV_PORT_NAME :: string
  RTPBRIDGE_REQUEST_TIMEOUT_MS :: int
  RTPBRIDGE_CONNECTION_TIMEOUT_MS :: int
  RTPBRIDGE_TLS :: bool
  RTPBRIDGE_AUTH_HMAC_SECRET_FILE :: "string option"
  RTPBRIDGE_TLS_CA_FILE :: "string option"
  RTPBRIDGE_TLS_SERVERNAME :: "string option"
  RTPBRIDGE_ENDPOINTS_FILE :: "string option"
  RTPBRIDGE_ENDPOINTS_ALLOW_PLAINTEXT :: bool
  RTPBRIDGE_REQUIRED :: bool
  ROUTES_REQUIRED :: bool
  SIP_ALLOWED_DOMAINS :: "string list option"
  COTURN_URLS :: "string list option"
  COTURN_AUTH_SECRET :: "string option"
  COTURN_CREDENTIAL_TTL_SECONDS :: int
  RECORDINGS_PATH :: string
  RECORDING_PATH_PREFIX :: "string option"
  INVITE_HTTP_TIMEOUT_MS :: int
  EVENT_HTTP_TIMEOUT_MS :: int
  ROUTES :: "route_config list"

section \<open>Readers\<close>

definition prefix_char :: "char \<Rightarrow> bool" where
  "prefix_char c \<longleftrightarrow> is_alnum c \<or> c \<in> set ''._-''"

text \<open>The pattern asks for a letter or a digit at the start, so that \<open>.\<close> and \<open>..\<close> never match it.\<close>

definition readRecordingPathPrefix :: "string option \<Rightarrow> (config_error, string option) result" where
  "readRecordingPathPrefix v =
     (case present v of
        None \<Rightarrow> Inr None
      | Some s \<Rightarrow>
          rbind (guard (is_alnum (hd s) \<and> length (tl s) \<le> 63 \<and> list_all prefix_char (tl s) \<and> s \<noteq> ''.'' \<and> s \<noteq> ''..'')
            (ConfigError ''RECORDING_PATH_PREFIX must be a simple filename prefix'')) (\<lambda>_. Inr (Some s)))"

definition tag_char :: "char \<Rightarrow> bool" where
  "tag_char c \<longleftrightarrow> is_alnum c \<or> c \<in> set ''-_+@:''"

definition readDrachtioAppTag :: "string option \<Rightarrow> (config_error, string option) result" where
  "readDrachtioAppTag v =
     (case v of
        None \<Rightarrow> Inr None
      | Some s \<Rightarrow>
          if js_trim s = [] then Inr None
          else rbind (guard (length (js_trim s) \<le> 32 \<and> list_all tag_char (js_trim s))
            (ConfigError ''DRACHTIO_APP_TAG must be at most 32 characters and contain only letters, numbers, -, _, +, @, or :''))
              (\<lambda>_. Inr (Some (js_trim s))))"

definition readOptionalUrl :: "(string \<Rightarrow> string option) \<Rightarrow> string option \<Rightarrow> string \<Rightarrow> (config_error, string option) result" where
  "readOptionalUrl url v name =
     (case v of
        None \<Rightarrow> Inr None
      | Some s \<Rightarrow>
          if js_trim s = [] then Inr None
          else rbind (require (ConfigError (name @ '' must be a valid URL'')) (url s)) (\<lambda>u. Inr (Some u)))"

definition readPositiveInteger :: "(string \<Rightarrow> jnum) \<Rightarrow> string option \<Rightarrow> int \<Rightarrow> string \<Rightarrow> (config_error, int) result" where
  "readPositiveInteger num v fallback name =
     (case present v of
        None \<Rightarrow> Inr fallback
      | Some s \<Rightarrow>
          (case int_of (JNum (num s)) of
             None \<Rightarrow> Inl (ConfigError (name @ '' must be a positive integer''))
           | Some n \<Rightarrow> if n \<le> 0 then Inl (ConfigError (name @ '' must be a positive integer'')) else Inr n))"

definition readBoolean :: "string option \<Rightarrow> bool \<Rightarrow> string \<Rightarrow> (config_error, bool) result" where
  "readBoolean v fallback name =
     (case present v of
        None \<Rightarrow> Inr fallback
      | Some s \<Rightarrow>
          if s = ''true'' then Inr True
          else if s = ''false'' then Inr False
          else Inl (ConfigError (name @ '' must be true or false'')))"

definition readControlAuthMode :: "(string \<Rightarrow> string option) \<Rightarrow> (config_error, auth_mode) result" where
  "readControlAuthMode env =
     (case present (env ''CONTROL_AUTH_MODE'') of
        Some m \<Rightarrow>
          if m \<noteq> ''bearer'' \<and> m \<noteq> ''none'' then Inl (ConfigError ''CONTROL_AUTH_MODE must be bearer or none'')
          else if m = ''bearer'' \<and> present (env ''CONTROL_AUTH_TOKEN'') = None
          then Inl (ConfigError ''CONTROL_AUTH_TOKEN is required when CONTROL_AUTH_MODE=bearer'')
          else Inr (if m = ''bearer'' then Bearer else NoAuth)
      | None \<Rightarrow>
          if present (env ''CONTROL_AUTH_TOKEN'') \<noteq> None then Inr Bearer
          else if env ''APP_ENV'' = Some ''production'' \<or> env ''NODE_ENV'' = Some ''production''
          then Inl (ConfigError ''CONTROL_AUTH_TOKEN is required in production unless CONTROL_AUTH_MODE=none is set explicitly'')
          else Inr NoAuth)"

definition or_default :: "string option \<Rightarrow> string \<Rightarrow> string" where
  "or_default v d = (case present v of Some s \<Rightarrow> s | None \<Rightarrow> d)"

definition read_ice_urls :: "(string \<Rightarrow> jv option) \<Rightarrow> (string \<Rightarrow> nat) \<Rightarrow> string option \<Rightarrow> (config_error, string list option) result" where
  "read_ice_urls json is_ip v =
     (case present v of
        None \<Rightarrow> Inr None
      | Some s \<Rightarrow>
          (case json s of
             None \<Rightarrow> Inl ConfigJsonSyntax
           | Some j \<Rightarrow> (case parseIceUrls is_ip j of Inl m \<Rightarrow> Inl (ConfigError m) | Inr us \<Rightarrow> Inr (Some us))))"

definition of_routing :: "(routing_error, 'a) result \<Rightarrow> (config_error, 'a) result" where
  "of_routing r = (case r of Inl e \<Rightarrow> Inl (ConfigRouting e) | Inr a \<Rightarrow> Inr a)"

section \<open>The configuration\<close>

definition loadConfig ::
  "(string \<Rightarrow> jnum) \<Rightarrow> (string \<Rightarrow> string option) \<Rightarrow> (string \<Rightarrow> jv option) \<Rightarrow> (string \<Rightarrow> nat) \<Rightarrow> (string \<Rightarrow> bool) \<Rightarrow>
    (string \<Rightarrow> string option) \<Rightarrow> (config_error, gateway_config) result" where
  "loadConfig num url json is_ip valid_url env =
     rbind (readControlAuthMode env) (\<lambda>mode.
     rbind (readBoolean (env ''RTPBRIDGE_REQUIRED'') False ''RTPBRIDGE_REQUIRED'') (\<lambda>mediaRequired.
     rbind (guard (\<not> (mediaRequired \<and> present (env ''RTPBRIDGE_HOST'') = None \<and> present (env ''RTPBRIDGE_ENDPOINTS_FILE'') = None))
       (ConfigError ''Required media needs RTPBRIDGE_HOST or RTPBRIDGE_ENDPOINTS_FILE'')) (\<lambda>_.
     rbind (read_ice_urls json is_ip (env ''COTURN_URLS_JSON'')) (\<lambda>ice.
     rbind (guard (\<not> (list_ex (\<lambda>u. starts_with u ''turn'') (case ice of Some us \<Rightarrow> us | None \<Rightarrow> [])
         \<and> present (env ''COTURN_AUTH_SECRET'') = None))
       (ConfigError ''TURN URLs require COTURN_AUTH_SECRET'')) (\<lambda>_.
     rbind (readPositiveInteger num (env ''DRACHTIO_PORT'') 9022 ''DRACHTIO_PORT'') (\<lambda>drachtioPort.
     rbind (readDrachtioAppTag (env ''DRACHTIO_APP_TAG'')) (\<lambda>tag.
     rbind (readOptionalUrl url (env ''DRACHTIO_ROUTE_FALLBACK_URL'') ''DRACHTIO_ROUTE_FALLBACK_URL'') (\<lambda>fallback.
     rbind (readPositiveInteger num (env ''HTTP_PORT'') 3001 ''HTTP_PORT'') (\<lambda>httpPort.
     rbind (readPositiveInteger num (env ''SHUTDOWN_MAX_WAIT_MS'') 1800000 ''SHUTDOWN_MAX_WAIT_MS'') (\<lambda>maxWait.
     rbind (readPositiveInteger num (env ''SHUTDOWN_CLEANUP_TIMEOUT_MS'') 5000 ''SHUTDOWN_CLEANUP_TIMEOUT_MS'') (\<lambda>cleanup.
     rbind (readPositiveInteger num (env ''CONTROL_MAX_PAYLOAD_BYTES'') 1048576 ''CONTROL_MAX_PAYLOAD_BYTES'') (\<lambda>maxPayload.
     rbind (readPositiveInteger num (env ''CONTROL_REQUEST_TIMEOUT_MS'') 15000 ''CONTROL_REQUEST_TIMEOUT_MS'') (\<lambda>requestTimeout.
     rbind (readPositiveInteger num (env ''RTPBRIDGE_PORT'') 9100 ''RTPBRIDGE_PORT'') (\<lambda>rtpPort.
     rbind (readPositiveInteger num (env ''RTPBRIDGE_REQUEST_TIMEOUT_MS'') 10000 ''RTPBRIDGE_REQUEST_TIMEOUT_MS'') (\<lambda>rtpTimeout.
     rbind (readPositiveInteger num (env ''RTPBRIDGE_CONNECTION_TIMEOUT_MS'') 5000 ''RTPBRIDGE_CONNECTION_TIMEOUT_MS'') (\<lambda>rtpConnect.
     rbind (readBoolean (env ''RTPBRIDGE_TLS'') False ''RTPBRIDGE_TLS'') (\<lambda>tls.
     rbind (readBoolean (env ''RTPBRIDGE_ENDPOINTS_ALLOW_PLAINTEXT'') False ''RTPBRIDGE_ENDPOINTS_ALLOW_PLAINTEXT'') (\<lambda>plaintext.
     rbind (readBoolean (env ''ROUTES_REQUIRED'') False ''ROUTES_REQUIRED'') (\<lambda>routesRequired.
     rbind (of_routing (parseAllowedSipDomains json (env ''SIP_ALLOWED_DOMAINS_JSON''))) (\<lambda>domains.
     rbind (readPositiveInteger num (env ''COTURN_CREDENTIAL_TTL_SECONDS'') 86400 ''COTURN_CREDENTIAL_TTL_SECONDS'') (\<lambda>ttl.
     rbind (readRecordingPathPrefix (env ''RECORDING_PATH_PREFIX'')) (\<lambda>prefix.
     rbind (readPositiveInteger num (env ''INVITE_HTTP_TIMEOUT_MS'') 15000 ''INVITE_HTTP_TIMEOUT_MS'') (\<lambda>inviteTimeout.
     rbind (readPositiveInteger num (env ''EVENT_HTTP_TIMEOUT_MS'') 15000 ''EVENT_HTTP_TIMEOUT_MS'') (\<lambda>eventTimeout.
     rbind (of_routing (parseRoutesJson json valid_url (env ''ROUTES_JSON''))) (\<lambda>routes.
     Inr \<lparr>DRACHTIO_HOST = or_default (env ''DRACHTIO_HOST'') ''127.0.0.1'',
       DRACHTIO_PORT = drachtioPort,
       DRACHTIO_SECRET = present (env ''DRACHTIO_SECRET''),
       DRACHTIO_APP_TAG = tag,
       DRACHTIO_ROUTE_FALLBACK_URL = fallback,
       HTTP_PORT = httpPort,
       SHUTDOWN_MAX_WAIT_MS = maxWait,
       SHUTDOWN_CLEANUP_TIMEOUT_MS = cleanup,
       CONTROL_WS_PATH = or_default (env ''CONTROL_WS_PATH'') ''/control'',
       CONTROL_AUTH_MODE = mode,
       CONTROL_AUTH_TOKEN = present (env ''CONTROL_AUTH_TOKEN''),
       CONTROL_MAX_PAYLOAD_BYTES = maxPayload,
       CONTROL_REQUEST_TIMEOUT_MS = requestTimeout,
       RTPBRIDGE_HOST = present (env ''RTPBRIDGE_HOST''),
       RTPBRIDGE_PORT = rtpPort,
       RTPBRIDGE_SRV_PORT_NAME = or_default (env ''RTPBRIDGE_SRV_PORT_NAME'') ''ws'',
       RTPBRIDGE_REQUEST_TIMEOUT_MS = rtpTimeout,
       RTPBRIDGE_CONNECTION_TIMEOUT_MS = rtpConnect,
       RTPBRIDGE_TLS = tls,
       RTPBRIDGE_AUTH_HMAC_SECRET_FILE = present (env ''RTPBRIDGE_AUTH_HMAC_SECRET_FILE''),
       RTPBRIDGE_TLS_CA_FILE = present (env ''RTPBRIDGE_TLS_CA_FILE''),
       RTPBRIDGE_TLS_SERVERNAME = present (env ''RTPBRIDGE_TLS_SERVERNAME''),
       RTPBRIDGE_ENDPOINTS_FILE = present (env ''RTPBRIDGE_ENDPOINTS_FILE''),
       RTPBRIDGE_ENDPOINTS_ALLOW_PLAINTEXT = plaintext,
       RTPBRIDGE_REQUIRED = mediaRequired,
       ROUTES_REQUIRED = routesRequired,
       SIP_ALLOWED_DOMAINS = domains,
       COTURN_URLS = ice,
       COTURN_AUTH_SECRET = present (env ''COTURN_AUTH_SECRET''),
       COTURN_CREDENTIAL_TTL_SECONDS = ttl,
       RECORDINGS_PATH = or_default (env ''RECORDINGS_PATH'') ''/var/lib/rtpbridge/recordings'',
       RECORDING_PATH_PREFIX = prefix,
       INVITE_HTTP_TIMEOUT_MS = inviteTimeout,
       EVENT_HTTP_TIMEOUT_MS = eventTimeout,
       ROUTES = routes\<rparr>)))))))))))))))))))))))))"

section \<open>What an accepted configuration guarantees\<close>

lemma readPositiveInteger_pos: "readPositiveInteger num v d name = Inr n \<Longrightarrow> 0 < d \<Longrightarrow> 0 < n"
  by (auto simp: readPositiveInteger_def split: option.splits if_splits)

lemma readDrachtioAppTag_ok:
  "readDrachtioAppTag v = Inr (Some t) \<Longrightarrow> t \<noteq> [] \<and> length t \<le> 32 \<and> list_all tag_char t"
  by (auto simp: readDrachtioAppTag_def rbind_eq_Inr split: option.splits if_splits)

lemma present_Some: "present v = Some s \<longleftrightarrow> v = Some s \<and> s \<noteq> []"
  by (auto simp: present_def split: option.splits)

lemma alnum_plain: "is_alnum c \<Longrightarrow> c \<noteq> CHR ''/'' \<and> c \<noteq> CHR ''.''"
  by (auto simp: is_alnum_def is_upper_def is_lower_def is_digit_def code_def)

lemma readRecordingPathPrefix_ok:
  assumes "readRecordingPathPrefix v = Inr (Some s)"
  shows "s \<noteq> [] \<and> length s \<le> 64 \<and> CHR ''/'' \<notin> set s \<and> hd s \<noteq> CHR ''.''"
proof -
  have s: "s \<noteq> []" "is_alnum (hd s)" "length (tl s) \<le> 63" "list_all prefix_char (tl s)"
    using assms by (auto simp: readRecordingPathPrefix_def present_Some rbind_eq_Inr split: option.splits)
  have "\<not> prefix_char (CHR ''/'')"
    using alnum_plain [of "CHR ''/''"] by (auto simp: prefix_char_def)
  then have "CHR ''/'' \<notin> set (tl s)" using s(4) by (auto simp: list_all_iff)
  with s(1,2,3) alnum_plain [of "hd s"] show ?thesis by (cases s) auto
qed

lemma read_ice_urls_ok:
  "read_ice_urls json is_ip v = Inr (Some us) \<Longrightarrow> 1 \<le> length us \<and> length us \<le> 32 \<and> list_all (valid_ice_url is_ip) us"
  by (auto simp: read_ice_urls_def split: option.splits sum.splits dest: parseIceUrls_ok)

lemma domains_ok: "parseAllowedSipDomains json v = Inr (Some ds) \<Longrightarrow> 1 \<le> length ds \<and> length ds \<le> 128"
proof -
  assume "parseAllowedSipDomains json v = Inr (Some ds)"
  then obtain xs ys where xs: "xs \<noteq> []" "length xs \<le> 128" and ys: "rmap parse_domain xs = Inr ys" and ds: "ds = dedup ys"
    by (auto simp: parseAllowedSipDomains_def rbind_eq_Inr split: option.splits jv.splits if_splits)
  have len: "length ys = length xs" using ys by (rule rmap_Inr_length)
  have "length ds = card (set ys)" using ds by (metis distinct_card distinct_dedup set_dedup)
  with len xs show ?thesis
    by (metis One_nat_def Suc_leI card_gt_0_iff card_length finite_set le_trans length_0_conv set_empty2)
qed

definition numbers_of :: "gateway_config \<Rightarrow> int list" where
  "numbers_of c = [DRACHTIO_PORT c, HTTP_PORT c, SHUTDOWN_MAX_WAIT_MS c, SHUTDOWN_CLEANUP_TIMEOUT_MS c, CONTROL_MAX_PAYLOAD_BYTES c,
     CONTROL_REQUEST_TIMEOUT_MS c, RTPBRIDGE_PORT c, RTPBRIDGE_REQUEST_TIMEOUT_MS c, RTPBRIDGE_CONNECTION_TIMEOUT_MS c,
     COTURN_CREDENTIAL_TTL_SECONDS c, INVITE_HTTP_TIMEOUT_MS c, EVENT_HTTP_TIMEOUT_MS c]"

lemma rbind_InrE: "rbind r f = Inr b \<Longrightarrow> (\<And>a. r = Inr a \<Longrightarrow> f a = Inr b \<Longrightarrow> P) \<Longrightarrow> P"
  by (cases r) auto

lemma Inr_InjE: "Inr a = Inr b \<Longrightarrow> (b = a \<Longrightarrow> P) \<Longrightarrow> P"
  by simp

lemma of_routing_Inr: "of_routing r = Inr a \<longleftrightarrow> r = Inr a"
  by (simp add: of_routing_def split: sum.split)

lemma loadConfig_numbers:
  assumes "loadConfig num url json is_ip valid_url env = Inr c"
  shows "list_all (\<lambda>n. 0 < n) (numbers_of c)"
  using assms unfolding loadConfig_def
  by (elim rbind_InrE Inr_InjE) (simp add: numbers_of_def readPositiveInteger_pos)

lemma guard_InrE: "guard b e = Inr u \<Longrightarrow> (b \<Longrightarrow> P) \<Longrightarrow> P"
  by simp

lemma loadConfig_fields:
  assumes "loadConfig num url json is_ip valid_url env = Inr c"
  shows "readDrachtioAppTag (env ''DRACHTIO_APP_TAG'') = Inr (DRACHTIO_APP_TAG c)"
    and "readRecordingPathPrefix (env ''RECORDING_PATH_PREFIX'') = Inr (RECORDING_PATH_PREFIX c)"
    and "parseAllowedSipDomains json (env ''SIP_ALLOWED_DOMAINS_JSON'') = Inr (SIP_ALLOWED_DOMAINS c)"
    and "read_ice_urls json is_ip (env ''COTURN_URLS_JSON'') = Inr (COTURN_URLS c)"
    and "readControlAuthMode env = Inr (CONTROL_AUTH_MODE c)"
    and "CONTROL_AUTH_TOKEN c = present (env ''CONTROL_AUTH_TOKEN'')"
    and "COTURN_AUTH_SECRET c = present (env ''COTURN_AUTH_SECRET'')"
    and "RTPBRIDGE_HOST c = present (env ''RTPBRIDGE_HOST'')"
    and "RTPBRIDGE_ENDPOINTS_FILE c = present (env ''RTPBRIDGE_ENDPOINTS_FILE'')"
    and "\<not> (RTPBRIDGE_REQUIRED c \<and> RTPBRIDGE_HOST c = None \<and> RTPBRIDGE_ENDPOINTS_FILE c = None)"
    and "\<not> (list_ex (\<lambda>u. starts_with u ''turn'') (case COTURN_URLS c of Some us \<Rightarrow> us | None \<Rightarrow> []) \<and> COTURN_AUTH_SECRET c = None)"
  using assms unfolding loadConfig_def
  by (elim rbind_InrE Inr_InjE guard_InrE, simp only: of_routing_Inr gateway_config.simps)+

text \<open>
  C34. An accepted configuration keeps the documented bounds: every port, limit and timeout is at least
  one, the application tag has at most 32 characters, the recording prefix is a file name of at most
  64 characters that neither contains a slash nor starts with a dot, at most 128 SIP domains and 32 ICE
  URLs are configured, and a configured list is never empty.
\<close>

theorem config_bounds:
  assumes "loadConfig num url json is_ip valid_url env = Inr c"
  shows "list_all (\<lambda>n. 1 \<le> n) (numbers_of c)
    \<and> (case DRACHTIO_APP_TAG c of None \<Rightarrow> True | Some t \<Rightarrow> 1 \<le> length t \<and> length t \<le> 32 \<and> list_all tag_char t)
    \<and> (case RECORDING_PATH_PREFIX c of None \<Rightarrow> True
       | Some p \<Rightarrow> 1 \<le> length p \<and> length p \<le> 64 \<and> CHR ''/'' \<notin> set p \<and> hd p \<noteq> CHR ''.'')
    \<and> (case SIP_ALLOWED_DOMAINS c of None \<Rightarrow> True | Some ds \<Rightarrow> 1 \<le> length ds \<and> length ds \<le> 128)
    \<and> (case COTURN_URLS c of None \<Rightarrow> True
       | Some us \<Rightarrow> 1 \<le> length us \<and> length us \<le> 32 \<and> list_all (valid_ice_url is_ip) us)"
proof -
  note f = loadConfig_fields [OF assms]
  have "list_all (\<lambda>n. 1 \<le> n) (numbers_of c)"
    using loadConfig_numbers [OF assms] by (simp add: list_all_iff int_one_le_iff_zero_less)
  moreover have "1 \<le> length t \<and> length t \<le> 32 \<and> list_all tag_char t" if "DRACHTIO_APP_TAG c = Some t" for t
    using readDrachtioAppTag_ok [of _ t] f(1) that by (simp add: Suc_le_eq)
  moreover have "1 \<le> length p \<and> length p \<le> 64 \<and> CHR ''/'' \<notin> set p \<and> hd p \<noteq> CHR ''.''"
    if "RECORDING_PATH_PREFIX c = Some p" for p
    using readRecordingPathPrefix_ok [of _ p] f(2) that by (simp add: Suc_le_eq)
  moreover have "1 \<le> length ds \<and> length ds \<le> 128" if "SIP_ALLOWED_DOMAINS c = Some ds" for ds
    using domains_ok [of _ _ ds] f(3) that by simp
  moreover have "1 \<le> length us \<and> length us \<le> 32 \<and> list_all (valid_ice_url is_ip) us" if "COTURN_URLS c = Some us" for us
    using read_ice_urls_ok [of _ _ _ us] f(4) that by simp
  ultimately show ?thesis by (auto split: option.splits)
qed

definition sample_env :: "string \<Rightarrow> string option" where
  "sample_env = map_of [(''HTTP_PORT'', ''8''), (''CONTROL_AUTH_TOKEN'', ''t''), (''RECORDING_PATH_PREFIX'', ''eu-1''),
     (''RTPBRIDGE_REQUIRED'', ''true''), (''RTPBRIDGE_HOST'', ''rtp'')]"

definition sample_load :: "(config_error, gateway_config) result" where
  "sample_load = loadConfig (\<lambda>_. Fin 8) Some (\<lambda>_. None) (\<lambda>s. 4) (\<lambda>_. True) sample_env"

definition sample_config :: gateway_config where
  "sample_config = (case sample_load of Inr c \<Rightarrow> c | Inl _ \<Rightarrow> undefined)"

lemma sample_loaded:
  "loadConfig (\<lambda>_. Fin 8) Some (\<lambda>_. None) (\<lambda>s. 4) (\<lambda>_. True) sample_env = Inr sample_config"
proof -
  have "case sample_load of Inl _ \<Rightarrow> False | Inr _ \<Rightarrow> True" by code_simp
  then show ?thesis by (auto simp: sample_config_def sample_load_def split: sum.splits)
qed

theorem config_bounds_witness:
  "HTTP_PORT sample_config = 8 \<and> list_all (\<lambda>n. 1 \<le> n) (numbers_of sample_config)
   \<and> RECORDING_PATH_PREFIX sample_config = Some ''eu-1''"
proof -
  have "HTTP_PORT sample_config = 8" "RECORDING_PATH_PREFIX sample_config = Some ''eu-1''" by code_simp+
  with config_bounds [OF sample_loaded] show ?thesis by simp
qed

lemma auth_mode_ok:
  assumes "readControlAuthMode env = Inr m"
  shows "(m = Bearer \<longrightarrow> present (env ''CONTROL_AUTH_TOKEN'') \<noteq> None)
    \<and> (m = NoAuth \<longrightarrow> env ''CONTROL_AUTH_MODE'' = Some ''none''
         \<or> (present (env ''CONTROL_AUTH_TOKEN'') = None \<and> env ''APP_ENV'' \<noteq> Some ''production'' \<and> env ''NODE_ENV'' \<noteq> Some ''production''))"
  using assms unfolding readControlAuthMode_def
  by (cases "present (env ''CONTROL_AUTH_MODE'')") (auto simp: present_Some split: if_splits)



end
