(* ===== verification/SipMessages.thy ===== *)
theory SipMessages
  imports GatewayConfig CallRegistry ControlHub HttpContract
begin

text \<open>
  What the SIP gateway reads from SIP requests and what it sends to the applications
  (\<open>src/drachtio-gateway.ts\<close>): the request an INVITE is turned into, follow-up events, the status of an
  error, where an event goes and what is written to the log; and the webhook client
  (\<open>src/http-client.ts\<close>).
\<close>

section \<open>Requests\<close>

text \<open>
  A request of drachtio-srf. \<open>rq_get name\<close> is what \<open>req.get(name)\<close> returns, \<open>None\<close> when it throws. The
  headers the gateway reads by name are strings where they are present.
\<close>

record sip_request =
  rq_uri :: "string option"
  rq_callId :: "string option"
  rq_get :: "string \<Rightarrow> jv option"
  rq_headers :: "(string \<times> jv) list"
  rq_from :: "string option"
  rq_to :: "string option"
  rq_body :: "string option"
  rq_sdp :: "string option"

text \<open>\<open>a || b\<close>\<close>

definition or_jv :: "jv \<Rightarrow> jv \<Rightarrow> jv" where
  "or_jv a b = (if truthy a then a else b)"

definition or_text :: "string option \<Rightarrow> string option \<Rightarrow> string option" where
  "or_text a b = (case present a of Some s \<Rightarrow> Some s | None \<Rightarrow> b)"

definition readHeader :: "sip_request \<Rightarrow> string \<Rightarrow> jv" where
  "readHeader req name =
     (let direct = fld (JObj (rq_headers req)) (map to_lower name)
      in case rq_get req name of None \<Rightarrow> direct | Some v \<Rightarrow> or_jv v direct)"

fun readHeaders :: "(string \<times> jv) list \<Rightarrow> sip_headers" where
  "readHeaders [] = []"
| "readHeaders ((k, v) # hs) =
     (case v of JStr s \<Rightarrow> if k = ''__proto__'' then readHeaders hs else (k, s) # readHeaders hs | _ \<Rightarrow> readHeaders hs)"

record invite_request =
  in_callId :: string
  in_sipCallId :: string
  in_destinationUri :: string
  in_destinationUser :: "string option"
  in_sourceUri :: "string option"
  in_from :: jv
  in_to :: jv
  in_contact :: jv
  in_headers :: sip_headers
  in_sdp :: "string option"
  in_receivedAt :: string

definition buildInviteRequest :: "sip_request \<Rightarrow> string \<Rightarrow> string \<Rightarrow> string \<Rightarrow> string option \<Rightarrow> string \<Rightarrow> invite_request" where
  "buildInviteRequest req callId sipCallId uri user now =
     (let from' = or_jv (readHeader req ''from'') (opt_str (rq_from req));
          to' = or_jv (readHeader req ''to'') (opt_str (rq_to req))
      in \<lparr>in_callId = callId, in_sipCallId = sipCallId, in_destinationUri = uri, in_destinationUser = user,
          in_sourceUri = (if truthy from' then Some (stripSipUri (str_of from')) else None),
          in_from = from', in_to = to', in_contact = readHeader req ''contact'',
          in_headers = readHeaders (rq_headers req), in_sdp = or_text (rq_body req) (rq_sdp req), in_receivedAt = now\<rparr>)"

definition invite_jv :: "invite_request \<Rightarrow> jv" where
  "invite_jv r = JObj [(''event'', JStr ''invite''), (''callId'', JStr (in_callId r)), (''sipCallId'', JStr (in_sipCallId r)),
     (''destinationUri'', JStr (in_destinationUri r)), (''destinationUser'', opt_str (in_destinationUser r)),
     (''sourceUri'', opt_str (in_sourceUri r)), (''from'', in_from r), (''to'', in_to r), (''contact'', in_contact r),
     (''headers'', headers_jv (Some (in_headers r))), (''sdp'', opt_str (in_sdp r)), (''receivedAt'', JStr (in_receivedAt r))]"

definition getSourceUri :: "sip_headers option \<Rightarrow> string option" where
  "getSourceUri headers =
     (case present (case headers of None \<Rightarrow> None | Some hs \<Rightarrow> merge_opt (oget hs ''From'') (oget hs ''from'')) of
        None \<Rightarrow> None
      | Some f \<Rightarrow> Some (stripSipUri (Some f)))"

definition call_id_of :: "sip_request \<Rightarrow> string" where
  "call_id_of req =
     (case present (rq_callId req) of
        Some s \<Rightarrow> s
      | None \<Rightarrow> (case str_of (readHeader req ''call-id'') of Some s \<Rightarrow> s | None \<Rightarrow> []))"

section \<open>Follow-up events\<close>

record follow_up =
  fu_event :: string
  fu_callId :: string
  fu_sipCallId :: string
  fu_sdp :: "string option"
  fu_status :: "int option"
  fu_reason :: "string option"
  fu_headers :: "sip_headers option"
  fu_receivedAt :: string

definition follow_jv :: "follow_up \<Rightarrow> jv" where
  "follow_jv e = JObj [(''event'', JStr (fu_event e)), (''callId'', JStr (fu_callId e)), (''sipCallId'', JStr (fu_sipCallId e)),
     (''sdp'', opt_str (fu_sdp e)), (''status'', opt_int (fu_status e)), (''reason'', opt_str (fu_reason e)),
     (''headers'', headers_jv (fu_headers e)), (''receivedAt'', JStr (fu_receivedAt e))]"

definition answered_event :: "active_call \<Rightarrow> string \<Rightarrow> int option \<Rightarrow> sip_headers option \<Rightarrow> string \<Rightarrow> follow_up" where
  "answered_event c sdp status headers now =
     \<lparr>fu_event = ''answered'', fu_callId = ac_callId c, fu_sipCallId = ac_sipCallId c, fu_sdp = Some sdp,
      fu_status = Some (case status of None \<Rightarrow> 200 | Some s \<Rightarrow> s), fu_reason = None, fu_headers = headers, fu_receivedAt = now\<rparr>"

definition end_event :: "string \<Rightarrow> string \<Rightarrow> string \<Rightarrow> string option \<Rightarrow> sip_headers option \<Rightarrow> string \<Rightarrow> follow_up" where
  "end_event kind callId sipCallId reason headers now =
     \<lparr>fu_event = kind, fu_callId = callId, fu_sipCallId = sipCallId, fu_sdp = None, fu_status = None, fu_reason = reason,
      fu_headers = headers, fu_receivedAt = now\<rparr>"

section \<open>Errors\<close>

text \<open>
  \<open>SipPost code status\<close> is an \<open>HttpPostError\<close>, \<open>SipControl\<close> another error of the hub, \<open>SipAction\<close> an action
  that could not be read and \<open>SipOther\<close> any other exception with its message.
\<close>

datatype sip_error =
  SipDraining
| SipPost "string option" "int option"
| SipAction action_error
| SipControl hub_error
| SipOther string
| CallNotFound string
| InvalidCallState string

definition sipStatusForError :: "sip_error \<Rightarrow> int" where
  "sipStatusForError e = (case e of SipDraining \<Rightarrow> 503 | SipPost c _ \<Rightarrow> if c = Some ''ECONNABORTED'' then 504 else 502 | _ \<Rightarrow> 502)"

definition invite_failure_reason :: "int \<Rightarrow> string" where
  "invite_failure_reason status =
     (if status = 503 then ''Service Unavailable'' else if status = 504 then ''Gateway Timeout'' else ''Bad Gateway'')"

definition control_failure :: "hub_error \<Rightarrow> sip_error" where
  "control_failure e = (case e of ControlConnectionUnavailable _ \<Rightarrow> SipPost (Some ''ECONNABORTED'') None | _ \<Rightarrow> SipControl e)"

subsection \<open>The webhook client\<close>

text \<open>What \<open>axios.post\<close> comes back with: a response, an error of its own, or another exception.\<close>

datatype axios_outcome = AxiosResponse int jv | AxiosError "string option" "int option" | AxiosThrew string

text \<open>A response whose status \<open>validateStatus\<close> refuses is an error with that status.\<close>

definition postJson :: "axios_outcome \<Rightarrow> (sip_error, jv) result" where
  "postJson out =
     (case out of
        AxiosResponse status data \<Rightarrow>
          if 200 \<le> status \<and> status < 300 then Inr data
          else Inl (SipPost (Some (if status < 500 then ''ERR_BAD_REQUEST'' else ''ERR_BAD_RESPONSE'')) (Some status))
      | AxiosError c status \<Rightarrow> Inl (SipPost c status)
      | AxiosThrew m \<Rightarrow> Inl (SipOther m))"

text \<open>The answer of an application, whichever way it was asked.\<close>

datatype asked_outcome = ControlAnswer "(hub_error, jv) result" | HttpAnswer axios_outcome

definition asked_value :: "asked_outcome \<Rightarrow> (sip_error, jv) result" where
  "asked_value a =
     (case a of
        ControlAnswer (Inl e) \<Rightarrow> Inl (control_failure e)
      | ControlAnswer (Inr v) \<Rightarrow> Inr v
      | HttpAnswer out \<Rightarrow> postJson out)"

definition read_action :: "(string \<Rightarrow> bool) \<Rightarrow> bool \<Rightarrow> asked_outcome \<Rightarrow> (sip_error, sip_action) result" where
  "read_action valid_url allow a =
     rbind (asked_value a) (\<lambda>v. case parseSipActionResponse valid_url allow v of Inl e \<Rightarrow> Inl (SipAction e) | Inr x \<Rightarrow> Inr x)"

section \<open>Where an event goes\<close>

definition isControlUrl :: "string \<Rightarrow> bool" where
  "isControlUrl url = starts_with url ''control://''"

definition controlUrl :: "string \<Rightarrow> string" where
  "controlUrl connectionId = ''control://'' @ connectionId"

datatype delivery = ToControl string event_to_send | ToHttp string jv int | NotDelivered

definition live_connection :: "hub \<Rightarrow> string option \<Rightarrow> string option" where
  "live_connection h c = (case present c of None \<Rightarrow> None | Some i \<Rightarrow> if isConnected i h then Some i else None)"

definition deliverFollowUpEvent :: "gateway_config \<Rightarrow> hub \<Rightarrow> active_call \<Rightarrow> follow_up \<Rightarrow> delivery" where
  "deliverFollowUpEvent cfg h call e =
     (case live_connection h (ac_controlConnectionId call) of
        Some i \<Rightarrow> ToControl i \<lparr>es_event = ''sip.'' @ fu_event e, es_session = Some (ac_callId call), es_data = follow_jv e\<rparr>
      | None \<Rightarrow>
          if isControlUrl (ac_receiverUrl call) then NotDelivered
          else ToHttp (ac_receiverUrl call) (follow_jv e) (EVENT_HTTP_TIMEOUT_MS cfg))"

text \<open>An event that expects an action is a request: to the connection, to the webhook, or an error at once.\<close>

datatype question = AskControl string string jv int | AskHttp string jv int

definition askReceiver :: "gateway_config \<Rightarrow> hub \<Rightarrow> active_call \<Rightarrow> follow_up \<Rightarrow> (sip_error, question) result" where
  "askReceiver cfg h call e =
     (case live_connection h (ac_controlConnectionId call) of
        Some i \<Rightarrow> Inr (AskControl i (''sip.'' @ fu_event e) (follow_jv e) (EVENT_HTTP_TIMEOUT_MS cfg))
      | None \<Rightarrow>
          if isControlUrl (ac_receiverUrl call) then Inl (SipPost (Some ''ECONNABORTED'') None)
          else Inr (AskHttp (ac_receiverUrl call) (follow_jv e) (EVENT_HTTP_TIMEOUT_MS cfg)))"

definition deliverFailedInviteEvent :: "gateway_config \<Rightarrow> hub \<Rightarrow> string option \<Rightarrow> string \<Rightarrow> follow_up \<Rightarrow> delivery" where
  "deliverFailedInviteEvent cfg h connectionId receiverUrl e =
     (case live_connection h connectionId of
        Some i \<Rightarrow> ToControl i \<lparr>es_event = ''sip.terminated'', es_session = Some (fu_callId e), es_data = follow_jv e\<rparr>
      | None \<Rightarrow> if isControlUrl receiverUrl then NotDelivered else ToHttp receiverUrl (follow_jv e) (EVENT_HTTP_TIMEOUT_MS cfg))"

section \<open>Log contexts\<close>

text \<open>\<open>s.slice(-4)\<close>\<close>

definition last4 :: "string \<Rightarrow> string" where
  "last4 s = drop (length s - 4) s"

text \<open>\<open>/;transport=([^;?]+)/i.exec(s)?.[1]\<close>\<close>

fun transport_of :: "string \<Rightarrow> string option" where
  "transport_of [] = None"
| "transport_of (c # cs) =
     (let value = takeWhile (\<lambda>d. d \<noteq> CHR '';'' \<and> d \<noteq> CHR ''?'') (drop 11 (c # cs))
      in if map to_lower (take 11 (c # cs)) = '';transport='' \<and> value \<noteq> [] then Some value else transport_of cs)"

definition after_last_at :: "string \<Rightarrow> string option" where
  "after_last_at s = (if CHR ''@'' \<in> set s then Some (rev (takeWhile (\<lambda>c. c \<noteq> CHR ''@'') (rev s))) else None)"

record outbound_log =
  ol_destinationHost :: "string option"
  ol_destinationUserSuffix :: "string option"
  ol_transport :: "string option"
  ol_authConfigured :: bool
  ol_controlConnectionId :: "string option"

definition outboundSipLogContext :: "outbound_params \<Rightarrow> outbound_log" where
  "outboundSipLogContext p =
     (let uri = stripSipUri (Some (op_requestUri p))
      in \<lparr>ol_destinationHost = after_last_at (without_scheme uri),
          ol_destinationUserSuffix = map_option last4 (getSipUser (Some uri)),
          ol_transport = transport_of (op_requestUri p),
          ol_authConfigured = (op_auth p \<noteq> None),
          ol_controlConnectionId = op_controlConnectionId p\<rparr>)"

record call_log =
  cl_callId :: string
  cl_sipCallId :: string
  cl_controlConnectionId :: "string option"
  cl_createdAt :: string
  cl_destinationUserSuffix :: "string option"
  cl_sourceUserSuffix :: "string option"
  cl_hasLocalSdp :: bool
  cl_hasRemoteSdp :: bool

definition sipCallLogContext :: "active_call \<Rightarrow> call_log" where
  "sipCallLogContext c =
     \<lparr>cl_callId = ac_callId c, cl_sipCallId = ac_sipCallId c, cl_controlConnectionId = ac_controlConnectionId c,
      cl_createdAt = ac_createdAt c, cl_destinationUserSuffix = map_option last4 (ac_destinationUser c),
      cl_sourceUserSuffix = (case present (ac_sourceUri c) of None \<Rightarrow> None | Some s \<Rightarrow> map_option last4 (getSipUser (Some s))),
      cl_hasLocalSdp = (present (ac_localSdp c) \<noteq> None), cl_hasRemoteSdp = (present (ac_remoteSdp c) \<noteq> None)\<rparr>"

end
