(* ===== verification/Gateway.thy ===== *)
theory Gateway
  imports SipMessages
begin

text \<open>
  The SIP gateway (\<open>src/drachtio-gateway.ts\<close>): INVITEs that are routed to an application and answered,
  outbound calls, their cancellation, BYE, re-INVITE in both directions, the end of a control connection
  and the shutdown, as one state machine. Each \<open>async\<close> function is a step up to its first \<open>await\<close> and one
  step for every continuation; what is in flight is kept in the state. drachtio-srf is the environment:
  its callbacks are events and what the gateway asks of it are outputs. A step that looks at the control
  hub gets the hub of that moment.
\<close>

section \<open>State\<close>

text \<open>
  An INVITE is being asked about, being answered (with the action and the receiver of its events), or its
  dialog is being destroyed after a failure. \<open>iv_final\<close> is \<open>res.finalResponseSent\<close>.
\<close>

datatype invite_phase =
  Asking
| Answering string "int option" "sip_headers option" string
| Undoing sip_error string
| Finished

record invite =
  iv_callId :: string
  iv_sipCallId :: string
  iv_connection :: "string option"
  iv_url :: string
  iv_request :: invite_request
  iv_phase :: invite_phase
  iv_final :: bool

datatype attempt_phase = Dialing | Dropping | Over

record attempt =
  at_params :: outbound_params
  at_id :: string
  at_receiverUrl :: string
  at_cancelRequested :: bool
  at_request :: "nat option"
  at_phase :: attempt_phase

text \<open>The other operations that wait for drachtio or for an application.\<close>

datatype task =
  ByeTask string "string option" sip_headers
| EndTask active_call
| CancelTask
| ReinviteTask string string
| ModifyTask string "string option"
| Settled

record gateway =
  gw_registry :: registry
  gw_invites :: "invite list"
  gw_pendingInbound :: "(string, nat) omap"
  gw_attempts :: "attempt list"
  gw_pendingOutbound :: "(string, nat) omap"
  gw_tasks :: "task list"
  gw_dialogs :: "(nat \<times> string) list"
  gw_connected :: bool
  gw_draining :: bool
  gw_stopping :: bool
  gw_closing :: "(nat list \<times> nat list) option"

definition new_gateway :: gateway where
  "new_gateway = \<lparr>gw_registry = empty_registry, gw_invites = [], gw_pendingInbound = [], gw_attempts = [],
     gw_pendingOutbound = [], gw_tasks = [], gw_dialogs = [], gw_connected = False, gw_draining = False,
     gw_stopping = False, gw_closing = None\<rparr>"

datatype dialog_use = UndoInvite nat | DropAttempt nat | ForTask nat

datatype reply = ReplyOk | ReplySdp "string option" | ReplyFailed sip_error

datatype gw_output =
  Respond nat int string "sip_headers option"
| AskInvite nat question
| CreateUas nat string "sip_headers option"
| Deliver delivery follow_up
| DeliverFailed delivery follow_up
| CreateUac nat outbound_params
| CancelRequest nat nat
| DestroyDialog dialog_use nat sip_headers
| ModifyDialog nat nat string "sip_headers option"
| AskModify nat question
| ModifyResponse nat int string "string option" "sip_headers option"
| OutboundReply nat "(sip_error, string \<times> string \<times> string option) result"
| TaskReply nat reply
| Disconnect

definition retry_after :: "sip_headers option" where
  "retry_after = Some [(''Retry-After'', ''1'')]"

definition set_invite :: "nat \<Rightarrow> (invite \<Rightarrow> invite) \<Rightarrow> gateway \<Rightarrow> gateway" where
  "set_invite k f g = g\<lparr>gw_invites := (gw_invites g)[k := f (gw_invites g ! k)]\<rparr>"

definition set_attempt :: "nat \<Rightarrow> (attempt \<Rightarrow> attempt) \<Rightarrow> gateway \<Rightarrow> gateway" where
  "set_attempt k f g = g\<lparr>gw_attempts := (gw_attempts g)[k := f (gw_attempts g ! k)]\<rparr>"

definition with_registry :: "(registry \<Rightarrow> registry) \<Rightarrow> gateway \<Rightarrow> gateway" where
  "with_registry f g = g\<lparr>gw_registry := f (gw_registry g)\<rparr>"

definition new_task :: "task \<Rightarrow> gateway \<Rightarrow> gateway \<times> nat" where
  "new_task t g = (g\<lparr>gw_tasks := gw_tasks g @ [t]\<rparr>, length (gw_tasks g))"

definition settle :: "nat \<Rightarrow> gateway \<Rightarrow> gateway" where
  "settle t g = g\<lparr>gw_tasks := (gw_tasks g)[t := Settled]\<rparr>"

section \<open>INVITE\<close>

definition finish_invite :: "nat \<Rightarrow> gateway \<Rightarrow> gateway" where
  "finish_invite k g =
     (set_invite k (\<lambda>i. i\<lparr>iv_phase := Finished\<rparr>) g)
       \<lparr>gw_pendingInbound := odel (iv_callId (gw_invites g ! k)) (gw_pendingInbound g)\<rparr>"

text \<open>
  \<open>handleInvite\<close> and the first part of \<open>handleAdmittedInvite\<close>. An INVITE that is refused at once is kept as a
  finished one.
\<close>

definition refused_invite :: "sip_request \<Rightarrow> string \<Rightarrow> invite" where
  "refused_invite req now = \<lparr>iv_callId = [], iv_sipCallId = [], iv_connection = None, iv_url = [],
     iv_request = buildInviteRequest req [] [] [] None now, iv_phase = Finished, iv_final = True\<rparr>"

definition refuse :: "sip_request \<Rightarrow> string \<Rightarrow> int \<Rightarrow> string \<Rightarrow> sip_headers option \<Rightarrow> gateway \<Rightarrow> gateway \<times> gw_output list" where
  "refuse req now status reason headers g =
     (g\<lparr>gw_invites := gw_invites g @ [refused_invite req now]\<rparr>, [Respond (length (gw_invites g)) status reason headers])"

text \<open>Routes of the control connections come first; a route of the table has no connection.\<close>

definition invite_route :: "gateway_config \<Rightarrow> hub \<Rightarrow> invite_destination \<Rightarrow> (string option \<times> string) option" where
  "invite_route cfg h dest =
     (case findRoute dest h of
        Some (c, r) \<Rightarrow> Some (Some c, rc_url r)
      | None \<Rightarrow> (case matchRoute (ROUTES cfg) dest of Some r \<Rightarrow> Some (None, rc_url r) | None \<Rightarrow> None))"

definition ask_invite :: "gateway_config \<Rightarrow> string option \<Rightarrow> string \<Rightarrow> invite_request \<Rightarrow> question" where
  "ask_invite cfg connection url body =
     (case connection of
        Some c \<Rightarrow> AskControl c ''sip.invite'' (invite_jv body) (INVITE_HTTP_TIMEOUT_MS cfg)
      | None \<Rightarrow> AskHttp url (invite_jv body) (INVITE_HTTP_TIMEOUT_MS cfg))"

definition start_invite ::
  "gateway_config \<Rightarrow> registry \<Rightarrow> string option \<Rightarrow> string \<Rightarrow> invite_request \<Rightarrow> gateway \<Rightarrow> gateway \<times> gw_output list" where
  "start_invite cfg reg connection url body g =
     (let k = length (gw_invites g); callId = in_callId body;
          iv = \<lparr>iv_callId = callId, iv_sipCallId = in_sipCallId body, iv_connection = connection, iv_url = url,
                iv_request = body, iv_phase = Asking, iv_final = False\<rparr>
      in (g\<lparr>gw_registry := reg, gw_invites := gw_invites g @ [iv],
             gw_pendingInbound := oset callId k (gw_pendingInbound g)\<rparr>,
          [AskInvite k (ask_invite cfg connection url body)]))"

definition handleAdmittedInvite ::
  "gateway_config \<Rightarrow> hub \<Rightarrow> sip_request \<Rightarrow> string \<Rightarrow> string \<Rightarrow> gateway \<Rightarrow> gateway \<times> gw_output list" where
  "handleAdmittedInvite cfg h req uuid now g =
     (let uri = stripSipUri (rq_uri req);
          user = getSipUser (Some uri);
          sipCallId = call_id_of req
      in if \<not> acceptsSipHost uri (SIP_ALLOWED_DOMAINS cfg) then refuse req now 404 ''No Route'' None g
         else
           (case invite_route cfg h \<lparr>destinationUri = uri, destinationUser = user\<rparr> of
              None \<Rightarrow> refuse req now 404 ''No Route'' None g
            | Some (connection, url) \<Rightarrow>
                (case reserveCallId (gw_registry g) uuid sipCallId of
                   None \<Rightarrow> (g, [])
                 | Some (reg, callId) \<Rightarrow>
                     start_invite cfg reg connection url (buildInviteRequest req callId sipCallId uri user now) g)))"

definition handleInvite ::
  "gateway_config \<Rightarrow> hub \<Rightarrow> sip_request \<Rightarrow> string \<Rightarrow> string \<Rightarrow> gateway \<Rightarrow> gateway \<times> gw_output list" where
  "handleInvite cfg h req uuid now g =
     (if gw_draining g then refuse req now 503 ''Service Unavailable'' retry_after g
      else handleAdmittedInvite cfg h req uuid now g)"

subsection \<open>Failure\<close>

text \<open>The rest of the \<open>catch\<close> block, after the dialog, if there is one, is gone; and \<open>finally\<close>.\<close>

definition fail_rest ::
  "gateway_config \<Rightarrow> hub \<Rightarrow> nat \<Rightarrow> sip_error \<Rightarrow> string \<Rightarrow> string \<Rightarrow> gateway \<Rightarrow> gateway \<times> gw_output list" where
  "fail_rest cfg h k err accepted now g =
     (let iv = gw_invites g ! k;
          e = end_event ''terminated'' (iv_callId iv) (iv_sipCallId iv) (Some ''answer-failed'') None now;
          status = sipStatusForError err
      in (finish_invite k (set_invite k (\<lambda>i. i\<lparr>iv_final := True\<rparr>) g),
          (if accepted = [] then [] else [DeliverFailed (deliverFailedInviteEvent cfg h (iv_connection iv) accepted e) e])
          @ (if iv_final iv then [] else [Respond k status (invite_failure_reason status) None])))"

definition fail_invite ::
  "gateway_config \<Rightarrow> hub \<Rightarrow> nat \<Rightarrow> sip_error \<Rightarrow> string \<Rightarrow> nat option \<Rightarrow> string \<Rightarrow> gateway \<Rightarrow> gateway \<times> gw_output list" where
  "fail_invite cfg h k err accepted dialog now g =
     (let callId = iv_callId (gw_invites g ! k);
          g1 = with_registry (\<lambda>r. releaseReservation (fst (remove_call r callId)) callId) g
      in case dialog of
           Some d \<Rightarrow> (set_invite k (\<lambda>i. i\<lparr>iv_phase := Undoing err accepted\<rparr>) g1, [DestroyDialog (UndoInvite k) d []])
         | None \<Rightarrow> fail_rest cfg h k err accepted now g1)"

definition undo_done :: "gateway_config \<Rightarrow> hub \<Rightarrow> nat \<Rightarrow> string \<Rightarrow> gateway \<Rightarrow> gateway \<times> gw_output list" where
  "undo_done cfg h k now g =
     (case iv_phase (gw_invites g ! k) of
        Undoing err accepted \<Rightarrow> fail_rest cfg h k err accepted now g
      | _ \<Rightarrow> (g, []))"

subsection \<open>The action of the application\<close>

definition running :: "gateway \<Rightarrow> 'a \<Rightarrow> (sip_error, 'a) result" where
  "running g a = (if gw_stopping g then Inl SipDraining else Inr a)"

definition invite_answered ::
  "gateway_config \<Rightarrow> (string \<Rightarrow> bool) \<Rightarrow> hub \<Rightarrow> nat \<Rightarrow> asked_outcome \<Rightarrow> string \<Rightarrow> gateway \<Rightarrow> gateway \<times> gw_output list" where
  "invite_answered cfg valid_url h k outcome now g =
     (let iv = gw_invites g ! k
      in if iv_phase iv \<noteq> Asking then (g, [])
         else
           (case rbind (read_action valid_url (iv_connection iv = None) outcome) (running g) of
              Inl e \<Rightarrow> fail_invite cfg h k e [] None now g
            | Inr (RejectAction status reason headers _) \<Rightarrow>
                (finish_invite k (set_invite k (\<lambda>i. i\<lparr>iv_final := True\<rparr>)
                   (with_registry (\<lambda>r. releaseReservation r (iv_callId iv)) g)),
                 [Respond k status (case reason of Some x \<Rightarrow> x | None \<Rightarrow> ''Rejected'') headers])
            | Inr (AnswerAction sdp status headers receiver) \<Rightarrow>
                (set_invite k (\<lambda>i. i\<lparr>iv_phase := Answering sdp status headers
                   (if iv_connection iv = None then (case receiver of Some u \<Rightarrow> u | None \<Rightarrow> iv_url iv) else iv_url iv)\<rparr>) g,
                 [CreateUas k sdp headers])))"

text \<open>
  \<open>createUAS\<close> sends the final response itself when it resolves; when it rejects, \<open>sent\<close> says whether one had
  gone out.
\<close>

datatype uas_outcome = UasAnswered nat | UasFailed bool string

definition inbound_call :: "invite \<Rightarrow> nat \<Rightarrow> string \<Rightarrow> string \<Rightarrow> string \<Rightarrow> active_call" where
  "inbound_call iv d sdp receiver now =
     (let r = iv_request iv
      in \<lparr>ac_callId = iv_callId iv, ac_sipCallId = iv_sipCallId iv, ac_routeUrl = iv_url iv,
          ac_receiverUrl = receiver, ac_controlConnectionId = iv_connection iv,
          ac_destinationUri = in_destinationUri r, ac_destinationUser = in_destinationUser r,
          ac_sourceUri = in_sourceUri r, ac_localSdp = Some sdp, ac_remoteSdp = in_sdp r,
          ac_createdAt = now, ac_updatedAt = now, ac_dialog = d\<rparr>)"

lemma inbound_call_id [simp]:
  "ac_callId (inbound_call iv d sdp receiver now) = iv_callId iv"
  "ac_controlConnectionId (inbound_call iv d sdp receiver now) = iv_connection iv"
  by (simp_all add: inbound_call_def Let_def)

definition uas_settled ::
  "gateway_config \<Rightarrow> hub \<Rightarrow> nat \<Rightarrow> uas_outcome \<Rightarrow> string \<Rightarrow> gateway \<Rightarrow> gateway \<times> gw_output list" where
  "uas_settled cfg h k outcome now g =
     (let iv = gw_invites g ! k
      in case iv_phase iv of
           Answering sdp status headers receiver \<Rightarrow>
             (case outcome of
                UasFailed sent m \<Rightarrow>
                  fail_invite cfg h k (SipOther m) receiver None now (set_invite k (\<lambda>i. i\<lparr>iv_final := iv_final i \<or> sent\<rparr>) g)
              | UasAnswered d \<Rightarrow>
                  let g1 = set_invite k (\<lambda>i. i\<lparr>iv_final := True\<rparr>) g
                  in if gw_stopping g then fail_invite cfg h k SipDraining receiver (Some d) now g1
                     else
                       let call = inbound_call iv d sdp receiver now;
                           e = answered_event call sdp status headers now;
                           g2 = with_registry (\<lambda>reg. activate reg call) g1
                       in (finish_invite k (g2\<lparr>gw_dialogs := (d, iv_callId iv) # gw_dialogs g2\<rparr>),
                           [Deliver (deliverFollowUpEvent cfg h call e) e]))
         | _ \<Rightarrow> (g, []))"

section \<open>Outbound calls\<close>

definition finish_attempt :: "nat \<Rightarrow> gateway \<Rightarrow> gateway" where
  "finish_attempt k g =
     (let i = at_id (gw_attempts g ! k); g1 = set_attempt k (\<lambda>a. a\<lparr>at_phase := Over\<rparr>) g
      in if oget (gw_pendingOutbound g) i = Some k then g1\<lparr>gw_pendingOutbound := odel i (gw_pendingOutbound g)\<rparr> else g1)"

definition new_attempt :: "outbound_params \<Rightarrow> string \<Rightarrow> string \<Rightarrow> attempt_phase \<Rightarrow> attempt" where
  "new_attempt p i receiver phase = \<lparr>at_params = p, at_id = i, at_receiverUrl = receiver, at_cancelRequested = False,
     at_request = None, at_phase = phase\<rparr>"

text \<open>An attempt that fails before \<open>createUAC\<close> is kept as one that is over.\<close>

definition createOutbound :: "outbound_params \<Rightarrow> string \<Rightarrow> gateway \<Rightarrow> gateway \<times> gw_output list" where
  "createOutbound p uuid g =
     (let k = length (gw_attempts g);
          receiver = present (case present (op_controlConnectionId p) of Some c \<Rightarrow> Some (controlUrl c) | None \<Rightarrow> op_receiverUrl p);
          i = (case op_outboundAttemptId p of Some a \<Rightarrow> a | None \<Rightarrow> uuid);
          failed = (\<lambda>e. (g\<lparr>gw_attempts := gw_attempts g @ [new_attempt p i [] Over]\<rparr>, [OutboundReply k (Inl e)]))
      in if gw_draining g then failed SipDraining
         else (case receiver of
                 None \<Rightarrow> failed (InvalidCallState ''receiverUrl is required for outbound SIP calls without a control connection'')
               | Some url \<Rightarrow>
                   if ohas (gw_pendingOutbound g) i
                   then failed (InvalidCallState (''Outbound SIP attempt '' @ i @ '' already exists''))
                   else (g\<lparr>gw_attempts := gw_attempts g @ [new_attempt p i url Dialing],
                           gw_pendingOutbound := oset i k (gw_pendingOutbound g)\<rparr>,
                         [CreateUac k p])))"

text \<open>
  The arguments of \<open>cbRequest\<close>: an error or a request first, possibly a request second. The callback runs for
  every request drachtio sends for the attempt.
\<close>

datatype callback_arg = CbError | CbRequest nat | CbNull

fun sent_request :: "callback_arg \<Rightarrow> nat option \<Rightarrow> nat option" where
  "sent_request CbError second = None"
| "sent_request (CbRequest r) second = (case second of Some s \<Rightarrow> Some s | None \<Rightarrow> Some r)"
| "sent_request CbNull second = second"

definition request_sent :: "nat \<Rightarrow> callback_arg \<Rightarrow> nat option \<Rightarrow> gateway \<Rightarrow> gateway \<times> gw_output list" where
  "request_sent k first second g =
     (if k \<ge> length (gw_attempts g) then (g, [])
      else (case sent_request first second of
              None \<Rightarrow> (g, [])
            | Some r \<Rightarrow>
                (set_attempt k (\<lambda>a. a\<lparr>at_request := Some r\<rparr>) g,
                 if at_cancelRequested (gw_attempts g ! k) then [CancelRequest k r] else [])))"

datatype uac_outcome =
  UacAnswered nat string "string option" "string option"
| UacFailed string

definition outbound_call ::
  "attempt \<Rightarrow> nat \<Rightarrow> string \<Rightarrow> string \<Rightarrow> string option \<Rightarrow> string option \<Rightarrow> string \<Rightarrow> active_call" where
  "outbound_call a d callId sipCallId lsdp rsdp now =
     (let p = at_params a; uri = stripSipUri (Some (op_requestUri p))
      in \<lparr>ac_callId = callId, ac_sipCallId = sipCallId, ac_routeUrl = at_receiverUrl a,
          ac_receiverUrl = at_receiverUrl a, ac_controlConnectionId = op_controlConnectionId p,
          ac_destinationUri = uri, ac_destinationUser = getSipUser (Some uri),
          ac_sourceUri = getSourceUri (op_headers p),
          ac_localSdp = (case present lsdp of Some s \<Rightarrow> Some s | None \<Rightarrow> Some (op_sdp p)), ac_remoteSdp = rsdp,
          ac_createdAt = now, ac_updatedAt = now, ac_dialog = d\<rparr>)"

lemma outbound_call_id [simp]:
  "ac_callId (outbound_call a d callId sipCallId lsdp rsdp now) = callId"
  "ac_controlConnectionId (outbound_call a d callId sipCallId lsdp rsdp now) = op_controlConnectionId (at_params a)"
  by (simp_all add: outbound_call_def Let_def)

definition uac_settled :: "nat \<Rightarrow> uac_outcome \<Rightarrow> string \<Rightarrow> string \<Rightarrow> gateway \<Rightarrow> gateway \<times> gw_output list" where
  "uac_settled k outcome uuid now g =
     (let a = gw_attempts g ! k
      in if k \<ge> length (gw_attempts g) \<or> at_phase a \<noteq> Dialing then (g, [])
         else (case outcome of
           UacFailed m \<Rightarrow> (finish_attempt k g, [OutboundReply k (Inl (InvalidCallState m))])
         | UacAnswered d sipCallId lsdp rsdp \<Rightarrow>
             if at_cancelRequested a \<or> gw_stopping g
             then (set_attempt k (\<lambda>b. b\<lparr>at_phase := Dropping\<rparr>) g, [DestroyDialog (DropAttempt k) d []])
             else (case reserveCallId (gw_registry g) uuid sipCallId of
                None \<Rightarrow> (g, [])
              | Some (reg, callId) \<Rightarrow>
                  let call = outbound_call a d callId sipCallId lsdp rsdp now
                  in (finish_attempt k (g\<lparr>gw_registry := activate reg call, gw_dialogs := (d, callId) # gw_dialogs g\<rparr>),
                      [OutboundReply k (Inr (callId, sipCallId, rsdp))]))))"

text \<open>The dialog of a cancelled attempt is gone, or could not be destroyed; the attempt fails either way.\<close>

definition drop_done :: "nat \<Rightarrow> string option \<Rightarrow> gateway \<Rightarrow> gateway \<times> gw_output list" where
  "drop_done k failure g =
     (if k \<ge> length (gw_attempts g) \<or> at_phase (gw_attempts g ! k) \<noteq> Dropping then (g, [])
      else (finish_attempt k g,
            [OutboundReply k (Inl (InvalidCallState (case failure of Some m \<Rightarrow> m | None \<Rightarrow> ''Outbound SIP call was cancelled'')))]))"

text \<open>The result is \<open>{ ok: true }\<close>, once the CANCEL that is sent, if any, has been acknowledged or has failed.\<close>

definition cancelOutbound :: "string \<Rightarrow> string option \<Rightarrow> gateway \<Rightarrow> gateway \<times> gw_output list" where
  "cancelOutbound i connectionId g =
     (case oget (gw_pendingOutbound g) i of
        None \<Rightarrow> (case new_task Settled g of (g', t) \<Rightarrow>
          (g', [TaskReply t (ReplyFailed (CallNotFound (''Outbound SIP attempt '' @ i @ '' not found'')))]))
      | Some k \<Rightarrow>
          let a = gw_attempts g ! k
          in if op_controlConnectionId (at_params a) \<noteq> connectionId
             then (case new_task Settled g of (g', t) \<Rightarrow>
               (g', [TaskReply t (ReplyFailed (InvalidCallState ''Outbound SIP attempt belongs to another control connection''))]))
             else if at_cancelRequested a then (case new_task Settled g of (g', t) \<Rightarrow> (g', [TaskReply t ReplyOk]))
             else
               let g1 = set_attempt k (\<lambda>b. b\<lparr>at_cancelRequested := True\<rparr>) g
               in case at_request a of
                    None \<Rightarrow> (case new_task Settled g1 of (g', t) \<Rightarrow> (g', [TaskReply t ReplyOk]))
                  | Some r \<Rightarrow> (case new_task CancelTask g1 of (g', t) \<Rightarrow> (g', [CancelRequest k r])))"

section \<open>Calls\<close>

definition bye :: "string \<Rightarrow> string option \<Rightarrow> sip_headers option \<Rightarrow> gateway \<Rightarrow> gateway \<times> gw_output list" where
  "bye callId reason headers g =
     (case get_call (gw_registry g) callId of
        None \<Rightarrow> (case new_task Settled g of (g', t) \<Rightarrow>
          (g', [TaskReply t (ReplyFailed (CallNotFound (''Call '' @ callId @ '' not found'')))]))
      | Some call \<Rightarrow>
          let hs = (case headers of Some x \<Rightarrow> x | None \<Rightarrow> [])
          in case new_task (ByeTask callId reason hs) g of (g', t) \<Rightarrow> (g', [DestroyDialog (ForTask t) (ac_dialog call) hs]))"

definition reinvite :: "string \<Rightarrow> string \<Rightarrow> sip_headers option \<Rightarrow> gateway \<Rightarrow> gateway \<times> gw_output list" where
  "reinvite callId sdp headers g =
     (case get_call (gw_registry g) callId of
        None \<Rightarrow> (case new_task Settled g of (g', t) \<Rightarrow>
          (g', [TaskReply t (ReplyFailed (CallNotFound (''Call '' @ callId @ '' not found'')))]))
      | Some call \<Rightarrow> (case new_task (ReinviteTask callId sdp) g of (g', t) \<Rightarrow> (g', [ModifyDialog t (ac_dialog call) sdp headers])))"

text \<open>The call ends: it leaves the registry, and an event is sent when it was still there.\<close>

definition report_end ::
  "gateway_config \<Rightarrow> hub \<Rightarrow> string \<Rightarrow> string \<Rightarrow> string option \<Rightarrow> sip_headers option \<Rightarrow> string \<Rightarrow> gateway \<Rightarrow> gateway \<times> gw_output list" where
  "report_end cfg h callId kind reason headers now g =
     (case remove_call (gw_registry g) callId of
        (reg, None) \<Rightarrow> (g, [])
      | (reg, Some call) \<Rightarrow>
          let e = end_event kind callId (ac_sipCallId call) reason headers now
          in (g\<lparr>gw_registry := reg\<rparr>, [Deliver (deliverFollowUpEvent cfg h call e) e]))"

definition dialog_destroyed ::
  "gateway_config \<Rightarrow> hub \<Rightarrow> nat \<Rightarrow> (string \<times> (string \<times> jv) list) option \<Rightarrow> string \<Rightarrow> gateway \<Rightarrow> gateway \<times> gw_output list" where
  "dialog_destroyed cfg h d msg now g =
     (case oget (gw_dialogs g) d of
        None \<Rightarrow> (g, [])
      | Some callId \<Rightarrow>
          report_end cfg h callId (if map_option fst msg = Some ''BYE'' then ''bye'' else ''terminated'') None
            (map_option (\<lambda>m. readHeaders (snd m)) msg) now g)"

fun cancel_all :: "(string \<times> nat) list \<Rightarrow> gateway \<Rightarrow> gateway \<times> gw_output list" where
  "cancel_all [] g = (g, [])"
| "cancel_all ((i, k) # ps) g =
     (case cancelOutbound i (op_controlConnectionId (at_params (gw_attempts g ! k))) g of
        (g1, out) \<Rightarrow> (case cancel_all ps g1 of (g2, outs) \<Rightarrow> (g2, out @ outs)))"

fun remove_calls :: "string list \<Rightarrow> registry \<Rightarrow> registry \<times> active_call list" where
  "remove_calls [] r = (r, [])"
| "remove_calls (c # cs) r =
     (case remove_call r c of
        (r1, found) \<Rightarrow> (case remove_calls cs r1 of (r2, rest) \<Rightarrow> (r2, (case found of Some x \<Rightarrow> x # rest | None \<Rightarrow> rest))))"

fun end_all :: "active_call list \<Rightarrow> gateway \<Rightarrow> gateway \<times> gw_output list" where
  "end_all [] g = (g, [])"
| "end_all (c # cs) g =
     (case new_task (EndTask c) g of
        (g1, t) \<Rightarrow> (case end_all cs g1 of (g2, outs) \<Rightarrow> (g2, DestroyDialog (ForTask t) (ac_dialog c) [] # outs)))"

definition terminateCallsForControlConnection :: "string \<Rightarrow> gateway \<Rightarrow> gateway \<times> gw_output list" where
  "terminateCallsForControlConnection c g =
     (let mine = filter (\<lambda>(i, k). op_controlConnectionId (at_params (gw_attempts g ! k)) = Some c) (gw_pendingOutbound g)
      in case cancel_all mine g of (g1, outs) \<Rightarrow>
         (case remove_calls (map ac_callId (filter (\<lambda>x. ac_controlConnectionId x = Some c) (map snd (calls (gw_registry g1)))))
                 (gw_registry g1) of
            (reg, removed) \<Rightarrow> (case end_all removed (g1\<lparr>gw_registry := reg\<rparr>) of (g2, outs') \<Rightarrow> (g2, outs @ outs'))))"

subsection \<open>Continuations\<close>

text \<open>\<open>dialog.destroy\<close> calls back, with an error or without.\<close>

definition task_destroyed ::
  "gateway_config \<Rightarrow> hub \<Rightarrow> nat \<Rightarrow> string option \<Rightarrow> string \<Rightarrow> gateway \<Rightarrow> gateway \<times> gw_output list" where
  "task_destroyed cfg h t failure now g =
     (if t \<ge> length (gw_tasks g) then (g, [])
      else (case gw_tasks g ! t of
        ByeTask callId reason headers \<Rightarrow>
          (case failure of
             Some m \<Rightarrow> (settle t g, [TaskReply t (ReplyFailed (InvalidCallState m))])
           | None \<Rightarrow> (case report_end cfg h callId ''terminated'' reason (Some headers) now (settle t g) of
                       (g', outs) \<Rightarrow> (g', outs @ [TaskReply t ReplyOk])))
      | EndTask call \<Rightarrow>
          (case failure of
             Some _ \<Rightarrow> (settle t g, [])
           | None \<Rightarrow>
               let e = end_event ''terminated'' (ac_callId call) (ac_sipCallId call) (Some ''control-disconnected'') (Some []) now
               in (settle t g, [Deliver (deliverFollowUpEvent cfg h call e) e]))
      | _ \<Rightarrow> (g, [])))"

text \<open>The callback of a CANCEL; a failure is logged.\<close>

definition cancel_settled :: "nat \<Rightarrow> gateway \<Rightarrow> gateway \<times> gw_output list" where
  "cancel_settled t g =
     (if t < length (gw_tasks g) \<and> gw_tasks g ! t = CancelTask then (settle t g, [TaskReply t ReplyOk]) else (g, []))"

definition reinvite_settled :: "nat \<Rightarrow> (string, string) result \<Rightarrow> string \<Rightarrow> gateway \<Rightarrow> gateway \<times> gw_output list" where
  "reinvite_settled t outcome now g =
     (if t \<ge> length (gw_tasks g) then (g, [])
      else (case gw_tasks g ! t of
        ReinviteTask callId sdp \<Rightarrow>
          (case outcome of
             Inl m \<Rightarrow> (settle t g, [TaskReply t (ReplyFailed (InvalidCallState m))])
           | Inr remote \<Rightarrow>
               (settle t (with_registry (\<lambda>r. fst (updateSdp r callId (Some sdp) (Some remote) now)) g),
                [TaskReply t (ReplySdp (Some remote))]))
      | _ \<Rightarrow> (g, [])))"

text \<open>A re-INVITE of the other side, on the dialog of a call.\<close>

definition handleRemoteModify ::
  "gateway_config \<Rightarrow> hub \<Rightarrow> nat \<Rightarrow> sip_request \<Rightarrow> string \<Rightarrow> gateway \<Rightarrow> gateway \<times> gw_output list" where
  "handleRemoteModify cfg h d req now g =
     (case oget (gw_dialogs g) d of
        None \<Rightarrow> (g, [])
      | Some callId \<Rightarrow>
          (case get_call (gw_registry g) callId of
             None \<Rightarrow> (case new_task Settled g of (g', t) \<Rightarrow> (g', [ModifyResponse t 481 ''Call Does Not Exist'' None None]))
           | Some call \<Rightarrow>
               let sdp = or_text (rq_body req) (rq_sdp req);
                   e = \<lparr>fu_event = ''reinvite'', fu_callId = callId, fu_sipCallId = ac_sipCallId call, fu_sdp = sdp,
                        fu_status = None, fu_reason = None, fu_headers = Some (readHeaders (rq_headers req)), fu_receivedAt = now\<rparr>
               in case askReceiver cfg h call e of
                    Inl err \<Rightarrow> (case new_task Settled g of (g', t) \<Rightarrow>
                      (g', [ModifyResponse t (sipStatusForError err) ''Bad Gateway'' None None]))
                  | Inr q \<Rightarrow> (case new_task (ModifyTask callId sdp) g of (g', t) \<Rightarrow> (g', [AskModify t q]))))"

definition modify_answered ::
  "(string \<Rightarrow> bool) \<Rightarrow> nat \<Rightarrow> asked_outcome \<Rightarrow> string \<Rightarrow> gateway \<Rightarrow> gateway \<times> gw_output list" where
  "modify_answered valid_url t outcome now g =
     (if t \<ge> length (gw_tasks g) then (g, [])
      else (case gw_tasks g ! t of
        ModifyTask callId sdp \<Rightarrow>
          (case read_action valid_url False outcome of
             Inl err \<Rightarrow> (settle t g, [ModifyResponse t (sipStatusForError err) ''Bad Gateway'' None None])
           | Inr (RejectAction status reason headers _) \<Rightarrow>
               (settle t g, [ModifyResponse t status (case reason of Some x \<Rightarrow> x | None \<Rightarrow> ''Rejected'') None headers])
           | Inr (AnswerAction local status headers _) \<Rightarrow>
               (settle t (with_registry (\<lambda>r. fst (updateSdp r callId (Some local) sdp now)) g),
                [ModifyResponse t (case status of Some s \<Rightarrow> s | None \<Rightarrow> 200) [] (Some local) headers]))
      | _ \<Rightarrow> (g, [])))"

section \<open>Shutdown\<close>

text \<open>
  The part of \<open>shutdown\<close> before its \<open>await\<close>: the INVITEs that are pending get their final response and lose
  their reservation, pending outbound calls are cancelled, active calls are ended.
\<close>

fun refuse_pending :: "(string \<times> nat) list \<Rightarrow> gateway \<Rightarrow> gateway \<times> gw_output list" where
  "refuse_pending [] g = (g, [])"
| "refuse_pending ((callId, k) # ps) g =
     (let out = (if iv_final (gw_invites g ! k) then [] else [Respond k 503 ''Service Unavailable'' retry_after]);
          g1 = with_registry (\<lambda>r. releaseReservation r callId) (set_invite k (\<lambda>i. i\<lparr>iv_final := True\<rparr>) g)
      in case refuse_pending ps g1 of (g2, outs) \<Rightarrow> (g2, out @ outs))"

fun bye_all :: "string list \<Rightarrow> gateway \<Rightarrow> gateway \<times> gw_output list" where
  "bye_all [] g = (g, [])"
| "bye_all (c # cs) g =
     (case bye c (Some ''gateway-shutdown'') None g of
        (g1, out) \<Rightarrow> (case bye_all cs g1 of (g2, outs) \<Rightarrow> (g2, out @ outs)))"

definition shutdown :: "gateway \<Rightarrow> gateway \<times> gw_output list" where
  "shutdown g =
     (let g0 = g\<lparr>gw_draining := True, gw_stopping := True\<rparr>
      in case refuse_pending (gw_pendingInbound g0) g0 of (g1, outs1) \<Rightarrow>
        (case cancel_all (gw_pendingOutbound g1) g1 of (g2, outs2) \<Rightarrow>
        (case bye_all (map ac_callId (map snd (calls (gw_registry g2)))) g2 of (g3, outs3) \<Rightarrow>
           (g3\<lparr>gw_closing := Some (map snd (gw_pendingOutbound g1),
                [length (gw_tasks g) ..< length (gw_tasks g3)])\<rparr>, outs1 @ outs2 @ outs3))))"

text \<open>What \<open>shutdown\<close> waits for: the attempts to be over, and its cancellations and BYEs to have settled.\<close>

definition shutdown_ready :: "gateway \<Rightarrow> bool" where
  "shutdown_ready g =
     (case gw_closing g of
        None \<Rightarrow> False
      | Some (ks, ts) \<Rightarrow> list_all (\<lambda>k. at_phase (gw_attempts g ! k) = Over) ks \<and> list_all (\<lambda>t. gw_tasks g ! t = Settled) ts)"

definition close_when_ready :: "gateway \<times> gw_output list \<Rightarrow> gateway \<times> gw_output list" where
  "close_when_ready = (\<lambda>(g, outs).
     if shutdown_ready g then (g\<lparr>gw_closing := None, gw_connected := False\<rparr>, outs @ [Disconnect]) else (g, outs))"

section \<open>Connecting\<close>

record connection_options =
  co_initialRetryDelayMs :: "int option"
  co_maxRetryDelayMs :: "int option"
  co_endpointTimeoutMs :: "int option"

record resolved_options =
  ro_initialRetryDelayMs :: int
  ro_maxRetryDelayMs :: int
  ro_endpointTimeoutMs :: int

definition or_value :: "'a option \<Rightarrow> 'a \<Rightarrow> 'a" where
  "or_value x d = (case x of Some v \<Rightarrow> v | None \<Rightarrow> d)"

definition resolve_options :: "connection_options \<Rightarrow> resolved_options" where
  "resolve_options o1 = \<lparr>ro_initialRetryDelayMs = or_value (co_initialRetryDelayMs o1) 250,
     ro_maxRetryDelayMs = or_value (co_maxRetryDelayMs o1) 5000, ro_endpointTimeoutMs = or_value (co_endpointTimeoutMs o1) 1000\<rparr>"

text \<open>
  The loop of \<open>waitForDrachtioEndpoint\<close> over its rounds: in each one whether the gateway is stopping and whether
  the probe succeeds. The result lists the delays that were waited.
\<close>

datatype wait_result = EndpointUp nat | WaitRefused sip_error | StillWaiting

fun wait_rounds :: "int \<Rightarrow> int \<Rightarrow> nat \<Rightarrow> (bool \<times> bool) list \<Rightarrow> int list \<times> wait_result" where
  "wait_rounds mx delay attempt [] = ([], StillWaiting)"
| "wait_rounds mx delay attempt ((stopping, up) # rs) =
     (if stopping then ([], WaitRefused SipDraining)
      else if up then ([], EndpointUp attempt)
      else (case wait_rounds mx (min (delay * 2) mx) (attempt + 1) rs of (ds, r) \<Rightarrow> (delay # ds, r)))"

definition waitForDrachtioEndpoint :: "resolved_options \<Rightarrow> (bool \<times> bool) list \<Rightarrow> int list \<times> wait_result" where
  "waitForDrachtioEndpoint ro rs = wait_rounds (ro_maxRetryDelayMs ro) (ro_initialRetryDelayMs ro) 1 rs"

text \<open>The probe: the first of the socket's events settles it and destroys the socket.\<close>

datatype probe_event = ProbeConnected | ProbeError string | ProbeTimeout

fun probe_step :: "string \<Rightarrow> bool \<Rightarrow> probe_event \<Rightarrow> bool \<times> string option list" where
  "probe_step address is_settled e =
     (if is_settled then (True, [])
      else (True, [case e of ProbeConnected \<Rightarrow> None | ProbeError m \<Rightarrow> Some m
                   | ProbeTimeout \<Rightarrow> Some (''Timed out connecting to '' @ address)]))"

section \<open>Runs\<close>

datatype gw_event =
  SrfConnected
| SrfDisconnected
| SrfError
| DrainStarted
| InviteArrived hub sip_request string string
| InviteAnswered hub nat asked_outcome string
| UasSettled hub nat uas_outcome string
| InviteUndone hub nat string
| OutboundRequested outbound_params string
| RequestSent nat callback_arg "nat option"
| UacSettled nat uac_outcome string string
| AttemptDropped nat "string option"
| CancelAsked string "string option"
| CancelSettled nat
| ByeAsked string "string option" "sip_headers option"
| ReinviteAsked string string "sip_headers option"
| TaskDestroyed hub nat "string option" string
| ReinviteSettled nat "(string, string) result" string
| DialogDestroyed hub nat "(string \<times> (string \<times> jv) list) option" string
| DialogModified hub nat sip_request string
| ModifyAnswered nat asked_outcome string
| OwnerGone string
| ShutdownAsked

fun gateway_handler ::
  "gateway_config \<Rightarrow> (string \<Rightarrow> bool) \<Rightarrow> gateway \<Rightarrow> gw_event \<Rightarrow> gateway \<times> gw_output list" where
  "gateway_handler cfg vu g SrfConnected = (g\<lparr>gw_connected := True\<rparr>, [])"
| "gateway_handler cfg vu g SrfDisconnected = (g\<lparr>gw_connected := False\<rparr>, [])"
| "gateway_handler cfg vu g SrfError = (g, [])"
| "gateway_handler cfg vu g DrainStarted = (g\<lparr>gw_draining := True\<rparr>, [])"
| "gateway_handler cfg vu g (InviteArrived h req uuid now) = handleInvite cfg h req uuid now g"
| "gateway_handler cfg vu g (InviteAnswered h k out now) =
     (if k < length (gw_invites g) then invite_answered cfg vu h k out now g else (g, []))"
| "gateway_handler cfg vu g (UasSettled h k out now) =
     (if k < length (gw_invites g) then uas_settled cfg h k out now g else (g, []))"
| "gateway_handler cfg vu g (InviteUndone h k now) =
     (if k < length (gw_invites g) then undo_done cfg h k now g else (g, []))"
| "gateway_handler cfg vu g (OutboundRequested p uuid) = createOutbound p uuid g"
| "gateway_handler cfg vu g (RequestSent k a b) = request_sent k a b g"
| "gateway_handler cfg vu g (UacSettled k out uuid now) = uac_settled k out uuid now g"
| "gateway_handler cfg vu g (AttemptDropped k failure) = drop_done k failure g"
| "gateway_handler cfg vu g (CancelAsked i c) = cancelOutbound i c g"
| "gateway_handler cfg vu g (CancelSettled t) = cancel_settled t g"
| "gateway_handler cfg vu g (ByeAsked c reason headers) = bye c reason headers g"
| "gateway_handler cfg vu g (ReinviteAsked c sdp headers) = reinvite c sdp headers g"
| "gateway_handler cfg vu g (TaskDestroyed h t failure now) = task_destroyed cfg h t failure now g"
| "gateway_handler cfg vu g (ReinviteSettled t out now) = reinvite_settled t out now g"
| "gateway_handler cfg vu g (DialogDestroyed h d msg now) = dialog_destroyed cfg h d msg now g"
| "gateway_handler cfg vu g (DialogModified h d req now) = handleRemoteModify cfg h d req now g"
| "gateway_handler cfg vu g (ModifyAnswered t out now) = modify_answered vu t out now g"
| "gateway_handler cfg vu g (OwnerGone c) = terminateCallsForControlConnection c g"
| "gateway_handler cfg vu g ShutdownAsked = (if gw_stopping g then (g, []) else shutdown g)"

definition gateway_step ::
  "gateway_config \<Rightarrow> (string \<Rightarrow> bool) \<Rightarrow> gateway \<Rightarrow> gw_event \<Rightarrow> gateway \<times> gw_output list" where
  "gateway_step cfg vu g e = close_when_ready (gateway_handler cfg vu g e)"

abbreviation gateway_run :: "gateway_config \<Rightarrow> (string \<Rightarrow> bool) \<Rightarrow> gw_event list \<Rightarrow> gateway \<times> gw_output list" where
  "gateway_run cfg vu es \<equiv> steps (gateway_step cfg vu) new_gateway es"

end
