(* ===== verification/GatewayRuns.thy ===== *)
theory GatewayRuns
  imports Gateway
begin

text \<open>
  What holds in every run of the SIP gateway: the bookkeeping of INVITEs, reservations and outbound
  attempts, and the properties that follow from it.
\<close>

section \<open>INVITEs: answered once, accounted for\<close>

subsection \<open>Steps that leave the INVITEs alone\<close>

definition responds :: "nat \<Rightarrow> gw_output \<Rightarrow> bool" where
  "responds k out \<longleftrightarrow> (case out of Respond j _ _ _ \<Rightarrow> j = k | _ \<Rightarrow> False)"

definition responses :: "nat \<Rightarrow> gw_output list \<Rightarrow> nat" where
  "responses k outs = length (filter (responds k) outs)"

lemma responds_simps [simp]:
  "responds k (Respond j s x h) \<longleftrightarrow> j = k" "\<not> responds k (AskInvite n q)" "\<not> responds k (CreateUas n sdp h)"
  "\<not> responds k (Deliver d e)" "\<not> responds k (DeliverFailed d e)" "\<not> responds k (CreateUac n p)"
  "\<not> responds k (CancelRequest n m)" "\<not> responds k (DestroyDialog u n l)" "\<not> responds k (ModifyDialog n m sdp h)"
  "\<not> responds k (AskModify n q)" "\<not> responds k (ModifyResponse n i x b h)" "\<not> responds k (OutboundReply n res)"
  "\<not> responds k (TaskReply n rep)" "\<not> responds k Disconnect"
  by (simp_all add: responds_def)

lemma responses_simps [simp]:
  "responses k [] = 0" "responses k (out # outs) = of_bool (responds k out) + responses k outs"
  "responses k (outs @ outs') = responses k outs + responses k outs'"
  by (simp_all add: responses_def)

text \<open>A quiet step keeps the INVITEs, the reservations and the flags, and sends no final response.\<close>

definition quiet :: "gateway \<Rightarrow> gateway \<times> gw_output list \<Rightarrow> bool" where
  "quiet g r \<longleftrightarrow> gw_invites (fst r) = gw_invites g \<and> gw_pendingInbound (fst r) = gw_pendingInbound g
     \<and> gw_stopping (fst r) = gw_stopping g \<and> gw_draining (fst r) = gw_draining g
     \<and> reservations (gw_registry (fst r)) = reservations (gw_registry g)
     \<and> (registry_inv (gw_registry g) \<longrightarrow> registry_inv (gw_registry (fst r)))
     \<and> (\<forall>k. responses k (snd r) = 0)"

named_theorems quiet_intros \<open>steps that leave the INVITEs alone\<close>

lemma quiet_refl [quiet_intros]: "(\<And>k. responses k outs = 0) \<Longrightarrow> quiet g (g, outs)"
  by (simp add: quiet_def)

lemma quiet_trans: "quiet g (g1, outs1) \<Longrightarrow> quiet g1 (g2, outs2) \<Longrightarrow> quiet g (g2, outs1 @ outs2)"
  by (simp add: quiet_def)

text \<open>Two steps in a row.\<close>

lemma quiet_bind:
  assumes "quiet g r" and "quiet (fst r) (f (fst r))"
  shows "quiet g (case r of (g1, out) \<Rightarrow> (case f g1 of (g2, outs) \<Rightarrow> (g2, out @ outs)))"
  using assms quiet_trans [of g "fst r" "snd r" "fst (f (fst r))" "snd (f (fst r))"] by (simp add: case_prod_beta)

lemma new_task_eq: "new_task t g = (g\<lparr>gw_tasks := gw_tasks g @ [t]\<rparr>, length (gw_tasks g))"
  by (simp add: new_task_def)

lemma remove_reservations: "reservations (fst (remove_call r c)) = reservations r"
  by (simp add: remove_call_def split: option.splits)

lemma updateSdp_reservations: "reservations (fst (updateSdp r c l m now)) = reservations r"
  by (simp add: updateSdp_def Let_def split: option.splits)

lemma reserved_activated:
  "reserveCallId r uuid sip = Some (r', c) \<Longrightarrow> ac_callId call = c \<Longrightarrow> reservations (activate r' call) = reservations r"
  using reserve_shape [of r uuid sip]
  by (auto simp: activate_def releaseReservation_def hasCallOrReservation_def)

lemma cancelOutbound_quiet [quiet_intros]: "quiet g (cancelOutbound i c g)"
  by (simp add: quiet_def cancelOutbound_def new_task_def set_attempt_def Let_def split: option.split)

lemma cancel_all_quiet: "quiet g (cancel_all ps g)"
proof (induction ps arbitrary: g)
  case (Cons p ps)
  obtain i k where p: "p = (i, k)" by (cases p)
  from Cons.IH show ?case
    unfolding p cancel_all.simps by (intro quiet_bind [where f = "cancel_all ps"] cancelOutbound_quiet)
qed (simp add: quiet_def)

lemma bye_quiet [quiet_intros]: "quiet g (bye c reason hs g)"
  by (simp add: quiet_def bye_def new_task_def Let_def split: option.split)

lemma bye_all_quiet: "quiet g (bye_all cs g)"
proof (induction cs arbitrary: g)
  case (Cons c cs)
  then show ?case unfolding bye_all.simps by (intro quiet_bind [where f = "bye_all cs"] bye_quiet)
qed (simp add: quiet_def)

lemma remove_calls_registry:
  "reservations (fst (remove_calls cs r)) = reservations r \<and> (registry_inv r \<longrightarrow> registry_inv (fst (remove_calls cs r)))"
proof (induction cs arbitrary: r)
  case (Cons c cs)
  from Cons [of "fst (remove_call r c)"] show ?case
    using remove_inv [of r c] remove_reservations [of r c] by (auto split: prod.splits)
qed simp

lemma end_all_quiet: "quiet g (end_all cs g)"
proof (induction cs arbitrary: g)
  case (Cons c cs)
  from Cons [of "g\<lparr>gw_tasks := gw_tasks g @ [EndTask c]\<rparr>"] show ?case
    by (auto simp: quiet_def new_task_def split: prod.splits)
qed (simp add: quiet_def)

lemma terminate_quiet [quiet_intros]: "quiet g (terminateCallsForControlConnection c g)"
proof -
  define mine where "mine = filter (\<lambda>(i, k). op_controlConnectionId (at_params (gw_attempts g ! k)) = Some c) (gw_pendingOutbound g)"
  obtain g1 outs where 1: "cancel_all mine g = (g1, outs)" by fastforce
  define ids where "ids = map ac_callId (filter (\<lambda>x. ac_controlConnectionId x = Some c) (map snd (calls (gw_registry g1))))"
  obtain reg removed where 2: "remove_calls ids (gw_registry g1) = (reg, removed)" by fastforce
  obtain g2 outs' where 3: "end_all removed (g1\<lparr>gw_registry := reg\<rparr>) = (g2, outs')" by fastforce
  have q1: "quiet g (g1, outs)" using cancel_all_quiet [of g mine] 1 by simp
  have q2: "quiet g1 (g1\<lparr>gw_registry := reg\<rparr>, [])"
    using remove_calls_registry [of ids "gw_registry g1"] 2 by (simp add: quiet_def)
  have q3: "quiet (g1\<lparr>gw_registry := reg\<rparr>) (g2, outs')" using end_all_quiet [of "g1\<lparr>gw_registry := reg\<rparr>" removed] 3 by simp
  have "terminateCallsForControlConnection c g = (g2, outs @ [] @ outs')"
    using 1 2 3 by (simp add: terminateCallsForControlConnection_def mine_def [symmetric] ids_def [symmetric])
  then show ?thesis using quiet_trans [OF q1 quiet_trans [OF q2 q3]] by simp
qed

lemma report_end_quiet [quiet_intros]: "quiet g (report_end cfg h c kind reason hs now g)"
  using remove_inv [of "gw_registry g" c] remove_reservations [of "gw_registry g" c]
  by (auto simp: quiet_def report_end_def Let_def split: prod.split option.split)

lemma settle_quiet: "quiet g (settle t g, outs) \<longleftrightarrow> (\<forall>k. responses k outs = 0)"
  by (simp add: quiet_def settle_def)

lemma dialog_destroyed_quiet [quiet_intros]: "quiet g (dialog_destroyed cfg h d msg now g)"
  by (simp add: dialog_destroyed_def quiet_intros split: option.split)

lemma task_destroyed_quiet [quiet_intros]: "quiet g (task_destroyed cfg h t failure now g)"
proof -
  have "quiet g (case report_end cfg h c ''terminated'' reason hs now (settle t g) of (g', outs) \<Rightarrow> (g', outs @ [TaskReply t ReplyOk]))"
    for c reason hs
    using report_end_quiet [of "settle t g" cfg h c "''terminated''" reason hs now]
    by (auto simp: quiet_def settle_def split: prod.splits)
  then show ?thesis
    by (simp add: task_destroyed_def settle_quiet quiet_intros Let_def split: task.split option.split)
qed

lemma cancel_settled_quiet [quiet_intros]: "quiet g (cancel_settled t g)"
  by (simp add: quiet_def cancel_settled_def settle_def)

lemma reinvite_quiet [quiet_intros]: "quiet g (reinvite c sdp hs g)"
  by (simp add: quiet_def reinvite_def new_task_def split: option.split)

lemma reinvite_settled_quiet [quiet_intros]: "quiet g (reinvite_settled t out now g)"
  by (simp add: quiet_def reinvite_settled_def settle_def with_registry_def updateSdp_reservations updateSdp_inv
      split: task.split sum.split)

lemma modify_quiet [quiet_intros]: "quiet g (handleRemoteModify cfg h d req now g)"
  by (simp add: quiet_def handleRemoteModify_def new_task_def Let_def split: option.split sum.split)

lemma modify_answered_quiet [quiet_intros]: "quiet g (modify_answered vu t out now g)"
  by (simp add: quiet_def modify_answered_def settle_def with_registry_def updateSdp_reservations updateSdp_inv
      split: task.split sum.split sip_action.split)

lemma finish_attempt_frame [simp]:
  "gw_invites (finish_attempt k g) = gw_invites g" "gw_pendingInbound (finish_attempt k g) = gw_pendingInbound g"
  "gw_stopping (finish_attempt k g) = gw_stopping g" "gw_draining (finish_attempt k g) = gw_draining g"
  "gw_registry (finish_attempt k g) = gw_registry g"
  by (simp_all add: finish_attempt_def set_attempt_def Let_def)

lemma createOutbound_quiet [quiet_intros]: "quiet g (createOutbound p uuid g)"
  by (simp add: quiet_def createOutbound_def Let_def split: option.split)

lemma request_sent_quiet [quiet_intros]: "quiet g (request_sent k a b g)"
  by (simp add: quiet_def request_sent_def set_attempt_def split: option.split)

lemma drop_done_quiet [quiet_intros]: "quiet g (drop_done k failure g)"
  by (simp add: quiet_def drop_done_def)

lemma uac_settled_quiet [quiet_intros]: "quiet g (uac_settled k out uuid now g)"
  using reserve_inv activate_inv
  by (auto simp: quiet_def uac_settled_def set_attempt_def Let_def reserved_activated
      split: uac_outcome.split option.split)

subsection \<open>The invariant\<close>

text \<open>
  An INVITE that waits for the application or for drachtio holds the reservation of its identifier. It has
  no final response, unless the gateway is stopping. The map of pending INVITEs has exactly the unfinished
  ones, under their identifiers.
\<close>

fun held :: "invite_phase \<Rightarrow> bool" where
  "held Asking = True"
| "held (Answering sdp status hs r) = True"
| "held p = False"

fun invite_ok :: "bool \<Rightarrow> bool \<Rightarrow> invite_phase \<Rightarrow> bool" where
  "invite_ok s final Asking = (s \<or> \<not> final)"
| "invite_ok s final (Answering sdp status hs r) = (s \<or> \<not> final)"
| "invite_ok s final (Undoing e a) = (s \<and> final)"
| "invite_ok s final Finished = final"

definition book_inv :: "bool \<Rightarrow> bool \<Rightarrow> string list \<Rightarrow> invite list \<Rightarrow> (string, nat) omap \<Rightarrow> bool" where
  "book_inv s d R I P \<longleftrightarrow> (s \<longrightarrow> d) \<and> owf P
     \<and> (\<forall>k<length I. invite_ok s (iv_final (I ! k)) (iv_phase (I ! k)))
     \<and> (\<forall>c k. oget P c = Some k \<longleftrightarrow> k < length I \<and> iv_phase (I ! k) \<noteq> Finished \<and> iv_callId (I ! k) = c)
     \<and> (\<forall>c\<in>set R. \<exists>k<length I. iv_callId (I ! k) = c \<and> held (iv_phase (I ! k)))
     \<and> (s \<or> (\<forall>k<length I. held (iv_phase (I ! k)) \<longrightarrow> iv_callId (I ! k) \<in> set R))"

lemma book_finished: "book_inv s d R I P \<Longrightarrow> iv_phase iv = Finished \<Longrightarrow> iv_final iv \<Longrightarrow> book_inv s d R (I @ [iv]) P"
  unfolding book_inv_def
  by (elim conjE, intro conjI) (auto simp: nth_append less_Suc_eq)

lemma not_held: "invite_ok s f p \<Longrightarrow> \<not> s \<Longrightarrow> p \<noteq> Finished \<Longrightarrow> held p"
  by (cases p) auto

lemma held_not_finished: "held p \<Longrightarrow> p \<noteq> Finished"
  by auto

lemma book_new:
  assumes b: "book_inv s d R I P" and d: "\<not> d" and c: "c \<notin> set R"
    and iv: "iv_phase iv = Asking" "\<not> iv_final iv" "iv_callId iv = c"
  shows "book_inv s d (R @ [c]) (I @ [iv]) (oset c (length I) P)"
proof -
  have s: "\<not> s" using b d by (auto simp: book_inv_def)
  have fresh: "iv_callId (I ! k) \<noteq> c" if k: "k < length I" "iv_phase (I ! k) \<noteq> Finished" for k
  proof -
    have "invite_ok s (iv_final (I ! k)) (iv_phase (I ! k))" using b k by (simp add: book_inv_def)
    then have "held (iv_phase (I ! k))" using not_held s k(2) by blast
    then have "iv_callId (I ! k) \<in> set R" using b s k(1) by (auto simp: book_inv_def)
    with c show ?thesis by auto
  qed
  show ?thesis
    using b s iv fresh unfolding book_inv_def
    by (elim conjE, intro conjI) (auto simp: nth_append less_Suc_eq)
qed

text \<open>Replacing an INVITE by one with the same identifier.\<close>

lemma book_update:
  assumes b: "book_inv s d R I P" and k: "k < length I" and iv: "iv_callId iv = iv_callId (I ! k)"
    and p: "iv_phase iv \<noteq> Finished" "iv_phase (I ! k) \<noteq> Finished" and ok: "invite_ok s (iv_final iv) (iv_phase iv)"
    and h: "held (iv_phase iv) = held (iv_phase (I ! k))"
  shows "book_inv s d R (I[k := iv]) P"
proof -
  have same: "iv_callId (I[k := iv] ! j) = iv_callId (I ! j)" "held (iv_phase (I[k := iv] ! j)) = held (iv_phase (I ! j))"
    "(iv_phase (I[k := iv] ! j) = Finished) = (iv_phase (I ! j) = Finished)" for j
    using iv p h k by (auto simp: nth_list_update)
  have "invite_ok s (iv_final (I[k := iv] ! j)) (iv_phase (I[k := iv] ! j))" if "j < length I" for j
    using b that ok k by (auto simp: book_inv_def nth_list_update)
  with b show ?thesis unfolding book_inv_def by (simp add: same)
qed

lemma book_finish:
  assumes b: "book_inv s d R I P" and k: "k < length I" and iv: "iv_callId iv = iv_callId (I ! k)" "iv_phase iv = Finished" "iv_final iv"
    and p: "iv_phase (I ! k) \<noteq> Finished"
  shows "book_inv s d (removeAll (iv_callId (I ! k)) R) (I[k := iv]) (odel (iv_callId (I ! k)) P)"
proof -
  let ?c = "iv_callId (I ! k)"
  have P: "oget P c = Some j \<longleftrightarrow> j < length I \<and> iv_phase (I ! j) \<noteq> Finished \<and> iv_callId (I ! j) = c" for c j
    using b by (simp add: book_inv_def)
  have at: "oget P ?c = Some k" using P k p by simp
  have uniq: "j = k" if "j < length I" "iv_phase (I ! j) \<noteq> Finished" "iv_callId (I ! j) = ?c" for j
  proof -
    have "oget P ?c = Some j" using P that by simp
    with at show ?thesis by simp
  qed
  show ?thesis
    unfolding book_inv_def
  proof (intro conjI)
    show "s \<longrightarrow> d" "owf (odel ?c P)" using b by (auto simp: book_inv_def)
    show "\<forall>j<length (I[k := iv]). invite_ok s (iv_final (I[k := iv] ! j)) (iv_phase (I[k := iv] ! j))"
      using b iv k by (auto simp: book_inv_def nth_list_update)
    show "\<forall>c j. oget (odel ?c P) c = Some j \<longleftrightarrow>
        j < length (I[k := iv]) \<and> iv_phase (I[k := iv] ! j) \<noteq> Finished \<and> iv_callId (I[k := iv] ! j) = c"
      using P uniq iv k by (auto simp: nth_list_update)
    show "\<forall>c\<in>set (removeAll ?c R). \<exists>j<length (I[k := iv]). iv_callId (I[k := iv] ! j) = c \<and> held (iv_phase (I[k := iv] ! j))"
    proof
      fix c assume "c \<in> set (removeAll ?c R)"
      then obtain j where "j < length I" "iv_callId (I ! j) = c" "held (iv_phase (I ! j))" "c \<noteq> ?c"
        using b by (auto simp: book_inv_def)
      with k show "\<exists>j<length (I[k := iv]). iv_callId (I[k := iv] ! j) = c \<and> held (iv_phase (I[k := iv] ! j))"
        by (intro exI [of _ j]) (auto simp: nth_list_update)
    qed
    show "s \<or> (\<forall>j<length (I[k := iv]). held (iv_phase (I[k := iv] ! j)) \<longrightarrow> iv_callId (I[k := iv] ! j) \<in> set (removeAll ?c R))"
    proof (cases s)
      case False
      then have "\<forall>j<length I. held (iv_phase (I ! j)) \<longrightarrow> iv_callId (I ! j) \<in> set R" using b by (simp add: book_inv_def)
      moreover have "j = k" if "j < length I" "held (iv_phase (I ! j))" "iv_callId (I ! j) = ?c" for j
        using uniq that held_not_finished by blast
      ultimately show ?thesis using iv k by (auto simp: nth_list_update)
    qed simp
  qed
qed

lemma book_release:
  assumes b: "book_inv s d R I P" and s: "s" and k: "k < length I" and iv: "iv_callId iv = iv_callId (I ! k)"
    and p: "iv_phase iv \<noteq> Finished" "iv_phase (I ! k) \<noteq> Finished" and ok: "invite_ok s (iv_final iv) (iv_phase iv)"
  shows "book_inv s d (removeAll (iv_callId (I ! k)) R) (I[k := iv]) P"
proof -
  let ?c = "iv_callId (I ! k)"
  have same: "iv_callId (I[k := iv] ! j) = iv_callId (I ! j)" "(iv_phase (I[k := iv] ! j) = Finished) = (iv_phase (I ! j) = Finished)" for j
    using iv p k by (auto simp: nth_list_update)
  have "invite_ok s (iv_final (I[k := iv] ! j)) (iv_phase (I[k := iv] ! j))" if "j < length I" for j
    using b that ok k by (auto simp: book_inv_def nth_list_update)
  moreover have "\<exists>j<length I. iv_callId (I[k := iv] ! j) = c \<and> held (iv_phase (I[k := iv] ! j))" if c: "c \<in> set (removeAll ?c R)" for c
  proof -
    from c obtain j where "j < length I" "iv_callId (I ! j) = c" "held (iv_phase (I ! j))" "c \<noteq> ?c"
      using b by (auto simp: book_inv_def)
    with k show ?thesis by (intro exI [of _ j]) (auto simp: nth_list_update)
  qed
  ultimately show ?thesis using b s unfolding book_inv_def by (simp add: same)
qed

lemma book_stop: "book_inv s d R I P \<Longrightarrow> book_inv True True R I P"
proof -
  assume b: "book_inv s d R I P"
  have "invite_ok True f p" if "invite_ok s f p" for f p
    using that by (cases p) auto
  with b show ?thesis unfolding book_inv_def by auto
qed

lemma book_drain: "book_inv s d R I P \<Longrightarrow> book_inv s True R I P"
  unfolding book_inv_def by simp

lemma book_empty: "book_inv False False [] [] []"
  by (simp add: book_inv_def)

subsection \<open>Every step\<close>

definition gw_book :: "gateway \<Rightarrow> bool" where
  "gw_book g \<longleftrightarrow> book_inv (gw_stopping g) (gw_draining g) (reservations (gw_registry g)) (gw_invites g) (gw_pendingInbound g)
     \<and> registry_inv (gw_registry g)"

text \<open>Whether a final response to the \<open>k\<close>-th INVITE has gone out, and whether \<open>createUAS\<close> sends one in a step.\<close>

definition fin :: "nat \<Rightarrow> gateway \<Rightarrow> nat" where
  "fin k g = of_bool (k < length (gw_invites g) \<and> iv_final (gw_invites g ! k))"

fun uas_final :: "nat \<Rightarrow> gw_event \<Rightarrow> bool" where
  "uas_final k (UasSettled h j out now) = (j = k \<and> (case out of UasAnswered _ \<Rightarrow> True | UasFailed sent _ \<Rightarrow> sent))"
| "uas_final k e = False"

text \<open>
  A sound step keeps the invariant, answers only INVITEs without a final response, marks those it answers, and
  marks no others unless \<open>createUAS\<close> answered them.
\<close>

definition sound :: "(nat \<Rightarrow> bool) \<Rightarrow> gateway \<Rightarrow> gateway \<times> gw_output list \<Rightarrow> bool" where
  "sound uas g r \<longleftrightarrow> (gw_book g \<longrightarrow> gw_book (fst r)
     \<and> (\<forall>k. responses k (snd r) + fin k g \<le> fin k (fst r) \<and> fin k (fst r) \<le> responses k (snd r) + fin k g + of_bool (uas k)))"

abbreviation "no_uas \<equiv> \<lambda>k::nat. False"

lemma quiet_sound: "quiet g r \<Longrightarrow> sound uas g r"
  by (simp add: quiet_def sound_def gw_book_def fin_def)

lemma sound_trans:
  assumes "sound uas g (g1, outs1)" and "sound no_uas g1 (g2, outs2)"
  shows "sound uas g (g2, outs1 @ outs2)"
  unfolding sound_def
proof (rule impI)
  assume g: "gw_book g"
  with assms(1) have 1: "gw_book g1" "\<And>k. responses k outs1 + fin k g \<le> fin k g1"
    "\<And>k. fin k g1 \<le> responses k outs1 + fin k g + of_bool (uas k)" by (simp_all add: sound_def)
  with assms(2) have 2: "gw_book g2" "\<And>k. responses k outs2 + fin k g1 \<le> fin k g2"
    "\<And>k. fin k g2 \<le> responses k outs2 + fin k g1" by (simp_all add: sound_def)
  have "responses k (outs1 @ outs2) + fin k g \<le> fin k g2 \<and> fin k g2 \<le> responses k (outs1 @ outs2) + fin k g + of_bool (uas k)" for k
    using 1(2,3) [of k] 2(2,3) [of k] by simp
  with 2(1) show "gw_book (fst (g2, outs1 @ outs2)) \<and> (\<forall>k. responses k (snd (g2, outs1 @ outs2)) + fin k g \<le> fin k (fst (g2, outs1 @ outs2))
      \<and> fin k (fst (g2, outs1 @ outs2)) \<le> responses k (snd (g2, outs1 @ outs2)) + fin k g + of_bool (uas k))" by simp
qed

lemma refuse_sound: "sound uas g (refuse req now st reason hs g)"
  by (auto simp: sound_def refuse_def refused_invite_def gw_book_def fin_def nth_append intro!: book_finished)

lemma start_sound:
  assumes d: "\<not> gw_draining g" and reg: "reserveCallId (gw_registry g) uuid sip = Some (reg, in_callId body)"
  shows "sound uas g (start_invite cfg reg connection url body g)"
proof -
  have R: "reservations reg = reservations (gw_registry g) @ [in_callId body]" "in_callId body \<notin> set (reservations (gw_registry g))"
    using reserve_shape [of "gw_registry g" uuid sip] reg by (auto simp: hasCallOrReservation_def)
  with d show ?thesis
    by (auto simp: start_invite_def Let_def sound_def gw_book_def fin_def nth_append R
        intro!: book_new reserve_inv [OF _ reg])
qed

lemma in_callId_build: "in_callId (buildInviteRequest req c sip uri user now) = c"
  by (simp add: buildInviteRequest_def Let_def)

lemma none_sound: "sound uas g (g, [])"
  by (rule quiet_sound) (simp add: quiet_def)

lemma handleInvite_sound: "sound uas g (handleInvite cfg h req uuid now g)"
proof -
  have "sound uas g (start_invite cfg reg connection url (buildInviteRequest req c sip uri user now) g)"
    if "\<not> gw_draining g" "reserveCallId (gw_registry g) uuid sip = Some (reg, c)" for reg connection url c sip uri user
    using start_sound [OF that(1)] that(2) in_callId_build by simp
  then show ?thesis
    by (simp add: handleInvite_def handleAdmittedInvite_def Let_def refuse_sound none_sound split: option.split prod.split)
qed

subsection \<open>Failures and answers\<close>

text \<open>How one INVITE changes; the other entries of the record that matter here do not.\<close>

lemma sound_update:
  assumes k: "k < length (gw_invites g)" and I: "gw_invites (fst r) = (gw_invites g)[k := iv]"
    and book: "gw_book g \<Longrightarrow> gw_book (fst r)"
    and outs: "\<And>j. j \<noteq> k \<Longrightarrow> responses j (snd r) = 0"
    and low: "gw_book g \<Longrightarrow> responses k (snd r) + of_bool (iv_final (gw_invites g ! k)) \<le> of_bool (iv_final iv)"
    and high: "gw_book g \<Longrightarrow> of_bool (iv_final iv) \<le> responses k (snd r) + of_bool (iv_final (gw_invites g ! k)) + of_bool (uas k)"
  shows "sound uas g r"
  unfolding sound_def
proof (intro impI conjI allI)
  assume g: "gw_book g"
  then show "gw_book (fst r)" by (rule book)
  fix j
  show "responses j (snd r) + fin j g \<le> fin j (fst r)"
    using low [OF g] outs [of j] k by (cases "j = k") (auto simp: fin_def I)
  show "fin j (fst r) \<le> responses j (snd r) + fin j g + of_bool (uas j)"
    using high [OF g] outs [of j] k by (cases "j = k") (auto simp: fin_def I)
qed

lemma gw_book_parts:
  "gw_book g \<Longrightarrow> book_inv (gw_stopping g) (gw_draining g) (reservations (gw_registry g)) (gw_invites g) (gw_pendingInbound g)"
  "gw_book g \<Longrightarrow> registry_inv (gw_registry g)"
  by (simp_all add: gw_book_def)

lemma release_reservations: "reservations (releaseReservation r c) = removeAll c (reservations r)"
  by (simp add: releaseReservation_def)

lemma book_ok: "gw_book g \<Longrightarrow> k < length (gw_invites g) \<Longrightarrow> invite_ok (gw_stopping g) (iv_final (gw_invites g ! k)) (iv_phase (gw_invites g ! k))"
  by (simp add: gw_book_def book_inv_def)

lemma book_pending:
  "gw_book g \<Longrightarrow> oget (gw_pendingInbound g) c = Some k \<longleftrightarrow>
     k < length (gw_invites g) \<and> iv_phase (gw_invites g ! k) \<noteq> Finished \<and> iv_callId (gw_invites g ! k) = c"
  by (simp add: gw_book_def book_inv_def)

lemma book_reserved:
  "gw_book g \<Longrightarrow> c \<in> set (reservations (gw_registry g)) \<Longrightarrow>
     \<exists>k. oget (gw_pendingInbound g) c = Some k \<and> held (iv_phase (gw_invites g ! k))"
proof -
  assume b: "gw_book g" and c: "c \<in> set (reservations (gw_registry g))"
  then obtain k where "k < length (gw_invites g)" "iv_callId (gw_invites g ! k) = c" "held (iv_phase (gw_invites g ! k))"
    unfolding gw_book_def book_inv_def by blast
  then show ?thesis using book_pending [OF b] held_not_finished by blast
qed

text \<open>\<open>fail_rest\<close> on an INVITE whose reservation is released.\<close>

lemma fail_rest_eq:
  "k < length (gw_invites g) \<Longrightarrow> fail_rest cfg h k e a now g =
     (g\<lparr>gw_invites := (gw_invites g)[k := (gw_invites g ! k)\<lparr>iv_final := True, iv_phase := Finished\<rparr>],
        gw_pendingInbound := odel (iv_callId (gw_invites g ! k)) (gw_pendingInbound g)\<rparr>,
      snd (fail_rest cfg h k e a now g))"
  by (simp add: fail_rest_def finish_invite_def set_invite_def Let_def)

lemma fail_rest_responses:
  "responses j (snd (fail_rest cfg h k e a now g)) = of_bool (j = k \<and> \<not> iv_final (gw_invites g ! k))"
  by (auto simp: fail_rest_def Let_def)

lemma dropped_registry:
  "registry_inv r \<Longrightarrow> registry_inv (releaseReservation (fst (remove_call r c)) c)"
  "reservations (releaseReservation (fst (remove_call r c)) c) = removeAll c (reservations r)"
  by (auto intro: inv_intros simp: release_reservations remove_reservations)

lemma fail_invite_sound:
  assumes k: "k < length (gw_invites g)" and held: "held (iv_phase (gw_invites g ! k))" and uas: "sent \<longrightarrow> uas k"
  shows "sound uas g (fail_invite cfg h k e a None now (set_invite k (\<lambda>i. i\<lparr>iv_final := iv_final i \<or> sent\<rparr>) g))"
proof -
  let ?i = "gw_invites g ! k" and ?c = "iv_callId (gw_invites g ! k)"
  let ?g = "with_registry (\<lambda>r. releaseReservation (fst (remove_call r ?c)) ?c) (set_invite k (\<lambda>i. i\<lparr>iv_final := iv_final i \<or> sent\<rparr>) g)"
  have r: "fail_invite cfg h k e a None now (set_invite k (\<lambda>i. i\<lparr>iv_final := iv_final i \<or> sent\<rparr>) g) = fail_rest cfg h k e a now ?g"
    using k by (simp add: fail_invite_def set_invite_def with_registry_def Let_def)
  have kg: "k < length (gw_invites ?g)" using k by (simp add: with_registry_def set_invite_def)
  show ?thesis
    unfolding r
  proof (rule sound_update [where k = k and iv = "?i\<lparr>iv_final := True, iv_phase := Finished\<rparr>"])
    show "k < length (gw_invites g)" by (rule k)
    show "gw_invites (fst (fail_rest cfg h k e a now ?g)) = (gw_invites g)[k := ?i\<lparr>iv_final := True, iv_phase := Finished\<rparr>]"
      using k by (subst fail_rest_eq [OF kg]) (simp add: with_registry_def set_invite_def)
    show "gw_book (fst (fail_rest cfg h k e a now ?g))" if b: "gw_book g"
      using k held book_finish [OF gw_book_parts(1) [OF b] k, of "?i\<lparr>iv_final := True, iv_phase := Finished\<rparr>"] held_not_finished [OF held]
        dropped_registry gw_book_parts(2) [OF b]
      by (subst fail_rest_eq [OF kg]) (simp add: gw_book_def with_registry_def set_invite_def)
  qed (use k uas in \<open>auto simp: fail_rest_responses with_registry_def set_invite_def\<close>)
qed

lemma same_invite: "k < length (gw_invites g) \<Longrightarrow> set_invite k (\<lambda>i. i\<lparr>iv_final := iv_final i \<or> False\<rparr>) g = g"
  by (simp add: set_invite_def)

lemma undo_sound:
  assumes k: "k < length (gw_invites g)" and held: "held (iv_phase (gw_invites g ! k))" and s: "gw_stopping g" and uas: "uas k"
  shows "sound uas g (fail_invite cfg h k e a (Some d) now (set_invite k (\<lambda>i. i\<lparr>iv_final := True\<rparr>) g))"
proof -
  let ?i = "gw_invites g ! k" and ?c = "iv_callId (gw_invites g ! k)"
  let ?r = "fail_invite cfg h k e a (Some d) now (set_invite k (\<lambda>i. i\<lparr>iv_final := True\<rparr>) g)"
  have r: "?r = (g\<lparr>gw_invites := (gw_invites g)[k := ?i\<lparr>iv_final := True, iv_phase := Undoing e a\<rparr>],
      gw_registry := releaseReservation (fst (remove_call (gw_registry g) ?c)) ?c\<rparr>, [DestroyDialog (UndoInvite k) d []])"
    using k by (simp add: fail_invite_def set_invite_def with_registry_def Let_def)
  show ?thesis
    unfolding r
  proof (rule sound_update [where k = k and iv = "?i\<lparr>iv_final := True, iv_phase := Undoing e a\<rparr>"])
    fix b :: bool
    assume b: "gw_book g"
    show "gw_book (fst (g\<lparr>gw_invites := (gw_invites g)[k := ?i\<lparr>iv_final := True, iv_phase := Undoing e a\<rparr>],
        gw_registry := releaseReservation (fst (remove_call (gw_registry g) ?c)) ?c\<rparr>, [DestroyDialog (UndoInvite k) d []]))"
      using book_release [OF gw_book_parts(1) [OF b] s k, of "?i\<lparr>iv_final := True, iv_phase := Undoing e a\<rparr>"] held_not_finished [OF held] s
        dropped_registry gw_book_parts(2) [OF b]
      by (simp add: gw_book_def)
  qed (use k uas in auto)
qed

lemma undo_done_sound: "k < length (gw_invites g) \<Longrightarrow> sound uas g (undo_done cfg h k now g)"
proof (cases "iv_phase (gw_invites g ! k)")
  case (Undoing e a)
  assume k: "k < length (gw_invites g)"
  let ?i = "gw_invites g ! k"
  have r: "undo_done cfg h k now g = fail_rest cfg h k e a now g" by (simp add: undo_done_def Undoing)
  show ?thesis
    unfolding r
  proof (rule sound_update [where k = k and iv = "?i\<lparr>iv_final := True, iv_phase := Finished\<rparr>"])
    show "k < length (gw_invites g)" by (rule k)
    show "gw_invites (fst (fail_rest cfg h k e a now g)) = (gw_invites g)[k := ?i\<lparr>iv_final := True, iv_phase := Finished\<rparr>]"
      using k by (subst fail_rest_eq [OF k]) simp
    show "responses j (snd (fail_rest cfg h k e a now g)) = 0" if "j \<noteq> k" for j
      using that by (simp add: fail_rest_responses)
    assume b: "gw_book g"
    have ok: "invite_ok (gw_stopping g) (iv_final ?i) (Undoing e a)" using book_ok [OF b k] Undoing by simp
    have "iv_callId ?i \<notin> set (reservations (gw_registry g))"
    proof
      assume "iv_callId ?i \<in> set (reservations (gw_registry g))"
      then obtain j where j: "oget (gw_pendingInbound g) (iv_callId ?i) = Some j" "held (iv_phase (gw_invites g ! j))"
        using book_reserved [OF b] by blast
      have "oget (gw_pendingInbound g) (iv_callId ?i) = Some k"
        using book_pending [OF b] k Undoing by simp
      with j Undoing show False by simp
    qed
    then have same: "removeAll (iv_callId ?i) (reservations (gw_registry g)) = reservations (gw_registry g)" by (rule removeAll_id)
    show "gw_book (fst (fail_rest cfg h k e a now g))"
      using book_finish [OF gw_book_parts(1) [OF b] k, of "?i\<lparr>iv_final := True, iv_phase := Finished\<rparr>"] Undoing
        gw_book_parts(2) [OF b]
      by (subst fail_rest_eq [OF k]) (simp add: gw_book_def same)
    show "responses k (snd (fail_rest cfg h k e a now g)) + of_bool (iv_final ?i) \<le> of_bool (iv_final (?i\<lparr>iv_final := True, iv_phase := Finished\<rparr>))"
      using ok by (simp add: fail_rest_responses)
    show "of_bool (iv_final (?i\<lparr>iv_final := True, iv_phase := Finished\<rparr>)) \<le> responses k (snd (fail_rest cfg h k e a now g)) + of_bool (iv_final ?i) + of_bool (uas k)"
      using ok by (simp add: fail_rest_responses)
  qed
qed (simp_all add: undo_done_def none_sound)

lemma finish_invite_eq:
  "k < length (gw_invites g) \<Longrightarrow> finish_invite k g =
     g\<lparr>gw_invites := (gw_invites g)[k := (gw_invites g ! k)\<lparr>iv_phase := Finished\<rparr>],
       gw_pendingInbound := odel (iv_callId (gw_invites g ! k)) (gw_pendingInbound g)\<rparr>"
  by (simp add: finish_invite_def set_invite_def)

lemma reject_sound:
  assumes k: "k < length (gw_invites g)" and p: "iv_phase (gw_invites g ! k) = Asking" and s: "\<not> gw_stopping g"
  shows "sound uas g
    (finish_invite k (set_invite k (\<lambda>i. i\<lparr>iv_final := True\<rparr>) (with_registry (\<lambda>r. releaseReservation r (iv_callId (gw_invites g ! k))) g)),
     [Respond k status reason hs])" (is "sound uas g ?r")
proof -
  let ?i = "gw_invites g ! k"
  have r: "fst ?r = g\<lparr>gw_invites := (gw_invites g)[k := ?i\<lparr>iv_final := True, iv_phase := Finished\<rparr>],
      gw_pendingInbound := odel (iv_callId ?i) (gw_pendingInbound g), gw_registry := releaseReservation (gw_registry g) (iv_callId ?i)\<rparr>"
    using k by (simp add: finish_invite_def set_invite_def with_registry_def)
  show ?thesis
  proof (rule sound_update [where k = k and iv = "?i\<lparr>iv_final := True, iv_phase := Finished\<rparr>"])
    show "gw_invites (fst ?r) = (gw_invites g)[k := ?i\<lparr>iv_final := True, iv_phase := Finished\<rparr>]" by (simp only: r) simp
    assume b: "gw_book g"
    show "gw_book (fst ?r)"
      using book_finish [OF gw_book_parts(1) [OF b] k, of "?i\<lparr>iv_final := True, iv_phase := Finished\<rparr>"] p gw_book_parts(2) [OF b]
      by (simp only: r) (simp add: gw_book_def release_reservations release_inv)
    have "\<not> iv_final ?i" using book_ok [OF b k] p s by simp
    then show "responses k (snd ?r) + of_bool (iv_final ?i) \<le> of_bool (iv_final (?i\<lparr>iv_final := True, iv_phase := Finished\<rparr>))"
      by simp
  qed (use k in simp_all)
qed

lemma invite_answered_sound:
  assumes k: "k < length (gw_invites g)"
  shows "sound uas g (invite_answered cfg vu h k out now g)"
proof (cases "iv_phase (gw_invites g ! k) = Asking")
  case True
  show ?thesis
  proof (cases "rbind (read_action vu (iv_connection (gw_invites g ! k) = None) out) (running g)")
    case (Inl e)
    have "sound uas g (fail_invite cfg h k e [] None now (set_invite k (\<lambda>i. i\<lparr>iv_final := iv_final i \<or> False\<rparr>) g))"
      using k True by (intro fail_invite_sound) simp_all
    then have "sound uas g (fail_invite cfg h k e [] None now g)" by (simp only: same_invite [OF k])
    with True Inl show ?thesis by (simp add: invite_answered_def Let_def)
  next
    case (Inr a)
    then have s: "\<not> gw_stopping g" by (auto simp: rbind_eq_Inr running_def split: if_splits)
    show ?thesis
    proof (cases a)
      case (RejectAction status reason hs rec)
      with True Inr show ?thesis
        by (simp add: invite_answered_def Let_def reject_sound [OF k True s])
    next
      case (AnswerAction sdp status hs rec)
      define url where "url = (if iv_connection (gw_invites g ! k) = None
        then (case rec of Some u \<Rightarrow> u | None \<Rightarrow> iv_url (gw_invites g ! k)) else iv_url (gw_invites g ! k))"
      let ?iv = "(gw_invites g ! k)\<lparr>iv_phase := Answering sdp status hs url\<rparr>"
      have r: "invite_answered cfg vu h k out now g = (g\<lparr>gw_invites := (gw_invites g)[k := ?iv]\<rparr>, [CreateUas k sdp hs])"
        using True Inr AnswerAction by (simp add: invite_answered_def Let_def set_invite_def url_def)
      show ?thesis
        unfolding r
      proof (rule sound_update [where k = k and iv = ?iv])
        assume b: "gw_book g"
        show "gw_book (fst (g\<lparr>gw_invites := (gw_invites g)[k := ?iv]\<rparr>, [CreateUas k sdp hs]))"
          using book_update [OF gw_book_parts(1) [OF b] k, of ?iv] True book_ok [OF b k] gw_book_parts(2) [OF b]
          by (simp add: gw_book_def)
      qed (use k in simp_all)
    qed
  qed
qed (simp add: invite_answered_def none_sound)

lemma answered_sound:
  assumes k: "k < length (gw_invites g)" and p: "held (iv_phase (gw_invites g ! k))" and u: "uas k"
    and c: "ac_callId call = iv_callId (gw_invites g ! k)"
    and r: "g' = finish_invite k ((with_registry (\<lambda>reg. activate reg call) (set_invite k (\<lambda>i. i\<lparr>iv_final := True\<rparr>) g))\<lparr>gw_dialogs := ds\<rparr>)"
  shows "sound uas g (g', [Deliver d e])"
proof -
  let ?i = "gw_invites g ! k"
  have r: "g' = g\<lparr>gw_invites := (gw_invites g)[k := ?i\<lparr>iv_final := True, iv_phase := Finished\<rparr>],
      gw_pendingInbound := odel (iv_callId ?i) (gw_pendingInbound g), gw_registry := activate (gw_registry g) call, gw_dialogs := ds\<rparr>"
    using k by (simp add: r finish_invite_def set_invite_def with_registry_def)
  show ?thesis
  proof (rule sound_update [where k = k and iv = "?i\<lparr>iv_final := True, iv_phase := Finished\<rparr>"])
    assume b: "gw_book g"
    have "reservations (activate (gw_registry g) call) = removeAll (iv_callId ?i) (reservations (gw_registry g))"
      by (simp add: activate_def release_reservations c Let_def)
    then show "gw_book (fst (g', [Deliver d e]))"
      using book_finish [OF gw_book_parts(1) [OF b] k, of "?i\<lparr>iv_final := True, iv_phase := Finished\<rparr>"] held_not_finished [OF p]
        gw_book_parts(2) [OF b]
      by (simp only: r fst_conv) (simp add: gw_book_def activate_inv)
  qed (use k u in \<open>auto simp: r\<close>)
qed

lemma uas_settled_sound:
  assumes k: "k < length (gw_invites g)" and uas: "\<And>sent m. out = UasFailed sent m \<Longrightarrow> sent \<longrightarrow> uas k" "\<And>d. out = UasAnswered d \<Longrightarrow> uas k"
  shows "sound uas g (uas_settled cfg h k out now g)"
proof (cases "iv_phase (gw_invites g ! k)")
  case (Answering sdp status hs receiver)
  then have p: "held (iv_phase (gw_invites g ! k))" by simp
  show ?thesis
  proof (cases out)
    case (UasFailed sent m)
    with Answering show ?thesis
      using fail_invite_sound [where uas = uas, OF k p uas(1) [OF UasFailed]] by (simp add: uas_settled_def)
  next
    case (UasAnswered d)
    show ?thesis
    proof (cases "gw_stopping g")
      case True
      with Answering UasAnswered show ?thesis
        using undo_sound [where uas = uas, OF k p True uas(2) [OF UasAnswered]] by (simp add: uas_settled_def)
    next
      case False
      with Answering UasAnswered show ?thesis
        unfolding uas_settled_def Let_def
        by simp (rule answered_sound [where uas = uas, OF k p uas(2) [OF UasAnswered] _ refl], simp)
    qed
  qed
qed (simp_all add: uas_settled_def none_sound)

subsection \<open>Shutdown and runs\<close>

lemma sound_cases: "(gw_book g \<Longrightarrow> sound uas g r) \<Longrightarrow> sound uas g r"
  by (simp add: sound_def)

lemma refuse_one_sound:
  assumes s: "gw_stopping g" and c: "oget (gw_pendingInbound g) c = Some k"
  shows "sound uas g (with_registry (\<lambda>r. releaseReservation r c) (set_invite k (\<lambda>i. i\<lparr>iv_final := True\<rparr>) g),
    if iv_final (gw_invites g ! k) then [] else [Respond k status reason hs])" (is "sound uas g ?r")
proof (rule sound_cases)
  assume b: "gw_book g"
  from book_pending [OF b] c have k: "k < length (gw_invites g)" "iv_phase (gw_invites g ! k) \<noteq> Finished" "c = iv_callId (gw_invites g ! k)"
    by simp_all
  let ?iv = "(gw_invites g ! k)\<lparr>iv_final := True\<rparr>"
  have ok: "invite_ok True True p" if "p \<noteq> Finished" for p using that by (cases p) simp_all
  show ?thesis
  proof (rule sound_update [where k = k and iv = ?iv])
    show "gw_invites (fst ?r) = (gw_invites g)[k := ?iv]" by (simp add: with_registry_def set_invite_def)
    show "gw_book (fst ?r)"
      using book_release [OF gw_book_parts(1) [OF b] s k(1), of ?iv] k ok [OF k(2)] s gw_book_parts(2) [OF b]
      by (simp add: gw_book_def with_registry_def set_invite_def release_reservations release_inv)
  qed (use k in auto)
qed

lemma refuse_pending_sound:
  "gw_stopping g \<Longrightarrow> \<forall>(c, k)\<in>set ps. oget (gw_pendingInbound g) c = Some k \<Longrightarrow> sound no_uas g (refuse_pending ps g)"
proof (induction ps arbitrary: g)
  case (Cons p ps)
  obtain c k where p: "p = (c, k)" by (cases p)
  let ?out = "if iv_final (gw_invites g ! k) then [] else [Respond k 503 ''Service Unavailable'' retry_after]"
  let ?g1 = "with_registry (\<lambda>r. releaseReservation r c) (set_invite k (\<lambda>i. i\<lparr>iv_final := True\<rparr>) g)"
  have 1: "sound no_uas g (?g1, ?out)" using Cons.prems p by (intro refuse_one_sound) simp_all
  have "sound no_uas ?g1 (refuse_pending ps ?g1)"
    using Cons.prems by (intro Cons.IH) (simp_all add: with_registry_def set_invite_def)
  then have 2: "sound no_uas ?g1 (fst (refuse_pending ps ?g1), snd (refuse_pending ps ?g1))" by simp
  have "refuse_pending (p # ps) g = (fst (refuse_pending ps ?g1), ?out @ snd (refuse_pending ps ?g1))"
    by (simp add: p Let_def case_prod_beta)
  with sound_trans [OF 1 2] show ?case by simp
qed (simp add: none_sound)

lemma shutdown_sound: "sound no_uas g (shutdown g)"
proof (rule sound_cases)
  assume b: "gw_book g"
  let ?g0 = "g\<lparr>gw_draining := True, gw_stopping := True\<rparr>"
  obtain g1 outs1 where 1: "refuse_pending (gw_pendingInbound ?g0) ?g0 = (g1, outs1)" by fastforce
  obtain g2 outs2 where 2: "cancel_all (gw_pendingOutbound g1) g1 = (g2, outs2)" by fastforce
  obtain g3 outs3 where 3: "bye_all (map ac_callId (map snd (calls (gw_registry g2)))) g2 = (g3, outs3)" by fastforce
  define g4 where "g4 = g3\<lparr>gw_closing := Some (map snd (gw_pendingOutbound g1), [length (gw_tasks g) ..< length (gw_tasks g3)])\<rparr>"
  have s0: "sound no_uas g (?g0, [])"
    using book_stop [OF gw_book_parts(1) [OF b]] gw_book_parts(2) [OF b] by (simp add: sound_def gw_book_def fin_def)
  have owf: "owf (gw_pendingInbound g)" using b by (simp add: gw_book_def book_inv_def)
  have "sound no_uas ?g0 (refuse_pending (gw_pendingInbound ?g0) ?g0)"
    using owf by (intro refuse_pending_sound) (auto simp: map_of_is_SomeI)
  then have s1: "sound no_uas ?g0 (g1, outs1)" by (simp only: 1)
  have s2: "sound no_uas g1 (g2, outs2)" using quiet_sound [OF cancel_all_quiet [of g1 "gw_pendingOutbound g1"]] by (simp only: 2)
  have s3: "sound no_uas g2 (g3, outs3)" using quiet_sound [OF bye_all_quiet [of g2]] 3 by metis
  have s4: "sound no_uas g3 (g4, [])" by (rule quiet_sound) (simp add: quiet_def g4_def)
  have "shutdown g = (g4, [] @ outs1 @ outs2 @ outs3 @ [])"
    using 1 2 3 by (simp add: shutdown_def g4_def Let_def)
  with sound_trans [OF s0 sound_trans [OF s1 sound_trans [OF s2 sound_trans [OF s3 s4]]]] show "sound no_uas g (shutdown g)"
    by simp
qed

lemma close_sound: "sound uas g r \<Longrightarrow> sound uas g (close_when_ready r)"
proof -
  assume r: "sound uas g r"
  have "sound no_uas (fst r) ((fst r)\<lparr>gw_closing := None, gw_connected := False\<rparr>, [Disconnect])"
    by (rule quiet_sound) (simp add: quiet_def)
  with r sound_trans [of uas g "fst r" "snd r"] show ?thesis
    by (auto simp: close_when_ready_def split: prod.split)
qed

lemma drain_sound: "sound uas g (g\<lparr>gw_draining := True\<rparr>, [])"
  using book_drain by (auto simp: sound_def gw_book_def fin_def)

lemma connection_sound: "sound uas g (g\<lparr>gw_connected := c\<rparr>, [])"
  by (rule quiet_sound) (simp add: quiet_def)

lemma handler_sound: "sound (\<lambda>k. uas_final k e) g (gateway_handler cfg vu g e)"
proof (cases e)
  case (UasSettled h k out now)
  then show ?thesis by (auto intro!: uas_settled_sound simp: none_sound)
next
  case ShutdownAsked
  with shutdown_sound [of g] show ?thesis by (simp add: none_sound)
qed (simp_all add: none_sound quiet_sound quiet_intros handleInvite_sound invite_answered_sound undo_done_sound drain_sound
    quiet_sound [OF quiet_refl] connection_sound)

lemma step_sound: "sound (\<lambda>k. uas_final k e) g (gateway_step cfg vu g e)"
  unfolding gateway_step_def by (rule close_sound [OF handler_sound])

interpretation final: single_shot "gateway_step cfg vu" gw_book "fin k" "responses k" "uas_final k" for cfg vu k
proof
  show "gw_book g \<Longrightarrow> gw_book (fst (gateway_step cfg vu g e))" for g e
    using step_sound [of e g cfg vu] by (simp add: sound_def)
  show "gw_book g \<Longrightarrow> responses k (snd (gateway_step cfg vu g e)) + fin k g \<le> fin k (fst (gateway_step cfg vu g e))" for g e
    using step_sound [of e g cfg vu] by (simp add: sound_def)
  show "gw_book g \<Longrightarrow> fin k (fst (gateway_step cfg vu g e)) \<le> responses k (snd (gateway_step cfg vu g e)) + fin k g + of_bool (uas_final k e)" for g e
    using step_sound [of e g cfg vu] by (simp add: sound_def)
qed (simp_all add: fin_def)

lemma new_gateway_book: "gw_book new_gateway"
  using book_empty by (simp add: gw_book_def new_gateway_def registry_inv_empty) (simp add: empty_registry_def)

lemma run_book: "gw_book (fst (gateway_run cfg vu es))"
  by (rule final.run_shot_inv [OF new_gateway_book])

text \<open>
  C6. In every run the gateway sends at most one final response to an INVITE, and none after \<open>createUAS\<close>
  has answered it. When the handling of an INVITE is over, a final response has gone out: the gateway sent
  it, or \<open>createUAS\<close> did.
\<close>

theorem invite_answered_once:
  fixes cfg vu and es fs :: "gw_event list"
  defines "before \<equiv> fst (gateway_run cfg vu es)" and "now \<equiv> gateway_run cfg vu (es @ fs)"
  shows "responses k (snd now) \<le> 1
    \<and> (k < length (gw_invites before) \<and> iv_final (gw_invites before ! k) \<longrightarrow>
         responses k (snd now) = responses k (snd (gateway_run cfg vu es)))
    \<and> (k < length (gw_invites before) \<and> iv_phase (gw_invites before ! k) = Finished \<longrightarrow>
         responses k (snd (gateway_run cfg vu es)) = 1 \<or> (\<exists>e\<in>set es. uas_final k e))"
proof -
  have b: "gw_book before" unfolding before_def by (rule run_book)
  have 1: "responses k (snd now) \<le> 1" unfolding now_def by (rule final.at_most_once [OF new_gateway_book])
  have split: "responses k (snd now) = responses k (snd (gateway_run cfg vu es)) + responses k (snd (steps (gateway_step cfg vu) before fs))"
    by (simp add: now_def before_def steps_append)
  have 2: "responses k (snd (steps (gateway_step cfg vu) before fs)) = 0" if "k < length (gw_invites before)" "iv_final (gw_invites before ! k)"
    using that by (intro final.none_after [OF b]) (simp add: fin_def)
  have 3: "responses k (snd (gateway_run cfg vu es)) = 1 \<or> (\<exists>e\<in>set es. uas_final k e)"
    if k: "k < length (gw_invites before)" "iv_phase (gw_invites before ! k) = Finished"
  proof (cases "responses k (snd (gateway_run cfg vu es)) = 0")
    case True
    have "iv_final (gw_invites before ! k)" using book_ok [OF b k(1)] k(2) by simp
    with k True show ?thesis
      using final.caused [OF new_gateway_book, of k cfg vu es] by (simp add: fin_def before_def new_gateway_def)
  next
    case False
    with final.at_most_once [OF new_gateway_book, of k cfg vu es] show ?thesis by simp
  qed
  from 1 2 3 split show ?thesis by simp
qed

text \<open>
  No reservation leaks: in every run the reserved identifiers are those of INVITEs that still wait for
  the application or for drachtio, and each of these is in the map of pending INVITEs under its own
  identifier. While the gateway is not stopping, the two sets are equal, so once every INVITE is finished
  nothing is reserved.
\<close>

theorem reservations_accounted:
  fixes cfg vu and es :: "gw_event list"
  defines "g \<equiv> fst (gateway_run cfg vu es)"
  shows "set (reservations (gw_registry g)) \<subseteq> {iv_callId i | i. i \<in> set (gw_invites g) \<and> held (iv_phase i)}
    \<and> (gw_stopping g \<or> set (reservations (gw_registry g)) = {iv_callId i | i. i \<in> set (gw_invites g) \<and> held (iv_phase i)})
    \<and> set (okeys (gw_pendingInbound g)) = {iv_callId i | i. i \<in> set (gw_invites g) \<and> iv_phase i \<noteq> Finished}
    \<and> registry_inv (gw_registry g)"
proof -
  have b: "gw_book g" unfolding g_def by (rule run_book)
  have R: "c \<in> {iv_callId i | i. i \<in> set (gw_invites g) \<and> held (iv_phase i)}" if c: "c \<in> set (reservations (gw_registry g))" for c
  proof -
    obtain k where "oget (gw_pendingInbound g) c = Some k" "held (iv_phase (gw_invites g ! k))" using book_reserved [OF b] c by blast
    with book_pending [OF b] show ?thesis by force
  qed
  have held_reserved: "iv_callId i \<in> set (reservations (gw_registry g))" if "\<not> gw_stopping g" "i \<in> set (gw_invites g)" "held (iv_phase i)" for i
    using b that by (auto simp: gw_book_def book_inv_def in_set_conv_nth)
  have "c \<in> set (okeys (gw_pendingInbound g)) \<longleftrightarrow> (\<exists>i\<in>set (gw_invites g). iv_phase i \<noteq> Finished \<and> iv_callId i = c)" for c
  proof -
    have "c \<in> set (okeys (gw_pendingInbound g)) \<longleftrightarrow> (\<exists>k. oget (gw_pendingInbound g) c = Some k)"
      using ohas_keys [of "gw_pendingInbound g" c] by auto
    also have "\<dots> \<longleftrightarrow> (\<exists>i\<in>set (gw_invites g). iv_phase i \<noteq> Finished \<and> iv_callId i = c)"
      using book_pending [OF b] by (auto simp: in_set_conv_nth Bex_def)
    finally show ?thesis .
  qed
  then have "set (okeys (gw_pendingInbound g)) = {iv_callId i | i. i \<in> set (gw_invites g) \<and> iv_phase i \<noteq> Finished}"
    by (intro set_eqI) auto
  with R held_reserved gw_book_parts(2) [OF b] show ?thesis by blast
qed

subsection \<open>A sample run\<close>

definition sample_gateway_config :: gateway_config where
  "sample_gateway_config = \<lparr>DRACHTIO_HOST = ''d'', DRACHTIO_PORT = 9022, DRACHTIO_SECRET = None, DRACHTIO_APP_TAG = None,
     DRACHTIO_ROUTE_FALLBACK_URL = None, HTTP_PORT = 3001, SHUTDOWN_MAX_WAIT_MS = 1, SHUTDOWN_CLEANUP_TIMEOUT_MS = 1,
     CONTROL_WS_PATH = ''/c'', CONTROL_AUTH_MODE = NoAuth, CONTROL_AUTH_TOKEN = None, CONTROL_MAX_PAYLOAD_BYTES = 1,
     CONTROL_REQUEST_TIMEOUT_MS = 1, RTPBRIDGE_HOST = None, RTPBRIDGE_PORT = 1, RTPBRIDGE_SRV_PORT_NAME = ''ws'',
     RTPBRIDGE_REQUEST_TIMEOUT_MS = 1, RTPBRIDGE_CONNECTION_TIMEOUT_MS = 1, RTPBRIDGE_TLS = False,
     RTPBRIDGE_AUTH_HMAC_SECRET_FILE = None, RTPBRIDGE_TLS_CA_FILE = None, RTPBRIDGE_TLS_SERVERNAME = None,
     RTPBRIDGE_ENDPOINTS_FILE = None, RTPBRIDGE_ENDPOINTS_ALLOW_PLAINTEXT = False, RTPBRIDGE_REQUIRED = False,
     ROUTES_REQUIRED = False, SIP_ALLOWED_DOMAINS = None, COTURN_URLS = None, COTURN_AUTH_SECRET = None,
     COTURN_CREDENTIAL_TTL_SECONDS = 1, RECORDINGS_PATH = ''/r'', RECORDING_PATH_PREFIX = None, INVITE_HTTP_TIMEOUT_MS = 1,
     EVENT_HTTP_TIMEOUT_MS = 1, ROUTES = [\<lparr>rc_match = UserPrefix, rc_value = ''1'', rc_url = ''h''\<rparr>]\<rparr>"

definition sample_request :: sip_request where
  "sample_request = \<lparr>rq_uri = Some ''sip:12@x'', rq_callId = Some ''a'', rq_get = (\<lambda>_. None), rq_headers = [], rq_from = None,
     rq_to = None, rq_body = Some ''v'', rq_sdp = None\<rparr>"

definition sample_answer :: asked_outcome where
  "sample_answer = HttpAnswer (AxiosResponse 200 (JObj [(''action'', JStr ''answer''), (''sdp'', JStr ''o'')]))"

definition sample_reject :: asked_outcome where
  "sample_reject = HttpAnswer (AxiosResponse 200 (JObj [(''action'', JStr ''reject''), (''status'', jint 486)]))"

definition sample_calls :: "gw_event list" where
  "sample_calls = [InviteArrived empty_hub sample_request ''u'' ''t'', InviteArrived empty_hub sample_request ''u'' ''t'',
     InviteAnswered empty_hub 0 sample_reject ''t'', InviteAnswered empty_hub 1 sample_answer ''t'']"

abbreviation sample_gateway :: "gw_event list \<Rightarrow> gateway \<times> gw_output list" where
  "sample_gateway \<equiv> gateway_run sample_gateway_config (\<lambda>_. True)"

theorem invite_answered_once_witness:
  "responses 0 (snd (sample_gateway (sample_calls @ [ShutdownAsked]))) = 1
   \<and> responses 0 (snd (sample_gateway sample_calls)) = 1"
proof -
  have f: "0 < length (gw_invites (fst (sample_gateway sample_calls)))" "iv_final (gw_invites (fst (sample_gateway sample_calls)) ! 0)"
    "responses 0 (snd (sample_gateway sample_calls)) = 1" by code_simp+
  with invite_answered_once [of 0 sample_gateway_config "\<lambda>_. True" sample_calls "[ShutdownAsked]"] show ?thesis by simp
qed

section \<open>Outbound attempts\<close>

text \<open>
  The map of pending attempts has exactly those that are not over. What one step does to the attempts: none
  disappears, one that is over stays as it is but for a late request, a success ends an attempt that is not
  cancelled, and a cancelled attempt has a CANCEL for its latest request.
\<close>

definition att_inv :: "gateway \<Rightarrow> bool" where
  "att_inv g \<longleftrightarrow> owf (gw_pendingOutbound g)
     \<and> (\<forall>i k. oget (gw_pendingOutbound g) i = Some k \<longleftrightarrow>
          k < length (gw_attempts g) \<and> at_phase (gw_attempts g ! k) \<noteq> Over \<and> at_id (gw_attempts g ! k) = i)"

definition over :: "gateway \<Rightarrow> nat \<Rightarrow> bool" where
  "over g k \<longleftrightarrow> k < length (gw_attempts g) \<and> at_phase (gw_attempts g ! k) = Over"

definition cancelled :: "gateway \<Rightarrow> nat \<Rightarrow> bool" where
  "cancelled g k \<longleftrightarrow> k < length (gw_attempts g) \<and> at_cancelRequested (gw_attempts g ! k)"

definition to_cancel :: "gateway \<Rightarrow> nat \<Rightarrow> nat option" where
  "to_cancel g k = (if cancelled g k then at_request (gw_attempts g ! k) else None)"

definition replies_to :: "nat \<Rightarrow> gw_output \<Rightarrow> bool" where
  "replies_to k out \<longleftrightarrow> (case out of OutboundReply j _ \<Rightarrow> j = k | _ \<Rightarrow> False)"

definition replies :: "nat \<Rightarrow> gw_output list \<Rightarrow> nat" where
  "replies k outs = length (filter (replies_to k) outs)"

definition succeeded :: "nat \<Rightarrow> gw_output \<Rightarrow> bool" where
  "succeeded k out \<longleftrightarrow> (case out of OutboundReply j (Inr _) \<Rightarrow> j = k | _ \<Rightarrow> False)"

lemma replies_to_simps [simp]:
  "\<not> replies_to k (Respond n s x h)" "\<not> replies_to k (AskInvite n q)" "\<not> replies_to k (CreateUas n sdp h)"
  "\<not> replies_to k (Deliver d e)" "\<not> replies_to k (DeliverFailed d e)" "\<not> replies_to k (CreateUac n p)"
  "\<not> replies_to k (CancelRequest n m)" "\<not> replies_to k (DestroyDialog u n l)" "\<not> replies_to k (ModifyDialog n m sdp h)"
  "\<not> replies_to k (AskModify n q)" "\<not> replies_to k (ModifyResponse n i x b h)" "replies_to k (OutboundReply j res) \<longleftrightarrow> j = k"
  "\<not> replies_to k (TaskReply n rep)" "\<not> replies_to k Disconnect"
  by (simp_all add: replies_to_def)

lemma replies_simps [simp]:
  "replies k [] = 0" "replies k (out # outs) = of_bool (replies_to k out) + replies k outs"
  "replies k (outs @ outs') = replies k outs + replies k outs'"
  by (simp_all add: replies_def)

lemma succeeded_simps [simp]:
  "\<not> succeeded k (OutboundReply j (Inl e))" "succeeded k (OutboundReply j (Inr x)) \<longleftrightarrow> j = k"
  by (simp_all add: succeeded_def)

lemma not_succeeded: "\<not> replies_to k out \<Longrightarrow> \<not> succeeded k out"
  by (auto simp: replies_to_def succeeded_def split: gw_output.splits sum.splits)

definition att_step :: "gateway \<Rightarrow> gateway \<times> gw_output list \<Rightarrow> bool" where
  "att_step g r \<longleftrightarrow> (att_inv g \<longrightarrow> att_inv (fst r)
     \<and> (\<forall>k. over g k \<longrightarrow> over (fst r) k \<and> cancelled (fst r) k = cancelled g k)
     \<and> (\<forall>k. cancelled g k \<longrightarrow> cancelled (fst r) k)
     \<and> (\<forall>k. replies k (snd r) + of_bool (over g k) = of_bool (over (fst r) k))
     \<and> (\<forall>k. list_ex (succeeded k) (snd r) \<longrightarrow> \<not> cancelled (fst r) k)
     \<and> (\<forall>k m. to_cancel (fst r) k = Some m \<longrightarrow> to_cancel g k = Some m \<or> CancelRequest k m \<in> set (snd r)))"

text \<open>A calm step leaves the attempts alone.\<close>

definition calm :: "gateway \<Rightarrow> gateway \<times> gw_output list \<Rightarrow> bool" where
  "calm g r \<longleftrightarrow> gw_attempts (fst r) = gw_attempts g \<and> gw_pendingOutbound (fst r) = gw_pendingOutbound g
     \<and> list_all (\<lambda>out. \<forall>k. \<not> replies_to k out) (snd r)"

named_theorems calm_intros \<open>steps that leave the outbound attempts alone\<close>

lemma calm_att: "calm g r \<Longrightarrow> att_step g r"
proof -
  assume c: "calm g r"
  then have "over (fst r) = over g" "cancelled (fst r) = cancelled g" "to_cancel (fst r) = to_cancel g" "att_inv (fst r) = att_inv g"
    by (simp_all add: calm_def fun_eq_iff over_def cancelled_def to_cancel_def att_inv_def)
  moreover have "replies k (snd r) = 0" "\<not> list_ex (succeeded k) (snd r)" for k
    using c not_succeeded by (auto simp: calm_def list_all_iff list_ex_iff replies_def filter_empty_conv)
  ultimately show ?thesis by (simp add: att_step_def)
qed

lemma att_cases: "(att_inv g \<Longrightarrow> att_step g r) \<Longrightarrow> att_step g r"
  by (simp add: att_step_def)

lemma att_trans:
  assumes 1: "att_step g (g1, outs1)" and 2: "att_step g1 (g2, outs2)"
  shows "att_step g (g2, outs1 @ outs2)"
proof (rule att_cases)
  assume g: "att_inv g"
  have a: "att_inv g1" "\<And>k. over g k \<Longrightarrow> over g1 k \<and> cancelled g1 k = cancelled g k" "\<And>k. cancelled g k \<Longrightarrow> cancelled g1 k"
    "\<And>k. replies k outs1 + of_bool (over g k) = of_bool (over g1 k)"
    "\<And>k. list_ex (succeeded k) outs1 \<Longrightarrow> \<not> cancelled g1 k"
    "\<And>k m. to_cancel g1 k = Some m \<Longrightarrow> to_cancel g k = Some m \<or> CancelRequest k m \<in> set outs1"
    using 1 g by (simp_all add: att_step_def)
  have b: "att_inv g2" "\<And>k. over g1 k \<Longrightarrow> over g2 k \<and> cancelled g2 k = cancelled g1 k" "\<And>k. cancelled g1 k \<Longrightarrow> cancelled g2 k"
    "\<And>k. replies k outs2 + of_bool (over g1 k) = of_bool (over g2 k)"
    "\<And>k. list_ex (succeeded k) outs2 \<Longrightarrow> \<not> cancelled g2 k"
    "\<And>k m. to_cancel g2 k = Some m \<Longrightarrow> to_cancel g1 k = Some m \<or> CancelRequest k m \<in> set outs2"
    using 2 a(1) by (simp_all add: att_step_def)
  have "over g k \<Longrightarrow> over g2 k \<and> cancelled g2 k = cancelled g k" "cancelled g k \<Longrightarrow> cancelled g2 k" for k
    using a(2,3) b(2,3) by simp_all
  moreover have "replies k outs1 + replies k outs2 + of_bool (over g k) = of_bool (over g2 k)" for k
    using a(4) [of k] b(4) [of k] by simp
  moreover have hit: "over g1 k" if "list_ex (succeeded k) outs1" for k
  proof -
    have "replies k outs1 \<noteq> 0" using that not_succeeded by (auto simp: replies_def list_ex_iff filter_empty_conv)
    with a(4) [of k] show ?thesis by (cases "over g1 k") simp_all
  qed
  moreover have "list_ex (succeeded k) outs1 \<or> list_ex (succeeded k) outs2 \<Longrightarrow> \<not> cancelled g2 k" for k
    using a(5) [of k] b(5) [of k] b(2) [of k] hit [of k] by blast
  moreover have "to_cancel g2 k = Some m \<Longrightarrow> to_cancel g k = Some m \<or> CancelRequest k m \<in> set outs1 \<or> CancelRequest k m \<in> set outs2" for k m
    using a(6) b(6) by blast
  ultimately show "att_step g (g2, outs1 @ outs2)" using b(1) unfolding att_step_def by simp
qed

lemma att_pending:
  "att_inv g \<Longrightarrow> oget (gw_pendingOutbound g) i = Some k \<longleftrightarrow>
     k < length (gw_attempts g) \<and> at_phase (gw_attempts g ! k) \<noteq> Over \<and> at_id (gw_attempts g ! k) = i"
  by (simp add: att_inv_def)

text \<open>One attempt changes and does not end, or it is over already.\<close>

lemma att_keep:
  assumes k: "k < length (gw_attempts g)" and A: "gw_attempts (fst r) = (gw_attempts g)[k := a]"
    and P: "gw_pendingOutbound (fst r) = gw_pendingOutbound g"
    and a: "at_id a = at_id (gw_attempts g ! k)" "(at_phase a = Over) = (at_phase (gw_attempts g ! k) = Over)"
    and c: "at_cancelRequested (gw_attempts g ! k) \<Longrightarrow> at_cancelRequested a"
      "at_phase a = Over \<Longrightarrow> at_cancelRequested a = at_cancelRequested (gw_attempts g ! k)"
    and outs: "list_all (\<lambda>out. \<forall>j. \<not> replies_to j out) (snd r)"
    and m: "\<And>m. at_cancelRequested a \<Longrightarrow> at_request a = Some m \<Longrightarrow>
      (at_cancelRequested (gw_attempts g ! k) \<and> at_request (gw_attempts g ! k) = Some m) \<or> CancelRequest k m \<in> set (snd r)"
  shows "att_step g r"
proof (rule att_cases)
  assume g: "att_inv g"
  have same: "at_id ((gw_attempts g)[k := a] ! j) = at_id (gw_attempts g ! j)"
    "(at_phase ((gw_attempts g)[k := a] ! j) = Over) = (at_phase (gw_attempts g ! j) = Over)" for j
    using a k by (auto simp: nth_list_update)
  have "att_inv (fst r)" using g by (simp add: att_inv_def A P same)
  moreover have "over (fst r) = over g" using a k by (auto simp: fun_eq_iff over_def A nth_list_update)
  moreover have "cancelled (fst r) j" if "cancelled g j" for j using that c(1) k by (auto simp: cancelled_def A nth_list_update)
  moreover have "cancelled (fst r) j = cancelled g j" if "over g j" for j
    using that c(2) a k by (auto simp: cancelled_def over_def A nth_list_update)
  moreover have "replies j (snd r) = 0" "\<not> list_ex (succeeded j) (snd r)" for j
    using outs not_succeeded by (auto simp: list_all_iff list_ex_iff replies_def filter_empty_conv)
  moreover have "to_cancel g j = Some m' \<or> CancelRequest j m' \<in> set (snd r)" if "to_cancel (fst r) j = Some m'" for j m'
    using that m k by (cases "j = k") (auto simp: to_cancel_def cancelled_def A split: if_splits)
  ultimately show "att_step g r" by (simp add: att_step_def)
qed

text \<open>One attempt ends.\<close>

lemma att_end:
  assumes k: "k < length (gw_attempts g)" "at_phase (gw_attempts g ! k) \<noteq> Over"
    and r: "r = (finish_attempt k g', [OutboundReply k res])"
    and g': "gw_attempts g' = gw_attempts g" "gw_pendingOutbound g' = gw_pendingOutbound g"
    and res: "\<And>x. res = Inr x \<Longrightarrow> \<not> at_cancelRequested (gw_attempts g ! k)"
  shows "att_step g r"
proof (rule att_cases)
  assume g: "att_inv g"
  let ?a = "gw_attempts g ! k"
  have at: "oget (gw_pendingOutbound g) (at_id ?a) = Some k" using att_pending [OF g] k by simp
  have A: "gw_attempts (fst r) = (gw_attempts g)[k := ?a\<lparr>at_phase := Over\<rparr>]"
    and P: "gw_pendingOutbound (fst r) = odel (at_id ?a) (gw_pendingOutbound g)"
    using at g' by (simp_all add: r finish_attempt_def set_attempt_def Let_def)
  have uniq: "j = k" if "j < length (gw_attempts g)" "at_phase (gw_attempts g ! j) \<noteq> Over" "at_id (gw_attempts g ! j) = at_id ?a" for j
  proof -
    have "oget (gw_pendingOutbound g) (at_id ?a) = Some j" unfolding att_pending [OF g] using that by simp
    with at show ?thesis by simp
  qed
  have "att_inv (fst r)"
    unfolding att_inv_def
  proof (intro conjI allI)
    show "owf (gw_pendingOutbound (fst r))" using g by (simp add: att_inv_def P)
    fix i j
    show "oget (gw_pendingOutbound (fst r)) i = Some j \<longleftrightarrow> j < length (gw_attempts (fst r))
        \<and> at_phase (gw_attempts (fst r) ! j) \<noteq> Over \<and> at_id (gw_attempts (fst r) ! j) = i"
      using att_pending [OF g, of i j] uniq [of j] k by (auto simp: A P nth_list_update)
  qed
  moreover have "over (fst r) j \<longleftrightarrow> over g j \<or> j = k" for j using k by (auto simp: over_def A nth_list_update)
  moreover have "cancelled (fst r) = cancelled g" using k by (auto simp: fun_eq_iff cancelled_def A nth_list_update)
  moreover have "to_cancel (fst r) = to_cancel g" using k by (auto simp: fun_eq_iff to_cancel_def cancelled_def A nth_list_update)
  moreover have "\<not> over g k" using k by (simp add: over_def)
  moreover have "list_ex (succeeded j) (snd r) \<Longrightarrow> \<not> cancelled g j" for j
    using res by (cases res) (auto simp: r cancelled_def)
  ultimately show "att_step g r" by (auto simp: att_step_def r)
qed

text \<open>A new attempt, pending or over at once.\<close>

lemma att_new_over:
  assumes "at_phase a = Over" "\<not> at_cancelRequested a"
  shows "att_step g (g\<lparr>gw_attempts := gw_attempts g @ [a]\<rparr>, [OutboundReply (length (gw_attempts g)) (Inl e)])"
proof (rule att_cases)
  assume g: "att_inv g"
  let ?g = "g\<lparr>gw_attempts := gw_attempts g @ [a]\<rparr>"
  have "att_inv ?g" using g assms by (auto simp: att_inv_def nth_append less_Suc_eq)
  moreover have "over ?g k \<longleftrightarrow> over g k \<or> k = length (gw_attempts g)" "cancelled ?g k = cancelled g k" "to_cancel ?g k = to_cancel g k" for k
    using assms by (auto simp: over_def cancelled_def to_cancel_def nth_append less_Suc_eq)
  moreover have "\<not> over g (length (gw_attempts g))" by (simp add: over_def)
  ultimately show "att_step g (?g, [OutboundReply (length (gw_attempts g)) (Inl e)])" by (auto simp: att_step_def)
qed

lemma att_new_pending:
  assumes a: "at_phase a \<noteq> Over" "\<not> at_cancelRequested a" "at_id a = i" and i: "\<not> ohas (gw_pendingOutbound g) i"
  shows "att_step g (g\<lparr>gw_attempts := gw_attempts g @ [a], gw_pendingOutbound := oset i (length (gw_attempts g)) (gw_pendingOutbound g)\<rparr>,
    [CreateUac n p])" (is "att_step g (?g, _)")
proof (rule att_cases)
  assume g: "att_inv g"
  have free: "at_id (gw_attempts g ! k) \<noteq> i" if "k < length (gw_attempts g)" "at_phase (gw_attempts g ! k) \<noteq> Over" for k
    using att_pending [OF g, of i k] i that by auto
  have "att_inv ?g" using g a free by (auto simp: att_inv_def nth_append less_Suc_eq)
  moreover have "over ?g = over g" "cancelled ?g = cancelled g" "to_cancel ?g = to_cancel g"
    using a by (auto simp: fun_eq_iff over_def cancelled_def to_cancel_def nth_append less_Suc_eq)
  ultimately show "att_step g (?g, [CreateUac n p])" by (simp add: att_step_def succeeded_def)
qed

lemma createOutbound_att: "att_step g (createOutbound p uuid g)"
  unfolding createOutbound_def Let_def new_attempt_def
  by (auto intro!: att_new_over att_new_pending split: option.split)

lemma request_sent_att: "att_step g (request_sent k x y g)"
proof (cases "k < length (gw_attempts g) \<and> sent_request x y \<noteq> None")
  case True
  then obtain m where m: "sent_request x y = Some m" by auto
  show ?thesis
    using True m
    by (intro att_keep [where k = k and a = "(gw_attempts g ! k)\<lparr>at_request := Some m\<rparr>"]) (auto simp: request_sent_def set_attempt_def)
next
  case False
  then show ?thesis by (intro calm_att) (auto simp: request_sent_def calm_def split: option.split)
qed

lemma uac_settled_att: "att_step g (uac_settled k out uuid now g)"
proof (cases "k < length (gw_attempts g) \<and> at_phase (gw_attempts g ! k) = Dialing")
  case True
  then have k: "k < length (gw_attempts g)" "at_phase (gw_attempts g ! k) \<noteq> Over" by simp_all
  show ?thesis
  proof (cases out)
    case (UacFailed m)
    with True show ?thesis by (intro att_end [OF k]) (auto simp: uac_settled_def Let_def)
  next
    case (UacAnswered d sip lsdp rsdp)
    show ?thesis
    proof (cases "at_cancelRequested (gw_attempts g ! k) \<or> gw_stopping g")
      case stop: True
      with True UacAnswered k show ?thesis
        by (intro att_keep [where k = k and a = "(gw_attempts g ! k)\<lparr>at_phase := Dropping\<rparr>"])
          (auto simp: uac_settled_def Let_def set_attempt_def)
    next
      case False
      obtain reg c where "reserveCallId (gw_registry g) uuid sip = Some (reg, c)"
        using reserve_shape [of "gw_registry g" uuid sip] by auto
      with True False UacAnswered show ?thesis
        by (intro att_end [OF k, where g' = "g\<lparr>gw_registry := activate reg (outbound_call (gw_attempts g ! k) d c sip lsdp rsdp now),
            gw_dialogs := (d, c) # gw_dialogs g\<rparr>"]) (auto simp: uac_settled_def Let_def)
    qed
  qed
next
  case False
  then show ?thesis by (intro calm_att) (auto simp: uac_settled_def calm_def Let_def)
qed

lemma drop_done_att: "att_step g (drop_done k failure g)"
proof (cases "k < length (gw_attempts g) \<and> at_phase (gw_attempts g ! k) = Dropping")
  case True
  then show ?thesis by (intro att_end [of k]) (auto simp: drop_done_def)
next
  case False
  then show ?thesis by (intro calm_att) (auto simp: drop_done_def calm_def)
qed

lemma cancelOutbound_att: "att_step g (cancelOutbound i c g)"
proof (cases "oget (gw_pendingOutbound g) i")
  case None
  then show ?thesis by (intro calm_att) (simp add: cancelOutbound_def calm_def new_task_def)
next
  case (Some k)
  show ?thesis
  proof (rule att_cases)
    assume g: "att_inv g"
    from att_pending [OF g] Some have k: "k < length (gw_attempts g)" "at_phase (gw_attempts g ! k) \<noteq> Over" by simp_all
    show "att_step g (cancelOutbound i c g)"
    proof (cases "op_controlConnectionId (at_params (gw_attempts g ! k)) \<noteq> c \<or> at_cancelRequested (gw_attempts g ! k)")
      case True
      with Some show ?thesis by (intro calm_att) (auto simp: cancelOutbound_def calm_def new_task_def Let_def)
    next
      case False
      with Some k show ?thesis
        by (intro att_keep [where k = k and a = "(gw_attempts g ! k)\<lparr>at_cancelRequested := True\<rparr>"])
          (auto simp: cancelOutbound_def new_task_def set_attempt_def Let_def split: option.split)
    qed
  qed
qed

subsection \<open>Calm steps\<close>

lemma calm_trans: "calm g (g1, outs1) \<Longrightarrow> calm g1 (g2, outs2) \<Longrightarrow> calm g (g2, outs1 @ outs2)"
  by (simp add: calm_def)

lemma calm_bind:
  assumes "calm g r" and "calm (fst r) (f (fst r))"
  shows "calm g (case r of (g1, out) \<Rightarrow> (case f g1 of (g2, outs) \<Rightarrow> (g2, out @ outs)))"
  using assms calm_trans [of g "fst r" "snd r" "fst (f (fst r))" "snd (f (fst r))"] by (simp add: case_prod_beta)

lemma handleInvite_calm [calm_intros]: "calm g (handleInvite cfg h req uuid now g)"
  by (simp add: calm_def handleInvite_def handleAdmittedInvite_def refuse_def start_invite_def Let_def
      split: option.split prod.split)

lemma fail_rest_calm: "calm g (fail_rest cfg h k e a now g)"
  by (simp add: calm_def fail_rest_def finish_invite_def set_invite_def Let_def)

lemma fail_invite_calm: "calm g (fail_invite cfg h k e a d now g)"
  by (simp add: calm_def fail_invite_def fail_rest_def finish_invite_def set_invite_def with_registry_def Let_def split: option.split)

lemma calm_same: "gw_attempts g = gw_attempts g' \<Longrightarrow> gw_pendingOutbound g = gw_pendingOutbound g' \<Longrightarrow> calm g r = calm g' r"
  by (simp add: calm_def)

lemma set_invite_calm: "calm (set_invite k f g) r = calm g r"
  by (rule calm_same) (simp_all add: set_invite_def)

lemma invite_answered_calm [calm_intros]: "calm g (invite_answered cfg vu h k out now g)"
  using fail_invite_calm [of g cfg h k _ "[]" None now]
  by (simp add: invite_answered_def Let_def split: sum.split sip_action.split)
    (simp add: calm_def finish_invite_def set_invite_def with_registry_def)

lemma uas_settled_calm [calm_intros]: "calm g (uas_settled cfg h k out now g)"
proof -
  have f: "calm g (fail_invite cfg h k e a d now (set_invite k u g))" for e a d u
    using fail_invite_calm [of "set_invite k u g"] by (simp add: set_invite_calm)
  show ?thesis
    by (simp add: uas_settled_def f Let_def split: invite_phase.split uas_outcome.split)
      (simp add: calm_def finish_invite_def set_invite_def with_registry_def)
qed

lemma undo_done_calm [calm_intros]: "calm g (undo_done cfg h k now g)"
  by (simp add: undo_done_def fail_rest_calm split: invite_phase.split) (simp add: calm_def)

lemma bye_calm [calm_intros]: "calm g (bye c reason hs g)"
  by (simp add: calm_def bye_def new_task_def Let_def split: option.split)

lemma bye_all_calm: "calm g (bye_all cs g)"
proof (induction cs arbitrary: g)
  case (Cons c cs)
  then show ?case unfolding bye_all.simps by (intro calm_bind [where f = "bye_all cs"] bye_calm)
qed (simp add: calm_def)

lemma end_all_calm: "calm g (end_all cs g)"
proof (induction cs arbitrary: g)
  case (Cons c cs)
  from Cons [of "g\<lparr>gw_tasks := gw_tasks g @ [EndTask c]\<rparr>"] show ?case
    by (auto simp: calm_def new_task_def split: prod.splits)
qed (simp add: calm_def)

lemma refuse_pending_calm: "calm g (refuse_pending ps g)"
proof (induction ps arbitrary: g)
  case (Cons p ps)
  obtain c k where p: "p = (c, k)" by (cases p)
  let ?g = "with_registry (\<lambda>r. releaseReservation r c) (set_invite k (\<lambda>i. i\<lparr>iv_final := True\<rparr>) g)"
  from Cons [of ?g] show ?case
    by (auto simp: calm_def p Let_def with_registry_def set_invite_def split: prod.splits)
qed (simp add: calm_def)

lemma report_end_calm: "calm g (report_end cfg h c kind reason hs now g)"
  by (simp add: calm_def report_end_def Let_def split: prod.split option.split)

lemma dialog_destroyed_calm [calm_intros]: "calm g (dialog_destroyed cfg h d msg now g)"
  by (simp add: dialog_destroyed_def report_end_calm split: option.split) (simp add: calm_def)

lemma settle_calm: "calm (settle t g) r = calm g r"
  by (rule calm_same) (simp_all add: settle_def)

lemma task_destroyed_calm [calm_intros]: "calm g (task_destroyed cfg h t failure now g)"
proof -
  have "calm g (case report_end cfg h c ''terminated'' reason hs now (settle t g) of (g', outs) \<Rightarrow> (g', outs @ [TaskReply t ReplyOk]))"
    for c reason hs
    using report_end_calm [of "settle t g" cfg h c "''terminated''" reason hs now]
    by (auto simp: calm_def settle_def split: prod.splits)
  then show ?thesis
    by (simp add: task_destroyed_def Let_def split: task.split option.split) (simp add: calm_def settle_def)
qed

lemma other_calm [calm_intros]:
  "calm g (cancel_settled t g)" "calm g (reinvite c sdp hs g)" "calm g (reinvite_settled t out2 now g)"
  "calm g (handleRemoteModify cfg h d req now g)" "calm g (modify_answered vu t out3 now g)" "calm g (g, [])"
  "calm g (g\<lparr>gw_connected := b\<rparr>, [])" "calm g (g\<lparr>gw_draining := b\<rparr>, [])"
  by (simp_all add: calm_def cancel_settled_def settle_def reinvite_def new_task_def reinvite_settled_def with_registry_def
      handleRemoteModify_def modify_answered_def Let_def split: option.split sum.split task.split sip_action.split)

subsection \<open>Every step\<close>

lemma att_bind:
  assumes "att_step g r" and "att_step (fst r) (f (fst r))"
  shows "att_step g (case r of (g1, out) \<Rightarrow> (case f g1 of (g2, outs) \<Rightarrow> (g2, out @ outs)))"
  using assms att_trans [of g "fst r" "snd r" "fst (f (fst r))" "snd (f (fst r))"] by (simp add: case_prod_beta)

lemma cancel_all_att: "att_step g (cancel_all ps g)"
proof (induction ps arbitrary: g)
  case (Cons p ps)
  obtain i k where p: "p = (i, k)" by (cases p)
  from Cons.IH show ?case
    unfolding p cancel_all.simps by (intro att_bind [where f = "cancel_all ps"] cancelOutbound_att)
qed (simp add: calm_att calm_def)

lemma terminate_att: "att_step g (terminateCallsForControlConnection c g)"
proof -
  define mine where "mine = filter (\<lambda>(i, k). op_controlConnectionId (at_params (gw_attempts g ! k)) = Some c) (gw_pendingOutbound g)"
  obtain g1 outs where 1: "cancel_all mine g = (g1, outs)" by fastforce
  define ids where "ids = map ac_callId (filter (\<lambda>x. ac_controlConnectionId x = Some c) (map snd (calls (gw_registry g1))))"
  obtain reg removed where 2: "remove_calls ids (gw_registry g1) = (reg, removed)" by fastforce
  obtain g2 outs' where 3: "end_all removed (g1\<lparr>gw_registry := reg\<rparr>) = (g2, outs')" by fastforce
  have q1: "att_step g (g1, outs)" using cancel_all_att [of g mine] 1 by simp
  have "calm g1 (end_all removed (g1\<lparr>gw_registry := reg\<rparr>))"
    using end_all_calm [of "g1\<lparr>gw_registry := reg\<rparr>" removed] by (simp add: calm_def)
  then have q2: "att_step g1 (g2, outs')" using calm_att 3 by simp
  have "terminateCallsForControlConnection c g = (g2, outs @ outs')"
    using 1 2 3 by (simp add: terminateCallsForControlConnection_def mine_def [symmetric] ids_def [symmetric])
  then show ?thesis using att_trans [OF q1 q2] by simp
qed

lemma shutdown_att: "att_step g (shutdown g)"
proof -
  let ?g0 = "g\<lparr>gw_draining := True, gw_stopping := True\<rparr>"
  obtain g1 outs1 where 1: "refuse_pending (gw_pendingInbound ?g0) ?g0 = (g1, outs1)" by fastforce
  obtain g2 outs2 where 2: "cancel_all (gw_pendingOutbound g1) g1 = (g2, outs2)" by fastforce
  obtain g3 outs3 where 3: "bye_all (map ac_callId (map snd (calls (gw_registry g2)))) g2 = (g3, outs3)" by fastforce
  define g4 where "g4 = g3\<lparr>gw_closing := Some (map snd (gw_pendingOutbound g1), [length (gw_tasks g) ..< length (gw_tasks g3)])\<rparr>"
  have s1: "att_step g (g1, outs1)"
    using refuse_pending_calm [of ?g0 "gw_pendingInbound ?g0"] 1 by (intro calm_att) (simp add: calm_def)
  have s2: "att_step g1 (g2, outs2)" using cancel_all_att [of g1 "gw_pendingOutbound g1"] 2 by simp
  have s3: "att_step g2 (g4, outs3)"
  proof (rule calm_att)
    have "calm g2 (g3, outs3)" using bye_all_calm 3 by metis
    then show "calm g2 (g4, outs3)" by (simp add: calm_def g4_def)
  qed
  have "shutdown g = (g4, outs1 @ outs2 @ outs3)" using 1 2 3 by (simp add: shutdown_def g4_def Let_def)
  with att_trans [OF s1 att_trans [OF s2 s3]] show ?thesis by simp
qed

lemma close_att: "att_step g r \<Longrightarrow> att_step g (close_when_ready r)"
proof -
  assume r: "att_step g r"
  have "att_step (fst r) ((fst r)\<lparr>gw_closing := None, gw_connected := False\<rparr>, [Disconnect])"
    by (intro calm_att) (simp add: calm_def)
  with r att_trans [of g "fst r" "snd r"] show ?thesis
    by (auto simp: close_when_ready_def split: prod.split)
qed

lemma step_att: "att_step g (gateway_step cfg vu g e)"
proof -
  have "att_step g (gateway_handler cfg vu g e)"
    by (cases e) (simp_all add: calm_att calm_intros createOutbound_att request_sent_att uac_settled_att drop_done_att
        cancelOutbound_att terminate_att shutdown_att)
  then show ?thesis unfolding gateway_step_def by (rule close_att)
qed

interpretation reply: single_shot "gateway_step cfg vu" att_inv "\<lambda>g. of_bool (over g k)" "replies k" "\<lambda>_. False" for cfg vu k
proof
  show "att_inv g \<Longrightarrow> att_inv (fst (gateway_step cfg vu g e))" for g e
    using step_att [of g cfg vu e] by (simp add: att_step_def)
  have r: "att_inv g \<Longrightarrow> replies k (snd (gateway_step cfg vu g e)) + of_bool (over g k) = of_bool (over (fst (gateway_step cfg vu g e)) k)" for g e
    using step_att [of g cfg vu e] unfolding att_step_def by blast
  show "att_inv g \<Longrightarrow> replies k (snd (gateway_step cfg vu g e)) + of_bool (over g k) \<le> of_bool (over (fst (gateway_step cfg vu g e)) k)" for g e
    using r [of g e] by simp
  show "att_inv g \<Longrightarrow> of_bool (over (fst (gateway_step cfg vu g e)) k) \<le> replies k (snd (gateway_step cfg vu g e)) + of_bool (over g k) + of_bool False" for g e
    using r [of g e] by simp
qed simp_all

lemma new_gateway_att: "att_inv new_gateway"
  by (simp add: att_inv_def new_gateway_def)

lemma run_att: "att_inv g \<Longrightarrow> att_step g (steps (gateway_step cfg vu) g es)"
proof (induction es arbitrary: g)
  case Nil
  then show ?case by (simp add: calm_att calm_def)
next
  case (Cons e es)
  let ?r = "gateway_step cfg vu g e"
  have "att_inv (fst ?r)" using step_att [of g cfg vu e] Cons.prems by (simp add: att_step_def)
  then have "att_step (fst ?r) (steps (gateway_step cfg vu) (fst ?r) es)" by (rule Cons.IH)
  then show ?case
    using att_bind [OF step_att, where f = "\<lambda>g. steps (gateway_step cfg vu) g es"] by (simp add: case_prod_beta)
qed

text \<open>
  Every outbound attempt gets exactly one reply, at the moment it is over and never before; the map of
  pending attempts has exactly the attempts that are not over.
\<close>

theorem outbound_settled_once:
  fixes cfg vu and es :: "gw_event list"
  defines "r \<equiv> gateway_run cfg vu es"
  shows "replies k (snd r) = (if over (fst r) k then 1 else 0)
    \<and> set (map snd (gw_pendingOutbound (fst r))) = {k. k < length (gw_attempts (fst r)) \<and> \<not> over (fst r) k}"
proof -
  have s: "att_step new_gateway r" unfolding r_def by (rule run_att [OF new_gateway_att])
  then have a: "att_inv (fst r)" using new_gateway_att by (simp add: att_step_def)
  have "replies k (snd r) + of_bool (over new_gateway k) = of_bool (over (fst r) k)"
    using s new_gateway_att unfolding att_step_def by blast
  moreover have "\<not> over new_gateway k" by (simp add: over_def new_gateway_def)
  moreover have "j \<in> set (map snd (gw_pendingOutbound (fst r))) \<longleftrightarrow> j < length (gw_attempts (fst r)) \<and> \<not> over (fst r) j" for j
  proof -
    have owf: "owf (gw_pendingOutbound (fst r))" using a by (simp add: att_inv_def)
    have "j \<in> set (map snd (gw_pendingOutbound (fst r))) \<longleftrightarrow> (\<exists>i. oget (gw_pendingOutbound (fst r)) i = Some j)"
      using oget_iff [OF owf] by (auto simp: image_iff) force
    also have "\<dots> \<longleftrightarrow> j < length (gw_attempts (fst r)) \<and> \<not> over (fst r) j"
      by (auto simp: att_pending [OF a] over_def)
    finally show ?thesis .
  qed
  ultimately show ?thesis by (simp add: set_eq_iff)
qed


definition sample_outbound :: outbound_params where
  "sample_outbound = \<lparr>op_requestUri = ''sip:1@y'', op_sdp = ''o'', op_headers = None, op_receiverUrl = None,
     op_controlConnectionId = Some ''c'', op_callingNumber = None, op_callingName = None, op_proxy = None,
     op_outboundAttemptId = Some ''a'', op_auth = None\<rparr>"


end
