(* ===== verification/GatewayCalls.thy ===== *)
theory GatewayCalls
  imports GatewayRuns
begin

text \<open>
  What holds in every run of the SIP gateway for its calls: their ends are reported once, the shutdown
  leaves nothing behind, the owner of a call, and the delays between attempts to reach drachtio.
\<close>

section \<open>The end of a call\<close>

text \<open>
  A call is set up when the answer of its INVITE is reported or when its outbound attempt succeeds. Its end is
  reported by an event. In between it is active, or its owner is gone and its dialog is being destroyed.
\<close>

definition is_setup :: "string \<Rightarrow> gw_output \<Rightarrow> bool" where
  "is_setup c out \<longleftrightarrow> (case out of Deliver _ e \<Rightarrow> fu_event e = ''answered'' \<and> fu_callId e = c
     | OutboundReply _ (Inr (i, _, _)) \<Rightarrow> i = c | _ \<Rightarrow> False)"

definition is_end :: "string \<Rightarrow> gw_output \<Rightarrow> bool" where
  "is_end c out \<longleftrightarrow> (case out of Deliver _ e \<Rightarrow> fu_event e \<noteq> ''answered'' \<and> fu_callId e = c | _ \<Rightarrow> False)"

definition setups :: "string \<Rightarrow> gw_output list \<Rightarrow> nat" where
  "setups c outs = length (filter (is_setup c) outs)"

definition ends :: "string \<Rightarrow> gw_output list \<Rightarrow> nat" where
  "ends c outs = length (filter (is_end c) outs)"

fun ending :: "string \<Rightarrow> task \<Rightarrow> bool" where
  "ending c (EndTask call) = (ac_callId call = c)"
| "ending c t = False"

definition in_progress :: "string \<Rightarrow> gateway \<Rightarrow> nat" where
  "in_progress c g = of_bool (ohas (calls (gw_registry g)) c) + length (filter (ending c) (gw_tasks g))"

lemma tally_simps [simp]:
  "setups c [] = 0" "setups c (out # outs) = of_bool (is_setup c out) + setups c outs"
  "setups c (outs @ outs') = setups c outs + setups c outs'"
  "ends c [] = 0" "ends c (out # outs) = of_bool (is_end c out) + ends c outs"
  "ends c (outs @ outs') = ends c outs + ends c outs'"
  by (simp_all add: setups_def ends_def)

lemma silent [simp]:
  "\<not> is_setup c (Respond n s x h)" "\<not> is_setup c (AskInvite n q)" "\<not> is_setup c (CreateUas n sdp h)"
  "\<not> is_setup c (DeliverFailed d e)" "\<not> is_setup c (CreateUac n p)" "\<not> is_setup c (CancelRequest n m)"
  "\<not> is_setup c (DestroyDialog u n l)" "\<not> is_setup c (ModifyDialog n m sdp h)" "\<not> is_setup c (AskModify n q)"
  "\<not> is_setup c (ModifyResponse n i x b h)" "\<not> is_setup c (OutboundReply n (Inl er))" "\<not> is_setup c (TaskReply n rep)"
  "\<not> is_setup c Disconnect" "is_setup c (OutboundReply n (Inr (i1, y, z))) \<longleftrightarrow> i1 = c"
  "\<not> is_end c (Respond n s x h)" "\<not> is_end c (AskInvite n q)" "\<not> is_end c (CreateUas n sdp h)"
  "\<not> is_end c (DeliverFailed d e)" "\<not> is_end c (CreateUac n p)" "\<not> is_end c (CancelRequest n m)"
  "\<not> is_end c (DestroyDialog u n l)" "\<not> is_end c (ModifyDialog n m sdp h)" "\<not> is_end c (AskModify n q)"
  "\<not> is_end c (ModifyResponse n i x b h)" "\<not> is_end c (OutboundReply n res)" "\<not> is_end c (TaskReply n rep)"
  "\<not> is_end c Disconnect"
  by (simp_all add: is_setup_def is_end_def)

lemma tally_deliver [simp]:
  "is_setup c (Deliver d (answered_event call sdp st hs now)) \<longleftrightarrow> ac_callId call = c"
  "\<not> is_end c (Deliver d (answered_event call sdp st hs now))"
  "is_setup c (Deliver d (end_event kind i sip reason hs now)) \<longleftrightarrow> kind = ''answered'' \<and> i = c"
  "is_end c (Deliver d (end_event kind i sip reason hs now)) \<longleftrightarrow> kind \<noteq> ''answered'' \<and> i = c"
  by (simp_all add: is_setup_def is_end_def answered_event_def end_event_def)

definition tally :: "gateway \<Rightarrow> gateway \<times> gw_output list \<Rightarrow> bool" where
  "tally g r \<longleftrightarrow> (registry_inv (gw_registry g) \<longrightarrow>
     (\<forall>c. ends c (snd r) + in_progress c (fst r) \<le> setups c (snd r) + in_progress c g))"

lemma tally_trans:
  assumes "tally g (g1, outs1)" and "registry_inv (gw_registry g) \<longrightarrow> registry_inv (gw_registry g1)" and "tally g1 (g2, outs2)"
  shows "tally g (g2, outs1 @ outs2)"
  unfolding tally_def
proof (intro impI allI)
  fix c assume r: "registry_inv (gw_registry g)"
  with assms have "ends c outs1 + in_progress c g1 \<le> setups c outs1 + in_progress c g"
    "ends c outs2 + in_progress c g2 \<le> setups c outs2 + in_progress c g1" by (auto simp: tally_def)
  then show "ends c (snd (g2, outs1 @ outs2)) + in_progress c (fst (g2, outs1 @ outs2)) \<le> setups c (snd (g2, outs1 @ outs2)) + in_progress c g"
    by simp
qed

text \<open>Nothing is reported, no call appears and no dialog of a lost owner is added.\<close>

definition unheard :: "gateway \<Rightarrow> gateway \<times> gw_output list \<Rightarrow> bool" where
  "unheard g r \<longleftrightarrow> (\<forall>c. ohas (calls (gw_registry (fst r))) c \<longrightarrow> ohas (calls (gw_registry g)) c)
     \<and> (\<forall>c. length (filter (ending c) (gw_tasks (fst r))) \<le> length (filter (ending c) (gw_tasks g)))
     \<and> (\<forall>c. ends c (snd r) = 0)"

lemma unheard_tally: "unheard g r \<Longrightarrow> tally g r"
  unfolding unheard_def tally_def in_progress_def
proof (intro impI allI, elim conjE)
  fix c
  assume 1: "\<forall>c. ohas (calls (gw_registry (fst r))) c \<longrightarrow> ohas (calls (gw_registry g)) c"
    and 2: "\<forall>c. length (filter (ending c) (gw_tasks (fst r))) \<le> length (filter (ending c) (gw_tasks g))"
    and 3: "\<forall>c. ends c (snd r) = 0"
  from 1 have "(of_bool (ohas (calls (gw_registry (fst r))) c) :: nat) \<le> of_bool (ohas (calls (gw_registry g)) c)" by simp
  with 2 3 show "ends c (snd r) + (of_bool (ohas (calls (gw_registry (fst r))) c) + length (filter (ending c) (gw_tasks (fst r))))
      \<le> setups c (snd r) + (of_bool (ohas (calls (gw_registry g)) c) + length (filter (ending c) (gw_tasks g)))"
    by (simp add: add_le_mono trans_le_add2)
qed

lemma count_update: "t < length xs \<Longrightarrow> \<not> P y \<Longrightarrow> length (filter P (xs[t := y])) + of_bool (P (xs ! t)) = length (filter P xs)"
proof (induction xs arbitrary: t)
  case (Cons x xs)
  then show ?case by (cases t) auto
qed simp

lemma count_settled [simp]: "length (filter (ending c) (xs[t := Settled])) \<le> length (filter (ending c) xs)"
proof (cases "t < length xs")
  case True
  have "\<not> ending c Settled" by simp
  from count_update [OF True, of "ending c", OF this] show ?thesis by simp
qed (simp add: list_update_beyond)

lemma settle_tasks [simp]: "gw_tasks (settle t g) = (gw_tasks g)[t := Settled]"
  by (simp add: settle_def)

lemma settle_calls [simp]: "gw_registry (settle t g) = gw_registry g"
  by (simp add: settle_def)

lemma reserve_calls: "reserveCallId r uuid sip = Some (r', c) \<Longrightarrow> calls r' = calls r"
  using reserve_shape [of r uuid sip] by auto

lemma remove_has: "ohas (calls (fst (remove_call r c))) i \<longleftrightarrow> ohas (calls r) i \<and> i \<noteq> c"
  by (auto simp: remove_call_def split: option.splits)

lemma release_calls [simp]: "calls (releaseReservation r c) = calls r"
  by (simp add: releaseReservation_def)

lemma updateSdp_has [simp]:
  "(\<exists>y. oget (calls (fst (updateSdp r i l m now))) c = Some y) \<longleftrightarrow> (\<exists>y. oget (calls r) c = Some y)"
  by (auto simp: updateSdp_def Let_def split: option.splits)

lemma handleInvite_unheard: "unheard g (handleInvite cfg h req uuid now g)"
  by (simp add: unheard_def handleInvite_def handleAdmittedInvite_def refuse_def start_invite_def reserve_calls Let_def
      split: option.split prod.split)

lemma fail_rest_unheard: "unheard g (fail_rest cfg h k e a now g)"
  by (simp add: unheard_def fail_rest_def finish_invite_def set_invite_def Let_def)

lemma unheard_smaller:
  assumes "\<And>c. ohas (calls (gw_registry g')) c \<Longrightarrow> ohas (calls (gw_registry g)) c" and "gw_tasks g' = gw_tasks g" and "unheard g' r"
  shows "unheard g r"
  using assms by (simp add: unheard_def)

lemma fail_invite_unheard: "unheard g (fail_invite cfg h k e a d now (set_invite k f g))"
proof -
  let ?c = "iv_callId (gw_invites (set_invite k f g) ! k)"
  let ?g = "with_registry (\<lambda>r. releaseReservation (fst (remove_call r ?c)) ?c) (set_invite k f g)"
  have less: "ohas (calls (gw_registry g)) c" if "ohas (calls (gw_registry ?g)) c" for c
    using that remove_has [of "gw_registry g"] by (simp add: with_registry_def set_invite_def)
  have tasks: "gw_tasks ?g = gw_tasks g" by (simp add: with_registry_def set_invite_def)
  show ?thesis
  proof (cases d)
    case None
    then show ?thesis
      using unheard_smaller [OF less tasks fail_rest_unheard] by (simp add: fail_invite_def Let_def)
  next
    case (Some d)
    have "unheard ?g (set_invite k (\<lambda>i. i\<lparr>iv_phase := Undoing e a\<rparr>) ?g, [DestroyDialog (UndoInvite k) d []])"
      by (simp add: unheard_def set_invite_def)
    with Some show ?thesis
      using unheard_smaller [OF less tasks] by (simp add: fail_invite_def Let_def)
  qed
qed

lemma set_invite_id: "set_invite k (\<lambda>i. i) g = g"
  by (simp add: set_invite_def)

lemma invite_answered_unheard: "unheard g (invite_answered cfg vu h k out now g)"
  using fail_invite_unheard [of g cfg h k _ "[]" None now "\<lambda>i. i"]
  by (simp add: set_invite_id invite_answered_def Let_def split: sum.split sip_action.split)
    (simp add: unheard_def finish_invite_def set_invite_def with_registry_def)

lemma undo_done_unheard: "unheard g (undo_done cfg h k now g)"
  by (simp add: undo_done_def fail_rest_unheard split: invite_phase.split) (simp add: unheard_def)

lemma activate_has: "ohas (calls (activate r call)) c \<longleftrightarrow> ohas (calls r) c \<or> c = ac_callId call"
  by (simp add: activate_def Let_def)

text \<open>A call appears, and its set-up is reported.\<close>

lemma setup_tally:
  assumes "calls (gw_registry (fst r)) = calls (activate reg call)" and "calls reg = calls (gw_registry g)" and "gw_tasks (fst r) = gw_tasks g"
    and "\<And>c. ends c (snd r) = 0" and "\<And>c. setups c (snd r) = of_bool (ac_callId call = c)"
  shows "tally g r"
proof -
  have "ohas (calls (gw_registry (fst r))) c \<longleftrightarrow> ohas (calls (gw_registry g)) c \<or> c = ac_callId call" for c
    using assms(1,2) activate_has [of reg call c] by simp
  then show ?thesis using assms(3,4,5) by (auto simp: tally_def in_progress_def)
qed

lemma uas_settled_tally: "tally g (uas_settled cfg h k out now g)"
proof -
  have f: "tally g (fail_invite cfg h k e a d now (set_invite k u g))" for e a d u
    by (rule unheard_tally [OF fail_invite_unheard])
  have none: "tally g (g, [])" by (rule unheard_tally) (simp add: unheard_def)
  have "tally g (finish_invite k ((with_registry (\<lambda>reg. activate reg (inbound_call iv d sdp rc now)) (set_invite k f g))\<lparr>gw_dialogs := ds\<rparr>),
      [Deliver x (answered_event (inbound_call iv d sdp rc now) sdp st hs now)])" for iv d sdp rc f ds x st hs
    by (rule setup_tally [where reg = "gw_registry g" and call = "inbound_call iv d sdp rc now"])
      (simp_all add: finish_invite_def with_registry_def set_invite_def)
  then show ?thesis
    by (simp add: uas_settled_def f none Let_def split: invite_phase.split uas_outcome.split)
qed

lemma finish_attempt_tasks [simp]: "gw_tasks (finish_attempt k g) = gw_tasks g"
  by (simp add: finish_attempt_def set_attempt_def Let_def)

lemma uac_settled_tally: "tally g (uac_settled k out uuid now g)"
proof (cases "\<exists>d sip l m reg c. k < length (gw_attempts g) \<and> at_phase (gw_attempts g ! k) = Dialing \<and> out = UacAnswered d sip l m
    \<and> \<not> at_cancelRequested (gw_attempts g ! k) \<and> \<not> gw_stopping g \<and> reserveCallId (gw_registry g) uuid sip = Some (reg, c)")
  case True
  then obtain d sip l m reg c where f: "k < length (gw_attempts g)" "at_phase (gw_attempts g ! k) = Dialing" "out = UacAnswered d sip l m"
    "\<not> at_cancelRequested (gw_attempts g ! k)" "\<not> gw_stopping g" and r: "reserveCallId (gw_registry g) uuid sip = Some (reg, c)" by blast
  show ?thesis
    by (rule setup_tally [where reg = reg and call = "outbound_call (gw_attempts g ! k) d c sip l m now"])
      (use f r in \<open>simp_all add: uac_settled_def reserve_calls\<close>)
next
  case False
  then have "unheard g (uac_settled k out uuid now g)"
    by (auto simp: unheard_def uac_settled_def set_attempt_def Let_def split: uac_outcome.split option.split)
  then show ?thesis by (rule unheard_tally)
qed

lemma attempts_unheard:
  "unheard g (createOutbound p uuid g)" "unheard g (request_sent k x y g)" "unheard g (drop_done k failure g)"
  "unheard g (cancelOutbound i c g)"
  by (simp_all add: unheard_def createOutbound_def request_sent_def drop_done_def cancelOutbound_def set_attempt_def new_task_def
      Let_def split: option.split)

lemma report_end_tally:
  assumes "kind \<noteq> ''answered''"
  shows "tally g (report_end cfg h c kind reason hs now g)"
proof (cases "oget (calls (gw_registry g)) c")
  case None
  then show ?thesis by (intro unheard_tally) (simp add: report_end_def remove_call_def unheard_def)
next
  case (Some call)
  with assms show ?thesis
    by (auto simp: report_end_def remove_call_def tally_def in_progress_def Let_def)
qed

lemma dialog_destroyed_tally: "tally g (dialog_destroyed cfg h d msg now g)"
  by (simp add: dialog_destroyed_def report_end_tally split: option.split) (simp add: unheard_tally unheard_def)

lemma settle_less: "tally (settle t g) r \<Longrightarrow> tally g r"
  unfolding tally_def
proof (intro impI allI)
  fix c
  assume t: "registry_inv (gw_registry (settle t g)) \<longrightarrow>
      (\<forall>c. ends c (snd r) + in_progress c (fst r) \<le> setups c (snd r) + in_progress c (settle t g))"
    and r: "registry_inv (gw_registry g)"
  have less: "in_progress c (settle t g) \<le> in_progress c g" by (simp add: in_progress_def)
  show "ends c (snd r) + in_progress c (fst r) \<le> setups c (snd r) + in_progress c g"
  proof -
    have "ends c (snd r) + in_progress c (fst r) \<le> setups c (snd r) + in_progress c (settle t g)" using t r by simp
    also have "\<dots> \<le> setups c (snd r) + in_progress c g" using less by (rule add_left_mono)
    finally show ?thesis .
  qed
qed

lemma tally_silent:
  assumes "tally g (g', outs)" and "\<And>c. ends c outs2 = 0"
  shows "tally g (g', outs @ outs2)"
  using assms by (auto simp: tally_def intro: order_trans)

lemma task_destroyed_tally: "tally g (task_destroyed cfg h t failure now g)"
proof (cases "t < length (gw_tasks g)")
  case True
  have silent_settle: "tally g (settle t g, outs)" if "\<And>c. ends c outs = 0" for outs
    by (rule unheard_tally) (simp only: unheard_def fst_conv snd_conv settle_calls settle_tasks that count_settled simp_thms)
  show ?thesis
  proof (cases "gw_tasks g ! t")
    case (ByeTask c reason hs)
    obtain g' outs where r: "report_end cfg h c ''terminated'' reason (Some hs) now (settle t g) = (g', outs)" by fastforce
    have "tally (settle t g) (g', outs)"
      using report_end_tally [of "''terminated''" "settle t g" cfg h c reason "Some hs" now] by (simp add: r)
    from settle_less [OF tally_silent [OF this, of "[TaskReply t ReplyOk]"]]
    have over: "tally g (g', outs @ [TaskReply t ReplyOk])" by simp
    with True ByeTask r show ?thesis by (simp add: task_destroyed_def silent_settle split: option.split)
  next
    case (EndTask call)
    have "tally g (settle t g, [Deliver x (end_event ''terminated'' (ac_callId call) sip reason hs now)])" for x sip reason hs
      unfolding tally_def
    proof (intro impI allI)
      fix c
      have "length (filter (ending c) ((gw_tasks g)[t := Settled])) + of_bool (ac_callId call = c) = length (filter (ending c) (gw_tasks g))"
        using count_update [OF True, of "ending c" Settled] EndTask by simp
      then show "ends c (snd (settle t g, [Deliver x (end_event ''terminated'' (ac_callId call) sip reason hs now)])) + in_progress c (fst (settle t g, [Deliver x (end_event ''terminated'' (ac_callId call) sip reason hs now)]))
          \<le> setups c (snd (settle t g, [Deliver x (end_event ''terminated'' (ac_callId call) sip reason hs now)])) + in_progress c g"
        by (simp add: in_progress_def del: count_settled)
    qed
    with True EndTask show ?thesis by (simp add: task_destroyed_def silent_settle Let_def split: option.split)
  qed (use True in \<open>simp_all add: task_destroyed_def unheard_tally unheard_def\<close>)
qed (simp add: task_destroyed_def unheard_tally unheard_def)

lemma tasks_unheard:
  "unheard g (cancel_settled t g)" "unheard g (reinvite c sdp hs g)" "unheard g (bye c reason hs g)"
  "unheard g (reinvite_settled t out2 now g)" "unheard g (handleRemoteModify cfg h d req now g)" "unheard g (modify_answered vu t out3 now g)"
  by (simp_all add: unheard_def cancel_settled_def reinvite_def bye_def new_task_def reinvite_settled_def with_registry_def
      handleRemoteModify_def modify_answered_def Let_def split: option.split sum.split task.split sip_action.split)

subsection \<open>Sequences of steps\<close>

lemma unheard_trans: "unheard g (g1, outs1) \<Longrightarrow> unheard g1 (g2, outs2) \<Longrightarrow> unheard g (g2, outs1 @ outs2)"
  by (auto simp: unheard_def intro: order_trans)

lemma unheard_bind:
  assumes "unheard g r" and "unheard (fst r) (f (fst r))"
  shows "unheard g (case r of (g1, out) \<Rightarrow> (case f g1 of (g2, outs) \<Rightarrow> (g2, out @ outs)))"
  using assms unheard_trans [of g "fst r" "snd r" "fst (f (fst r))" "snd (f (fst r))"] by (simp add: case_prod_beta)

lemma unheard_refl: "(\<And>c. ends c outs = 0) \<Longrightarrow> unheard g (g, outs)"
  by (simp add: unheard_def)

lemma cancel_all_unheard: "unheard g (cancel_all ps g)"
proof (induction ps arbitrary: g)
  case (Cons p ps)
  obtain i k where p: "p = (i, k)" by (cases p)
  from Cons.IH show ?case
    unfolding p cancel_all.simps by (intro unheard_bind [where f = "cancel_all ps"] attempts_unheard)
qed (simp add: unheard_refl)

lemma bye_all_unheard: "unheard g (bye_all cs g)"
proof (induction cs arbitrary: g)
  case (Cons c cs)
  then show ?case unfolding bye_all.simps by (intro unheard_bind [where f = "bye_all cs"] tasks_unheard)
qed (simp add: unheard_refl)

lemma refuse_pending_unheard: "unheard g (refuse_pending ps g)"
proof (induction ps arbitrary: g)
  case (Cons p ps)
  obtain c k where p: "p = (c, k)" by (cases p)
  let ?g = "with_registry (\<lambda>r. releaseReservation r c) (set_invite k (\<lambda>i. i\<lparr>iv_final := True\<rparr>) g)"
  from Cons [of ?g] show ?case
    by (auto simp: unheard_def p Let_def with_registry_def set_invite_def split: prod.splits)
qed (simp add: unheard_refl)

text \<open>What the end of a connection moves from the calls to the dialogs that are being destroyed.\<close>

lemma remove_calls_count:
  "registry_inv r \<Longrightarrow> of_bool (ohas (calls (fst (remove_calls cs r))) c) + length (filter (\<lambda>x. ac_callId x = c) (snd (remove_calls cs r)))
     = (of_bool (ohas (calls r) c) :: nat)"
proof (induction cs arbitrary: r)
  case (Cons i cs)
  let ?r = "fst (remove_call r i)"
  from Cons have IH: "of_bool (ohas (calls (fst (remove_calls cs ?r))) c) + length (filter (\<lambda>x. ac_callId x = c) (snd (remove_calls cs ?r)))
     = (of_bool (ohas (calls ?r) c) :: nat)" by (simp add: remove_inv)
  show ?case
  proof (cases "oget (calls r) i")
    case None
    with IH show ?thesis by (simp add: remove_call_def case_prod_beta)
  next
    case (Some call)
    with Cons.prems have "ac_callId call = i" by (auto simp: registry_inv_def dest: oget_in)
    with Some IH show ?thesis by (auto simp: remove_call_def case_prod_beta)
  qed
qed simp

lemma end_all_tasks:
  "gw_tasks (fst (end_all xs g)) = gw_tasks g @ map EndTask xs \<and> gw_registry (fst (end_all xs g)) = gw_registry g
   \<and> (\<forall>c. ends c (snd (end_all xs g)) = 0)"
proof (induction xs arbitrary: g)
  case (Cons x xs)
  from Cons [of "g\<lparr>gw_tasks := gw_tasks g @ [EndTask x]\<rparr>"] show ?case
    by (simp add: new_task_def case_prod_beta)
qed simp

lemma ending_EndTask [simp]: "ending c \<circ> EndTask = (\<lambda>x. ac_callId x = c)"
  by (simp add: fun_eq_iff)

lemma terminate_tally: "tally g (terminateCallsForControlConnection c g)"
proof -
  define mine where "mine = filter (\<lambda>(i, k). op_controlConnectionId (at_params (gw_attempts g ! k)) = Some c) (gw_pendingOutbound g)"
  obtain g1 outs where 1: "cancel_all mine g = (g1, outs)" by fastforce
  define ids where "ids = map ac_callId (filter (\<lambda>x. ac_controlConnectionId x = Some c) (map snd (calls (gw_registry g1))))"
  obtain reg removed where 2: "remove_calls ids (gw_registry g1) = (reg, removed)" by fastforce
  obtain g2 outs' where 3: "end_all removed (g1\<lparr>gw_registry := reg\<rparr>) = (g2, outs')" by fastforce
  have t1: "tally g (g1, outs)" using unheard_tally [OF cancel_all_unheard [of g mine]] 1 by simp
  have i1: "registry_inv (gw_registry g) \<longrightarrow> registry_inv (gw_registry g1)"
    using cancel_all_quiet [of g mine] 1 by (simp add: quiet_def)
  have t2: "tally g1 (g2, outs')"
    unfolding tally_def
  proof (intro impI allI)
    fix i assume r: "registry_inv (gw_registry g1)"
    have e: "gw_tasks g2 = gw_tasks g1 @ map EndTask removed" "gw_registry g2 = reg" "ends i outs' = 0"
      using end_all_tasks [of removed "g1\<lparr>gw_registry := reg\<rparr>"] 3 by simp_all
    have "of_bool (ohas (calls reg) i) + length (filter (\<lambda>x. ac_callId x = i) removed) = (of_bool (ohas (calls (gw_registry g1)) i) :: nat)"
      using remove_calls_count [OF r, of ids i] 2 by simp
    then have "in_progress i g2 = in_progress i g1"
      unfolding in_progress_def e(1,2) filter_append length_append filter_map length_map ending_EndTask by linarith
    then show "ends i (snd (g2, outs')) + in_progress i (fst (g2, outs')) \<le> setups i (snd (g2, outs')) + in_progress i g1"
      by (simp add: e(3))
  qed
  have "terminateCallsForControlConnection c g = (g2, outs @ outs')"
    using 1 2 3 by (simp add: terminateCallsForControlConnection_def mine_def [symmetric] ids_def [symmetric])
  then show ?thesis using tally_trans [OF t1 i1 t2] by simp
qed

lemma shutdown_unheard: "unheard g (shutdown g)"
proof -
  let ?g0 = "g\<lparr>gw_draining := True, gw_stopping := True\<rparr>"
  obtain g1 outs1 where 1: "refuse_pending (gw_pendingInbound ?g0) ?g0 = (g1, outs1)" by fastforce
  obtain g2 outs2 where 2: "cancel_all (gw_pendingOutbound g1) g1 = (g2, outs2)" by fastforce
  obtain g3 outs3 where 3: "bye_all (map ac_callId (map snd (calls (gw_registry g2)))) g2 = (g3, outs3)" by fastforce
  define g4 where "g4 = g3\<lparr>gw_closing := Some (map snd (gw_pendingOutbound g1), [length (gw_tasks g) ..< length (gw_tasks g3)])\<rparr>"
  have s1: "unheard g (g1, outs1)"
    using refuse_pending_unheard [of ?g0 "gw_pendingInbound ?g0"] 1 by (simp add: unheard_def)
  have s2: "unheard g1 (g2, outs2)" using cancel_all_unheard [of g1 "gw_pendingOutbound g1"] 2 by simp
  have "unheard g2 (g3, outs3)" using bye_all_unheard 3 by metis
  then have s3: "unheard g2 (g4, outs3)" by (simp add: unheard_def g4_def)
  have "shutdown g = (g4, outs1 @ outs2 @ outs3)" using 1 2 3 by (simp add: shutdown_def g4_def Let_def)
  with unheard_trans [OF s1 unheard_trans [OF s2 s3]] show ?thesis by simp
qed

lemma close_tally: "tally g r \<Longrightarrow> tally g (close_when_ready r)"
proof (cases r)
  case (Pair g' outs)
  assume t: "tally g r"
  have same: "in_progress c (g'\<lparr>gw_closing := None, gw_connected := False\<rparr>) = in_progress c g'" for c
    by (simp add: in_progress_def)
  show ?thesis
  proof (cases "shutdown_ready g'")
    case True
    with t Pair show ?thesis by (simp add: close_when_ready_def tally_def same)
  qed (use t Pair in \<open>simp add: close_when_ready_def\<close>)
qed

lemma step_tally: "tally g (gateway_step cfg vu g e)"
proof -
  have none: "tally g (g\<lparr>gw_connected := b\<rparr>, [])" "tally g (g\<lparr>gw_draining := b\<rparr>, [])" "tally g (g, [])" for b
    by (rule unheard_tally, simp add: unheard_def)+
  have "tally g (gateway_handler cfg vu g e)"
    by (cases e) (simp_all add: none unheard_tally handleInvite_unheard invite_answered_unheard undo_done_unheard uas_settled_tally
        attempts_unheard uac_settled_tally tasks_unheard task_destroyed_tally dialog_destroyed_tally terminate_tally shutdown_unheard)
  then show ?thesis unfolding gateway_step_def by (rule close_tally)
qed

lemma run_tally: "gw_book g \<Longrightarrow> tally g (steps (gateway_step cfg vu) g es)"
proof (induction es arbitrary: g)
  case Nil
  then show ?case by (simp add: unheard_tally unheard_def)
next
  case (Cons e es)
  let ?r = "gateway_step cfg vu g e"
  have b: "gw_book (fst ?r)" by (rule final.shot_inv [OF Cons.prems])
  have "tally (fst ?r) (steps (gateway_step cfg vu) (fst ?r) es)" by (rule Cons.IH [OF b])
  then show ?case
    using tally_trans [of g "fst ?r" "snd ?r"] step_tally [of g cfg vu e] gw_book_parts(2) [OF b] by (simp add: case_prod_beta)
qed

text \<open>
  C7. The end of a call is reported at most once: for every identifier the reported ends, plus one while a
  call with it is active, plus the dialogs of lost owners that are being destroyed, never exceed the
  reported set-ups, whether the end comes from the other side, from a BYE of the application, from both at
  once, from the loss of the control connection or from the shutdown.
\<close>

theorem call_end_reported_once:
  fixes cfg vu and es :: "gw_event list"
  defines "r \<equiv> gateway_run cfg vu es"
  shows "ends c (snd r) + (if ohas (calls (gw_registry (fst r))) c then 1 else 0)
      + length (filter (ending c) (gw_tasks (fst r))) \<le> setups c (snd r)"
proof -
  have "tally new_gateway r" unfolding r_def by (rule run_tally [OF new_gateway_book])
  then have "ends c (snd r) + in_progress c (fst r) \<le> setups c (snd r) + in_progress c new_gateway"
    using gw_book_parts(2) [OF new_gateway_book] by (simp add: tally_def)
  then show ?thesis by (simp add: in_progress_def new_gateway_def empty_registry_def of_bool_def)
qed

section \<open>Shutdown\<close>

text \<open>
  A steady step neither starts nor ends the shutdown; while the gateway is stopping it sets up no call, starts
  no attempt that could succeed and admits no INVITE.
\<close>

definition steady :: "gateway \<Rightarrow> gateway \<times> gw_output list \<Rightarrow> bool" where
  "steady g r \<longleftrightarrow> gw_closing (fst r) = gw_closing g \<and> gw_stopping (fst r) = gw_stopping g \<and> gw_draining (fst r) = gw_draining g
     \<and> Disconnect \<notin> set (snd r)
     \<and> length (gw_invites g) = length (gw_invites (fst r)) \<and> length (gw_attempts g) = length (gw_attempts (fst r))
     \<and> (gw_stopping g \<longrightarrow> (\<forall>c. setups c (snd r) = 0))"

named_theorems steady_intros \<open>steps that leave the shutdown alone\<close>

lemma steady_trans: "steady g (g1, outs1) \<Longrightarrow> steady g1 (g2, outs2) \<Longrightarrow> steady g (g2, outs1 @ outs2)"
  by (simp add: steady_def)

lemma steady_bind:
  assumes "steady g r" and "steady (fst r) (f (fst r))"
  shows "steady g (case r of (g1, out) \<Rightarrow> (case f g1 of (g2, outs) \<Rightarrow> (g2, out @ outs)))"
  using assms steady_trans [of g "fst r" "snd r" "fst (f (fst r))" "snd (f (fst r))"] by (simp add: case_prod_beta)

lemma steady_same:
  "gw_closing g' = gw_closing g \<Longrightarrow> gw_stopping g' = gw_stopping g \<Longrightarrow> gw_draining g' = gw_draining g \<Longrightarrow>
   length (gw_invites g') = length (gw_invites g) \<Longrightarrow> length (gw_attempts g') = length (gw_attempts g) \<Longrightarrow> steady g' r = steady g r"
  by (simp add: steady_def)

lemma frames [simp]:
  "gw_closing (set_invite k f g) = gw_closing g" "gw_stopping (set_invite k f g) = gw_stopping g"
  "gw_draining (set_invite k f g) = gw_draining g" "length (gw_invites (set_invite k f g)) = length (gw_invites g)"
  "gw_attempts (set_invite k f g) = gw_attempts g"
  "gw_closing (with_registry u g) = gw_closing g" "gw_stopping (with_registry u g) = gw_stopping g"
  "gw_draining (with_registry u g) = gw_draining g" "gw_invites (with_registry u g) = gw_invites g"
  "gw_attempts (with_registry u g) = gw_attempts g"
  "gw_closing (finish_invite k g) = gw_closing g" "gw_stopping (finish_invite k g) = gw_stopping g"
  "gw_draining (finish_invite k g) = gw_draining g" "length (gw_invites (finish_invite k g)) = length (gw_invites g)"
  "gw_attempts (finish_invite k g) = gw_attempts g"
  "gw_closing (settle t g) = gw_closing g" "gw_stopping (settle t g) = gw_stopping g" "gw_draining (settle t g) = gw_draining g"
  "gw_invites (settle t g) = gw_invites g" "gw_attempts (settle t g) = gw_attempts g"
  "gw_closing (finish_attempt k g) = gw_closing g" "length (gw_attempts (finish_attempt k g)) = length (gw_attempts g)"
  "gw_closing (set_attempt k v g) = gw_closing g" "gw_stopping (set_attempt k v g) = gw_stopping g"
  "gw_draining (set_attempt k v g) = gw_draining g" "gw_invites (set_attempt k v g) = gw_invites g"
  "length (gw_attempts (set_attempt k v g)) = length (gw_attempts g)"
  by (simp_all add: set_invite_def with_registry_def finish_invite_def settle_def finish_attempt_def set_attempt_def Let_def)

lemma fail_rest_steady: "steady g (fail_rest cfg h k e a now g)"
  by (simp add: steady_def fail_rest_def Let_def)

lemma fail_invite_steady: "steady g (fail_invite cfg h k e a d now (set_invite k f g))"
proof (cases d)
  case None
  let ?c = "iv_callId (gw_invites (set_invite k f g) ! k)"
  let ?g = "with_registry (\<lambda>r. releaseReservation (fst (remove_call r ?c)) ?c) (set_invite k f g)"
  have "steady ?g = steady g" by (rule ext, rule steady_same) simp_all
  then have "steady g (fail_rest cfg h k e a now ?g)" using fail_rest_steady [of ?g] by simp
  with None show ?thesis by (simp add: fail_invite_def Let_def)
qed (simp add: fail_invite_def steady_def Let_def)

lemma invite_answered_steady [steady_intros]: "steady g (invite_answered cfg vu h k out now g)"
  using fail_invite_steady [of g cfg h k _ "[]" None now "\<lambda>i. i"]
  by (simp add: set_invite_id invite_answered_def Let_def split: sum.split sip_action.split) (simp add: steady_def)

lemma uas_settled_steady [steady_intros]: "steady g (uas_settled cfg h k out now g)"
  by (simp add: uas_settled_def fail_invite_steady Let_def split: invite_phase.split uas_outcome.split) (simp add: steady_def)

lemma undo_done_steady [steady_intros]: "steady g (undo_done cfg h k now g)"
  by (simp add: undo_done_def fail_rest_steady split: invite_phase.split) (simp add: steady_def)

lemma attempts_steady [steady_intros]:
  "steady g (request_sent k x y g)" "steady g (drop_done k failure g)" "steady g (cancelOutbound i c g)"
  by (simp_all add: steady_def request_sent_def drop_done_def cancelOutbound_def new_task_def Let_def split: option.split)

lemma uac_settled_steady [steady_intros]: "steady g (uac_settled k out uuid now g)"
  by (simp add: steady_def uac_settled_def Let_def split: uac_outcome.split option.split)

lemma report_end_steady: "kind \<noteq> ''answered'' \<Longrightarrow> steady g (report_end cfg h c kind reason hs now g)"
  by (simp add: steady_def report_end_def Let_def split: prod.split option.split)

lemma dialog_destroyed_steady [steady_intros]: "steady g (dialog_destroyed cfg h d msg now g)"
  by (simp add: dialog_destroyed_def report_end_steady split: option.split) (simp add: steady_def)

lemma task_destroyed_steady [steady_intros]: "steady g (task_destroyed cfg h t failure now g)"
proof -
  have s: "steady (settle t g) = steady g" by (rule ext, rule steady_same) simp_all
  have "steady g (case report_end cfg h c ''terminated'' reason hs now (settle t g) of (g', outs) \<Rightarrow> (g', outs @ [TaskReply t ReplyOk]))"
    for c reason hs
  proof -
    have "steady g (report_end cfg h c ''terminated'' reason hs now (settle t g))"
      using report_end_steady [of "''terminated''" "settle t g" cfg h c reason hs now] s by simp
    then show ?thesis by (simp add: steady_def case_prod_beta)
  qed
  then show ?thesis
    by (simp add: task_destroyed_def Let_def split: task.split option.split) (simp add: steady_def)
qed

lemma tasks_steady [steady_intros]:
  "steady g (cancel_settled t g)" "steady g (reinvite c sdp hs g)" "steady g (bye c reason hs g)"
  "steady g (reinvite_settled t out2 now g)" "steady g (handleRemoteModify cfg h d req now g)" "steady g (modify_answered vu t out3 now g)"
  "steady g (g, [])" "steady g (g\<lparr>gw_connected := b\<rparr>, [])"
  by (simp_all add: steady_def cancel_settled_def reinvite_def bye_def new_task_def reinvite_settled_def
      handleRemoteModify_def modify_answered_def Let_def split: option.split sum.split task.split sip_action.split)

lemma cancel_all_steady: "steady g (cancel_all ps g)"
proof (induction ps arbitrary: g)
  case (Cons p ps)
  obtain i k where p: "p = (i, k)" by (cases p)
  from Cons.IH show ?case
    unfolding p cancel_all.simps by (intro steady_bind [where f = "cancel_all ps"] attempts_steady)
qed (simp add: steady_def)

lemma bye_all_steady: "steady g (bye_all cs g)"
proof (induction cs arbitrary: g)
  case (Cons c cs)
  then show ?case unfolding bye_all.simps by (intro steady_bind [where f = "bye_all cs"] tasks_steady)
qed (simp add: steady_def)

lemma end_all_steady: "steady g (end_all cs g)"
proof (induction cs arbitrary: g)
  case (Cons c cs)
  from Cons [of "g\<lparr>gw_tasks := gw_tasks g @ [EndTask c]\<rparr>"] show ?case
    by (auto simp: steady_def new_task_def split: prod.splits)
qed (simp add: steady_def)

lemma terminate_steady [steady_intros]: "steady g (terminateCallsForControlConnection c g)"
proof -
  define mine where "mine = filter (\<lambda>(i, k). op_controlConnectionId (at_params (gw_attempts g ! k)) = Some c) (gw_pendingOutbound g)"
  obtain g1 outs where 1: "cancel_all mine g = (g1, outs)" by fastforce
  define ids where "ids = map ac_callId (filter (\<lambda>x. ac_controlConnectionId x = Some c) (map snd (calls (gw_registry g1))))"
  obtain reg removed where 2: "remove_calls ids (gw_registry g1) = (reg, removed)" by fastforce
  obtain g2 outs' where 3: "end_all removed (g1\<lparr>gw_registry := reg\<rparr>) = (g2, outs')" by fastforce
  have q1: "steady g (g1, outs)" using cancel_all_steady [of g mine] 1 by simp
  have q2: "steady g1 (g2, outs')" using end_all_steady [of "g1\<lparr>gw_registry := reg\<rparr>" removed] 3 by (simp add: steady_def)
  have "terminateCallsForControlConnection c g = (g2, outs @ outs')"
    using 1 2 3 by (simp add: terminateCallsForControlConnection_def mine_def [symmetric] ids_def [symmetric])
  then show ?thesis using steady_trans [OF q1 q2] by simp
qed

subsection \<open>The shutdown itself\<close>

lemma refuse_pending_final:
  "(\<forall>(c, k)\<in>set ps. k < length (gw_invites g)) \<Longrightarrow>
   length (gw_invites (fst (refuse_pending ps g))) = length (gw_invites g)
   \<and> (\<forall>k<length (gw_invites g). iv_final (gw_invites g ! k) \<or> k \<in> set (map snd ps) \<longrightarrow> iv_final (gw_invites (fst (refuse_pending ps g)) ! k))"
proof (induction ps arbitrary: g)
  case (Cons p ps)
  obtain c k where p: "p = (c, k)" by (cases p)
  let ?g = "with_registry (\<lambda>r. releaseReservation r c) (set_invite k (\<lambda>i. i\<lparr>iv_final := True\<rparr>) g)"
  have f: "iv_final (gw_invites ?g ! j)" if "j < length (gw_invites g)" "iv_final (gw_invites g ! j) \<or> j = k" for j
    using that by (cases "k = j") (auto simp: set_invite_def)
  have "length (gw_invites (fst (refuse_pending ps ?g))) = length (gw_invites ?g)
   \<and> (\<forall>j<length (gw_invites ?g). iv_final (gw_invites ?g ! j) \<or> j \<in> set (map snd ps) \<longrightarrow> iv_final (gw_invites (fst (refuse_pending ps ?g)) ! j))"
    using Cons.prems by (intro Cons.IH) auto
  with f show ?case by (auto simp: p Let_def case_prod_beta)
qed simp

lemma refuse_pending_frame:
  "gw_stopping (fst (refuse_pending ps g)) = gw_stopping g \<and> gw_draining (fst (refuse_pending ps g)) = gw_draining g
   \<and> gw_attempts (fst (refuse_pending ps g)) = gw_attempts g \<and> gw_pendingOutbound (fst (refuse_pending ps g)) = gw_pendingOutbound g
   \<and> Disconnect \<notin> set (snd (refuse_pending ps g))"
proof (induction ps arbitrary: g)
  case (Cons p ps)
  obtain c k where p: "p = (c, k)" by (cases p)
  let ?g = "with_registry (\<lambda>r. releaseReservation r c) (set_invite k (\<lambda>i. i\<lparr>iv_final := True\<rparr>) g)"
  from Cons [of ?g] show ?case
    by (auto simp: p Let_def with_registry_def set_invite_def case_prod_beta)
qed simp

lemma shutdown_facts:
  assumes b: "gw_book g" and a: "att_inv g"
  shows "gw_stopping (fst (shutdown g))" and "\<forall>i\<in>set (gw_invites (fst (shutdown g))). iv_final i"
    and "\<exists>ks ts. gw_closing (fst (shutdown g)) = Some (ks, ts) \<and> (\<forall>k<length (gw_attempts (fst (shutdown g))). \<not> over (fst (shutdown g)) k \<longrightarrow> k \<in> set ks)"
    and "Disconnect \<notin> set (snd (shutdown g))"
proof -
  let ?g0 = "g\<lparr>gw_draining := True, gw_stopping := True\<rparr>"
  obtain g1 outs1 where 1: "refuse_pending (gw_pendingInbound ?g0) ?g0 = (g1, outs1)" by fastforce
  obtain g2 outs2 where 2: "cancel_all (gw_pendingOutbound g1) g1 = (g2, outs2)" by fastforce
  obtain g3 outs3 where 3: "bye_all (map ac_callId (map snd (calls (gw_registry g2)))) g2 = (g3, outs3)" by fastforce
  define g4 where "g4 = g3\<lparr>gw_closing := Some (map snd (gw_pendingOutbound g1), [length (gw_tasks g) ..< length (gw_tasks g3)])\<rparr>"
  have r: "shutdown g = (g4, outs1 @ outs2 @ outs3)" using 1 2 3 by (simp add: shutdown_def g4_def Let_def)
  have f1: "gw_stopping g1" "gw_attempts g1 = gw_attempts g" "gw_pendingOutbound g1 = gw_pendingOutbound g" "Disconnect \<notin> set outs1"
    using refuse_pending_frame [of "gw_pendingInbound ?g0" ?g0] 1 by simp_all
  have s2: "steady g1 (g2, outs2)" using cancel_all_steady [of g1 "gw_pendingOutbound g1"] 2 by simp
  have s3: "steady g2 (g3, outs3)" using bye_all_steady 3 by metis
  have q2: "quiet g1 (g2, outs2)" using cancel_all_quiet [of g1 "gw_pendingOutbound g1"] 2 by simp
  have q3: "quiet g2 (g3, outs3)" using bye_all_quiet 3 by metis
  show "gw_stopping (fst (shutdown g))" using s2 s3 f1 by (simp add: r g4_def steady_def)
  show "Disconnect \<notin> set (snd (shutdown g))" using s2 s3 f1 by (simp add: r steady_def)
  have P: "oget (gw_pendingInbound g) c = Some k \<longleftrightarrow> k < length (gw_invites g) \<and> iv_phase (gw_invites g ! k) \<noteq> Finished \<and> iv_callId (gw_invites g ! k) = c" for c k
    by (rule book_pending [OF b])
  have owf: "owf (gw_pendingInbound g)" using b by (simp add: gw_book_def book_inv_def)
  have inb: "k < length (gw_invites g)" if "(c, k) \<in> set (gw_pendingInbound g)" for c k
    using that oget_iff [OF owf] P by blast
  have fin1: "length (gw_invites g1) = length (gw_invites g)"
    "\<And>k. k < length (gw_invites g) \<Longrightarrow> iv_final (gw_invites g ! k) \<or> k \<in> set (map snd (gw_pendingInbound g)) \<Longrightarrow> iv_final (gw_invites g1 ! k)"
    using refuse_pending_final [of "gw_pendingInbound ?g0" ?g0] inb 1 by (auto simp: Ball_def)
  have "iv_final (gw_invites g1 ! k)" if k: "k < length (gw_invites g)" for k
  proof (cases "iv_phase (gw_invites g ! k) = Finished")
    case True
    then show ?thesis using fin1(2) [OF k] book_ok [OF b k] by simp
  next
    case False
    with k have "oget (gw_pendingInbound g) (iv_callId (gw_invites g ! k)) = Some k" using P by blast
    then have "k \<in> set (map snd (gw_pendingInbound g))" using oget_in [of "gw_pendingInbound g"] by (force simp: image_iff)
    then show ?thesis using fin1(2) [OF k] by simp
  qed
  moreover have "gw_invites g4 = gw_invites g1" using q2 q3 by (simp add: g4_def quiet_def)
  ultimately show "\<forall>i\<in>set (gw_invites (fst (shutdown g))). iv_final i" using fin1(1) by (auto simp: r in_set_conv_nth)
  have "k \<in> set (map snd (gw_pendingOutbound g1))" if k: "k < length (gw_attempts g4)" "\<not> over g4 k" for k
  proof -
    have "att_step g1 (g2, outs2)" using cancel_all_att [of g1 "gw_pendingOutbound g1"] 2 by simp
    moreover have "att_inv g1" using a f1 by (simp add: att_inv_def)
    moreover have "gw_attempts g4 = gw_attempts g2"
    proof -
      have "calm g2 (g3, outs3)" using bye_all_calm 3 by metis
      then show ?thesis by (simp add: calm_def g4_def)
    qed
    moreover from this have "over g4 k = over g2 k" by (simp add: over_def)
    ultimately have "\<not> over g1 k" using k(2) unfolding att_step_def by auto
    moreover have "k < length (gw_attempts g1)" using k(1) s2 s3 by (simp add: g4_def steady_def)
    ultimately have "oget (gw_pendingOutbound g1) (at_id (gw_attempts g1 ! k)) = Some k"
      using att_pending [OF \<open>att_inv g1\<close>] by (auto simp: over_def)
    then show ?thesis using oget_in [of "gw_pendingOutbound g1"] by (force simp: image_iff)
  qed
  then show "\<exists>ks ts. gw_closing (fst (shutdown g)) = Some (ks, ts) \<and> (\<forall>k<length (gw_attempts (fst (shutdown g))). \<not> over (fst (shutdown g)) k \<longrightarrow> k \<in> set ks)"
    by (auto simp: r g4_def over_def)
qed

subsection \<open>Runs\<close>

text \<open>
  Before the shutdown nothing is being closed. From then on every INVITE has its final response, and the
  connection to drachtio is closed exactly when nothing the shutdown waits for is open any more.
\<close>

definition closing_ok :: "gateway \<Rightarrow> gw_output list \<Rightarrow> bool" where
  "closing_ok g outs \<longleftrightarrow>
     (if gw_stopping g
      then (\<forall>i\<in>set (gw_invites g). iv_final i) \<and> \<not> shutdown_ready g
        \<and> (case gw_closing g of
             None \<Rightarrow> Disconnect \<in> set outs \<and> (\<forall>k<length (gw_attempts g). over g k)
           | Some (ks, ts) \<Rightarrow> Disconnect \<notin> set outs \<and> (\<forall>k<length (gw_attempts g). \<not> over g k \<longrightarrow> k \<in> set ks))
      else gw_closing g = None \<and> Disconnect \<notin> set outs)"

definition still_ok :: "gateway \<Rightarrow> bool" where
  "still_ok g \<longleftrightarrow> (\<forall>i\<in>set (gw_invites g). iv_final i)
     \<and> (case gw_closing g of None \<Rightarrow> \<forall>k<length (gw_attempts g). over g k
        | Some (ks, ts) \<Rightarrow> \<forall>k<length (gw_attempts g). \<not> over g k \<longrightarrow> k \<in> set ks)"

lemma closed_over:
  assumes "shutdown_ready g" and "still_ok g"
  shows "\<forall>k<length (gw_attempts g). over g k"
proof (intro allI impI)
  fix k assume k: "k < length (gw_attempts g)"
  obtain ks ts where c: "gw_closing g = Some (ks, ts)" "list_all (\<lambda>k. at_phase (gw_attempts g ! k) = Over) ks"
    using assms(1) by (auto simp: shutdown_ready_def split: option.splits)
  show "over g k"
  proof (rule ccontr)
    assume n: "\<not> over g k"
    then have "k \<in> set ks" using assms(2) k c(1) by (auto simp: still_ok_def)
    with c(2) n k show False by (auto simp: over_def list_all_iff)
  qed
qed

lemma over_frames [simp]:
  "over (g\<lparr>gw_invites := is\<rparr>) k = over g k" "over (g\<lparr>gw_draining := b\<rparr>) k = over g k"
  "over (g\<lparr>gw_closing := c, gw_connected := b\<rparr>) k = over g k"
  by (simp_all add: over_def)

text \<open>What one event does while the gateway is stopping.\<close>

lemma stopping_handler:
  fixes cfg vu g e
  assumes s: "gw_stopping g" and b: "gw_book g" and a: "att_inv g" and ok: "still_ok g"
  defines "r \<equiv> gateway_handler cfg vu g e"
  shows "gw_stopping (fst r) \<and> gw_closing (fst r) = gw_closing g \<and> Disconnect \<notin> set (snd r) \<and> still_ok (fst r) \<and> (\<forall>c. setups c (snd r) = 0)"
proof -
  have d: "gw_draining g" using b s by (simp add: gw_book_def book_inv_def)
  have sd: "sound (\<lambda>k. uas_final k e) g r" unfolding r_def by (rule handler_sound)
  have keep: "iv_final (gw_invites (fst r) ! k)" if "k < length (gw_invites g)" for k
  proof -
    have "fin k g = 1" using ok that by (auto simp: fin_def still_ok_def)
    moreover have "responses k (snd r) + fin k g \<le> fin k (fst r)" using sd b by (simp add: sound_def)
    ultimately have "1 \<le> fin k (fst r)" by linarith
    then show ?thesis by (cases "iv_final (gw_invites (fst r) ! k)") (simp_all add: fin_def)
  qed
  have att: "att_step g r"
    unfolding r_def by (cases e) (simp_all add: calm_att calm_intros createOutbound_att request_sent_att uac_settled_att drop_done_att
        cancelOutbound_att terminate_att shutdown_att)
  have late: "over (fst r) k" if "over g k" for k using att a that unfolding att_step_def by blast
  have 1: ?thesis if st: "steady g r"
  proof -
    have "iv_final i" if "i \<in> set (gw_invites (fst r))" for i
      using that st keep by (auto simp: steady_def in_set_conv_nth)
    moreover have "\<forall>k<length (gw_attempts g). over (fst r) k" if "\<forall>k<length (gw_attempts g). over g k"
      using that late by blast
    moreover have "\<forall>k<length (gw_attempts g). \<not> over (fst r) k \<longrightarrow> k \<in> ks" if "\<forall>k<length (gw_attempts g). \<not> over g k \<longrightarrow> k \<in> ks" for ks
      using that late by blast
    ultimately have "still_ok (fst r)" using ok st by (auto simp: still_ok_def steady_def split: option.splits)
    with st s show ?thesis by (simp add: steady_def)
  qed
  show ?thesis
  proof (cases e)
    case (InviteArrived h req uuid now)
    have r: "r = refuse req now 503 ''Service Unavailable'' retry_after g" using d by (simp add: r_def InviteArrived handleInvite_def)
    with ok s show ?thesis by (cases "gw_closing g") (auto simp: refuse_def refused_invite_def still_ok_def)
  next
    case (OutboundRequested p uuid)
    define x where "x = new_attempt p (case op_outboundAttemptId p of Some a \<Rightarrow> a | None \<Rightarrow> uuid) [] Over"
    have x: "r = (g\<lparr>gw_attempts := gw_attempts g @ [x]\<rparr>, [OutboundReply (length (gw_attempts g)) (Inl SipDraining)])" "at_phase x = Over"
      using d by (simp_all add: r_def OutboundRequested createOutbound_def x_def) (simp add: new_attempt_def)
    have "over (fst r) k \<longleftrightarrow> over g k \<or> k = length (gw_attempts g)" for k using x by (auto simp: over_def nth_append)
    with ok s show ?thesis by (auto simp: x(1) still_ok_def less_Suc_eq split: option.splits)
  next
    case DrainStarted
    with s ok show ?thesis by (cases "gw_closing g") (auto simp: r_def still_ok_def)
  qed (rule 1, use s in \<open>simp add: r_def steady_intros\<close>)+
qed

text \<open>Before the shutdown no other event starts one, and afterwards every event keeps what is promised.\<close>

lemma running_handler:
  assumes "\<not> gw_stopping g" and "e \<noteq> ShutdownAsked"
  shows "\<not> gw_stopping (fst (gateway_handler cfg vu g e)) \<and> gw_closing (fst (gateway_handler cfg vu g e)) = gw_closing g
    \<and> Disconnect \<notin> set (snd (gateway_handler cfg vu g e))"
proof (cases "\<exists>h req uuid now. e = InviteArrived h req uuid now")
  case True
  with assms(1) show ?thesis
    by (auto simp: handleInvite_def handleAdmittedInvite_def refuse_def start_invite_def Let_def split: option.splits if_splits prod.splits)
next
  case False
  show ?thesis
  proof (cases "\<exists>p uuid. e = OutboundRequested p uuid")
    case True
    with assms(1) show ?thesis by (auto simp: createOutbound_def Let_def split: option.splits if_splits)
  next
    case no: False
    have "steady g (gateway_handler cfg vu g e) \<or> e = DrainStarted"
      using False no assms(2) by (cases e) (simp_all add: steady_intros)
    with assms show ?thesis by (auto simp: steady_def)
  qed
qed

lemma still_setups: "still_ok g \<Longrightarrow> gw_stopping g \<Longrightarrow> gw_book g \<Longrightarrow> att_inv g \<Longrightarrow>
    gw_stopping (fst (gateway_step cfg vu g e)) \<and> still_ok (fst (gateway_step cfg vu g e))
    \<and> (\<forall>c. setups c (snd (gateway_step cfg vu g e)) = 0)"
proof -
  assume a: "still_ok g" "gw_stopping g" "gw_book g" "att_inv g"
  obtain g' outs where r: "gateway_handler cfg vu g e = (g', outs)" by fastforce
  have f: "gw_stopping g'" "still_ok g'" "\<And>c. setups c outs = 0"
    using stopping_handler [OF a(2,3,4,1), of cfg vu e] r by simp_all
  show ?thesis
  proof (cases "shutdown_ready g'")
    case True
    with closed_over [OF this f(2)] f show ?thesis
      by (simp add: gateway_step_def close_when_ready_def r still_ok_def)
  next
    case False
    with f show ?thesis by (simp add: gateway_step_def close_when_ready_def r)
  qed
qed

lemma closing_step:
  assumes ok: "closing_ok g outs" and b: "gw_book g" and a: "att_inv g"
  shows "closing_ok (fst (gateway_step cfg vu g e)) (outs @ snd (gateway_step cfg vu g e))"
proof -
  let ?r = "gateway_handler cfg vu g e"
  have close: "closing_ok (fst (close_when_ready (g', outs'))) (outs @ snd (close_when_ready (g', outs')))"
    if g': "gw_stopping g'" "still_ok g'" "gw_closing g' = None \<Longrightarrow> Disconnect \<in> set outs" "gw_closing g' \<noteq> None \<Longrightarrow> Disconnect \<notin> set outs"
      "Disconnect \<notin> set outs'" for g' outs'
  proof (cases "shutdown_ready g'")
    case True
    with closed_over [OF True g'(2)] g' show ?thesis
      by (simp add: close_when_ready_def closing_ok_def still_ok_def shutdown_ready_def)
  next
    case False
    with g' show ?thesis
      by (auto simp: close_when_ready_def closing_ok_def still_ok_def split: option.splits)
  qed
  show ?thesis
  proof (cases "gw_stopping g")
    case True
    have st: "still_ok g" using ok True by (auto simp: closing_ok_def still_ok_def split: option.splits)
    have "gw_stopping (fst ?r)" "gw_closing (fst ?r) = gw_closing g" "Disconnect \<notin> set (snd ?r)" "still_ok (fst ?r)"
      using stopping_handler [OF True b a st] by simp_all
    moreover have "gw_closing g = None \<Longrightarrow> Disconnect \<in> set outs" "gw_closing g \<noteq> None \<Longrightarrow> Disconnect \<notin> set outs"
      using ok True by (auto simp: closing_ok_def)
    ultimately have "closing_ok (fst (close_when_ready (fst ?r, snd ?r))) (outs @ snd (close_when_ready (fst ?r, snd ?r)))"
      by (intro close) simp_all
    then show ?thesis by (simp add: gateway_step_def)
  next
    case False
    show ?thesis
    proof (cases "e = ShutdownAsked")
      case True
      have r: "?r = shutdown g" using True False by simp
      have "gw_stopping (fst ?r)" "still_ok (fst ?r)" "gw_closing (fst ?r) \<noteq> None" "Disconnect \<notin> set (snd ?r)"
        unfolding r using shutdown_facts [OF b a] by (auto simp: still_ok_def)
      moreover have "Disconnect \<notin> set outs" using ok False by (simp add: closing_ok_def)
      ultimately have "closing_ok (fst (close_when_ready (fst ?r, snd ?r))) (outs @ snd (close_when_ready (fst ?r, snd ?r)))"
        by (intro close) simp_all
      then show ?thesis by (simp add: gateway_step_def)
    next
      case no: False
      obtain g' outs' where r: "?r = (g', outs')" by fastforce
      from running_handler [OF False no, of cfg vu] ok False show ?thesis
        by (simp add: gateway_step_def close_when_ready_def r closing_ok_def shutdown_ready_def)
    qed
  qed
qed

lemma run_facts:
  "gw_book (fst (gateway_run cfg vu es)) \<and> att_inv (fst (gateway_run cfg vu es))
   \<and> closing_ok (fst (gateway_run cfg vu es)) (snd (gateway_run cfg vu es))"
proof (induction es rule: rev_induct)
  case Nil
  show ?case using new_gateway_book new_gateway_att by (simp add: closing_ok_def) (simp add: new_gateway_def)
next
  case (snoc e es)
  then show ?case
    using closing_step [of "fst (gateway_run cfg vu es)" "snd (gateway_run cfg vu es)" cfg vu e] final.shot_inv [of "fst (gateway_run cfg vu es)" cfg vu e]
      step_att [of "fst (gateway_run cfg vu es)" cfg vu e]
    by (simp add: steps_append case_prod_beta att_step_def)
qed

lemma stopping_silent:
  "still_ok g \<Longrightarrow> gw_stopping g \<Longrightarrow> gw_book g \<Longrightarrow> att_inv g \<Longrightarrow> setups c (snd (steps (gateway_step cfg vu) g es)) = 0"
proof (induction es arbitrary: g)
  case (Cons e es)
  let ?r = "gateway_step cfg vu g e"
  have "gw_book (fst ?r)" "att_inv (fst ?r)"
    using final.shot_inv [OF Cons.prems(3), of cfg vu e] step_att [of g cfg vu e] Cons.prems(4) by (simp_all add: att_step_def)
  with Cons.IH [of "fst ?r"] still_setups [OF Cons.prems, of cfg vu e] show ?case by (simp add: case_prod_beta)
qed simp



section \<open>The owner of a call\<close>

lemma remove_calls_gone: "i \<in> set js \<Longrightarrow> oget (calls (fst (remove_calls js r))) i = None"
  and remove_calls_less: "oget (calls (fst (remove_calls js r))) i = Some x \<Longrightarrow> oget (calls r) i = Some x"
proof (induction js arbitrary: r x)
  case (Cons j js)
  have less: "oget (calls (fst (remove_call r j))) i = Some y \<Longrightarrow> oget (calls r) i = Some y \<and> i \<noteq> j" for r y
    by (auto simp: remove_call_def split: option.splits if_splits)
  have gone: "oget (calls (fst (remove_call r j))) j = None" for r
    by (simp add: remove_call_def split: option.split)
  {
    case 1
    then show ?case
    proof (cases "i = j")
      case True
      show ?thesis
        using Cons.IH(2) [of "fst (remove_call r j)"] gone True
        by (cases "oget (calls (fst (remove_calls js (fst (remove_call r j))))) i") (auto simp: case_prod_beta)
    next
      case False
      with 1 Cons.IH(1) show ?thesis by (simp add: case_prod_beta)
    qed
  next
    case 2
    then have "oget (calls (fst (remove_calls js (fst (remove_call r j))))) i = Some x" by (simp add: case_prod_beta)
    from less [OF Cons.IH(2) [OF this]] show ?case by simp
  }
qed simp_all

lemma cancel_all_registry: "gw_registry (fst (cancel_all ps g)) = gw_registry g"
proof (induction ps arbitrary: g)
  case (Cons p ps)
  obtain i k where p: "p = (i, k)" by (cases p)
  let ?r = "cancelOutbound i (op_controlConnectionId (at_params (gw_attempts g ! k))) g"
  have "gw_registry (fst ?r) = gw_registry g"
    by (simp add: cancelOutbound_def new_task_def set_attempt_def Let_def split: option.split)
  with Cons.IH [of "fst ?r"] show ?case by (simp add: p case_prod_beta)
qed simp

lemma terminate_registry:
  "registry_inv (gw_registry g) \<Longrightarrow> oget (calls (gw_registry (fst (terminateCallsForControlConnection c g)))) i = Some x \<Longrightarrow>
     ac_controlConnectionId x \<noteq> Some c"
proof -
  assume r: "registry_inv (gw_registry g)" and x: "oget (calls (gw_registry (fst (terminateCallsForControlConnection c g)))) i = Some x"
  define mine where "mine = filter (\<lambda>(i, k). op_controlConnectionId (at_params (gw_attempts g ! k)) = Some c) (gw_pendingOutbound g)"
  obtain g1 outs where 1: "cancel_all mine g = (g1, outs)" by fastforce
  define ids where "ids = map ac_callId (filter (\<lambda>x. ac_controlConnectionId x = Some c) (map snd (calls (gw_registry g1))))"
  obtain reg removed where 2: "remove_calls ids (gw_registry g1) = (reg, removed)" by fastforce
  obtain g2 outs' where 3: "end_all removed (g1\<lparr>gw_registry := reg\<rparr>) = (g2, outs')" by fastforce
  have g1: "gw_registry g1 = gw_registry g" using cancel_all_registry [of mine g] 1 by simp
  have "gw_registry (fst (terminateCallsForControlConnection c g)) = reg"
    using 1 2 3 end_all_tasks [of removed "g1\<lparr>gw_registry := reg\<rparr>"]
    by (simp add: terminateCallsForControlConnection_def mine_def [symmetric] ids_def [symmetric])
  with x have y: "oget (calls reg) i = Some x" by simp
  show ?thesis
  proof
    assume o: "ac_controlConnectionId x = Some c"
    have "oget (calls (gw_registry g)) i = Some x"
      using remove_calls_less [of ids "gw_registry g1" i x] y 2 g1 by simp
    then have "(i, x) \<in> set (calls (gw_registry g))" "ac_callId x = i" using r by (auto simp: registry_inv_def dest: oget_in)
    with o have "i \<in> set ids" by (force simp: ids_def g1)
    with remove_calls_gone [of i ids "gw_registry g1"] y 2 show False by simp
  qed
qed

lemma owner_calls_terminated:
  fixes cfg vu c and es :: "gw_event list"
  defines "g \<equiv> fst (gateway_run cfg vu (es @ [OwnerGone c]))"
  shows "list_all (\<lambda>(i, x). ac_controlConnectionId x \<noteq> Some c) (calls (gw_registry g))"
proof -
  let ?g = "fst (gateway_run cfg vu es)"
  have r: "registry_inv (gw_registry ?g)" "registry_inv (gw_registry g)"
    using run_book gw_book_parts(2) unfolding g_def by blast+
  have "gw_registry g = gw_registry (fst (terminateCallsForControlConnection c ?g))"
    by (simp add: g_def steps_append gateway_step_def close_when_ready_def case_prod_beta)
  with terminate_registry [OF r(1), of c] have "ac_controlConnectionId x \<noteq> Some c" if "oget (calls (gw_registry g)) i = Some x" for i x
    using that by simp
  moreover have "owf (calls (gw_registry g))" using r(2) by (simp add: registry_inv_def)
  ultimately show ?thesis using oget_iff by (fastforce simp: list_all_iff)
qed

text \<open>
  C33. The end of a control connection terminates its active calls, but an INVITE it has accepted and that is
  still being answered is not looked at: when drachtio then reports the dialog, the call becomes active and
  belongs to the connection that is gone.
\<close>

theorem late_answer_orphan:
  fixes cfg vu c h k d now and es :: "gw_event list"
  defines "g \<equiv> fst (gateway_run cfg vu (es @ [OwnerGone c]))"
    and "g' \<equiv> fst (gateway_run cfg vu (es @ [OwnerGone c, UasSettled h k (UasAnswered d) now]))"
  assumes "k < length (gw_invites g)" "iv_phase (gw_invites g ! k) = Answering sdp status hs receiver"
    "iv_connection (gw_invites g ! k) = Some c" "\<not> gw_stopping g"
  shows "list_all (\<lambda>(i, x). ac_controlConnectionId x \<noteq> Some c) (calls (gw_registry g))
    \<and> (\<exists>x. get_call (gw_registry g') (iv_callId (gw_invites g ! k)) = Some x \<and> ac_controlConnectionId x = Some c \<and> ac_dialog x = d)"
proof -
  have "g' = fst (gateway_step cfg vu g (UasSettled h k (UasAnswered d) now))"
    by (simp add: g_def g'_def steps_append case_prod_beta)
  then have "gw_registry g' = gw_registry (fst (uas_settled cfg h k (UasAnswered d) now g))"
    using assms(3) by (simp add: gateway_step_def close_when_ready_def case_prod_beta)
  then have "gw_registry g' = activate (gw_registry g) (inbound_call (gw_invites g ! k) d sdp receiver now)"
    using assms(3-6) by (simp add: uas_settled_def Let_def finish_invite_def set_invite_def with_registry_def)
  then have "get_call (gw_registry g') (iv_callId (gw_invites g ! k)) = Some (inbound_call (gw_invites g ! k) d sdp receiver now)"
    using activate_remove [of "gw_registry g" "inbound_call (gw_invites g ! k) d sdp receiver now"] by simp
  moreover have "ac_dialog (inbound_call iv d sdp receiver now) = d" for iv by (simp add: inbound_call_def Let_def)
  ultimately show ?thesis
    using owner_calls_terminated [of c cfg vu es] assms(5) by (simp add: g_def)
qed

definition sample_control_hub :: hub where
  "sample_control_hub = empty_hub\<lparr>connections := [(''c'', \<lparr>cn_id = ''c'', cn_open = True,
     cn_routes = [\<lparr>rc_match = UserPrefix, rc_value = ''1'', rc_url = ''control://c''\<rparr>], cn_sequences = []\<rparr>)]\<rparr>"

definition sample_control_answer :: asked_outcome where
  "sample_control_answer = ControlAnswer (Inr (JObj [(''action'', JStr ''answer''), (''sdp'', JStr ''o'')]))"

theorem late_answer_orphan_witness:
  "\<exists>x. get_call (gw_registry (fst (sample_gateway [InviteArrived sample_control_hub sample_request ''u'' ''t'',
       InviteAnswered sample_control_hub 0 sample_control_answer ''t'', OwnerGone ''c'', UasSettled empty_hub 0 (UasAnswered 7) ''t''])))
     ''a'' = Some x \<and> ac_controlConnectionId x = Some ''c''"
proof -
  let ?es = "[InviteArrived sample_control_hub sample_request ''u'' ''t'', InviteAnswered sample_control_hub 0 sample_control_answer ''t'']"
  have f: "0 < length (gw_invites (fst (sample_gateway (?es @ [OwnerGone ''c'']))))"
    "iv_phase (gw_invites (fst (sample_gateway (?es @ [OwnerGone ''c'']))) ! 0) = Answering ''o'' None None ''control://c''"
    "iv_connection (gw_invites (fst (sample_gateway (?es @ [OwnerGone ''c'']))) ! 0) = Some ''c''"
    "\<not> gw_stopping (fst (sample_gateway (?es @ [OwnerGone ''c''])))"
    "iv_callId (gw_invites (fst (sample_gateway (?es @ [OwnerGone ''c'']))) ! 0) = ''a''" by code_simp+
  from late_answer_orphan [OF f(1,2,3,4), of empty_hub 7 "''t''"] f(5) show ?thesis by auto
qed

section \<open>Reaching drachtio\<close>

lemma wait_rounds_delays:
  "0 \<le> delay \<Longrightarrow> delay \<le> mx \<Longrightarrow> i < length (fst (wait_rounds mx delay n rs)) \<Longrightarrow>
   fst (wait_rounds mx delay n rs) ! i = min (delay * 2 ^ i) mx"
proof (induction mx delay n rs arbitrary: i rule: wait_rounds.induct)
  case (2 mx delay n stopping up rs)
  show ?case
  proof (cases "stopping \<or> up")
    case False
    with "2.prems" have IH: "j < length (fst (wait_rounds mx (min (delay * 2) mx) (n + 1) rs)) \<Longrightarrow>
      fst (wait_rounds mx (min (delay * 2) mx) (n + 1) rs) ! j = min (min (delay * 2) mx * 2 ^ j) mx" for j
      by (intro "2.IH") auto
    have "min (min (delay * 2) mx * 2 ^ j) mx = min (delay * 2 ^ Suc j) mx" for j
    proof (cases "delay * 2 \<le> mx")
      case True
      then show ?thesis by (simp add: min_def ac_simps)
    next
      case big: False
      have "mx * 1 \<le> mx * 2 ^ j" using "2.prems" by (intro mult_left_mono) auto
      moreover have "mx * 1 \<le> delay * 2 * 2 ^ j"
        using big "2.prems" by (intro mult_mono) auto
      ultimately show ?thesis using big by (simp add: min_def ac_simps)
    qed
    with False IH "2.prems" show ?thesis by (cases i) (auto simp: case_prod_beta)
  next
    case True
    with "2.prems" show ?thesis by (cases stopping) auto
  qed
qed simp

text \<open>
  The delays between the attempts to reach drachtio double from the initial delay up to the maximum, and
  the gateway gives up only when it is stopping: with an endpoint that comes up the loop ends, at the first
  round that finds it up.
\<close>

theorem retry_delays_bounded:
  assumes "0 \<le> ro_initialRetryDelayMs ro" and "ro_initialRetryDelayMs ro \<le> ro_maxRetryDelayMs ro"
  shows "(\<forall>i<length (fst (waitForDrachtioEndpoint ro rs)). fst (waitForDrachtioEndpoint ro rs) ! i
       = min (ro_initialRetryDelayMs ro * 2 ^ i) (ro_maxRetryDelayMs ro))
    \<and> waitForDrachtioEndpoint ro (replicate n (False, False) @ (False, True) # rest)
       = (map (\<lambda>i. min (ro_initialRetryDelayMs ro * 2 ^ i) (ro_maxRetryDelayMs ro)) [0..<n], EndpointUp (n + 1))"
proof -
  let ?d = "ro_initialRetryDelayMs ro" and ?m = "ro_maxRetryDelayMs ro"
  have up: "snd (wait_rounds mx d m (replicate n (False, False) @ (False, True) # rest)) = EndpointUp (n + m)
      \<and> length (fst (wait_rounds mx d m (replicate n (False, False) @ (False, True) # rest))) = n" for mx d m
    by (induction n arbitrary: d m) (simp_all add: case_prod_beta)
  have "fst (wait_rounds ?m ?d 1 (replicate n (False, False) @ (False, True) # rest)) = map (\<lambda>i. min (?d * 2 ^ i) ?m) [0..<n]"
    using up wait_rounds_delays [OF assms] by (intro nth_equalityI) simp_all
  with up wait_rounds_delays [OF assms, of _ 1 rs] show ?thesis
    by (simp add: waitForDrachtioEndpoint_def prod_eq_iff)
qed

theorem retry_delays_bounded_witness:
  "waitForDrachtioEndpoint (resolve_options \<lparr>co_initialRetryDelayMs = None, co_maxRetryDelayMs = None, co_endpointTimeoutMs = None\<rparr>)
     (replicate 6 (False, False) @ [(False, True)]) = ([250, 500, 1000, 2000, 4000, 5000], EndpointUp 7)"
proof -
  let ?ro = "resolve_options \<lparr>co_initialRetryDelayMs = None, co_maxRetryDelayMs = None, co_endpointTimeoutMs = None\<rparr>"
  have f: "ro_initialRetryDelayMs ?ro = 250" "ro_maxRetryDelayMs ?ro = 5000" by (simp_all add: resolve_options_def or_value_def)
  have "waitForDrachtioEndpoint ?ro (replicate 6 (False, False) @ (False, True) # [])
      = (map (\<lambda>i. min (ro_initialRetryDelayMs ?ro * 2 ^ i) (ro_maxRetryDelayMs ?ro)) [0..<6], EndpointUp (6 + 1))"
    using retry_delays_bounded [of ?ro "[]" 6 "[]"] f by simp
  with f show ?thesis by (simp add: upt_rec)
qed

end
