(* ===== verification/HttpServer.thy ===== *)
theory HttpServer
  imports Gateway ControlServer
begin

text \<open>
  The HTTP server (\<open>src/http-server.ts\<close>): its middleware, its route table, the answer to each outcome
  and to each error, and the exchanges in progress. What a request asks of the rest of the gateway is a
  value, \<open>http_action\<close>; its outcome arrives as an event.

  Express is a parameter, the record \<open>express\<close>: which paths a mount point covers, how a pattern matches
  a path, giving the parameters and the segments of the wildcard, and what \<open>express.json\<close> makes of the
  body under a size limit. \<open>num\<close> is \<open>Number\<close> on a string.
\<close>

section \<open>Requests, responses and what they read\<close>

datatype body_error = EntityTooLarge | ParseFailed | OtherBodyError

record http_request =
  hr_method :: string
  hr_path :: string
  hr_authorization :: "string option"
  hr_query :: jv
  hr_content :: string

record express =
  ex_mounted :: "string \<Rightarrow> string \<Rightarrow> bool"
  ex_match :: "string \<Rightarrow> string \<Rightarrow> ((string \<times> string) list \<times> string list) option"
  ex_json :: "nat \<Rightarrow> http_request \<Rightarrow> (body_error, jv) result"

datatype response_body = JsonBody jv | RawBody string

record http_response =
  re_status :: int
  re_headers :: "(string \<times> jv) list"
  re_body :: response_body

definition json_response :: "int \<Rightarrow> jv \<Rightarrow> http_response" where
  "json_response status v = \<lparr>re_status = status, re_headers = [], re_body = JsonBody v\<rparr>"

definition http_error_jv :: "string \<Rightarrow> jv" where
  "http_error_jv m = JObj [(''error'', JStr m)]"

text \<open>
  What the handlers read: the registry, the state of the connection to drachtio, the snapshots of the
  media sessions when there is a media controller, the routes of the control connections when there
  is a hub, and the two callbacks about media.
\<close>

record http_env =
  he_registry :: registry
  he_connected :: bool
  he_media :: "(string \<times> jv) list option"
  he_hub :: "hub option"
  he_mediaReady :: bool
  he_mediaStatus :: jv

datatype http_action =
  Reply http_response
| Fallback string jv
| RunCommand string jv
| MergeTargets "(string \<times> string) list"
| Download string string
| CallReinvite string string "sip_headers option"
| CallBye string "string option" "sip_headers option"
| StartDrain
| NotRouted

section \<open>Helpers\<close>

definition queryString :: "jv \<Rightarrow> string option" where
  "queryString v = (case str_of v of None \<Rightarrow> None | Some s \<Rightarrow> if blank s then None else Some (js_trim s))"

definition buildSipUri :: "jv \<Rightarrow> string" where
  "buildSipUri query =
     (let user = (case queryString (fld query ''uriUser'') of
                    Some u \<Rightarrow> u
                  | None \<Rightarrow> (case queryString (fld query ''toUser'') of Some u \<Rightarrow> u | None \<Rightarrow> []))
      in ''sip:'' @ user @ (case queryString (fld query ''domain'') of None \<Rightarrow> [] | Some d \<Rightarrow> ''@'' @ d))"

definition drachtioReject :: "int \<Rightarrow> string \<Rightarrow> jv" where
  "drachtioReject status reason =
     JObj [(''action'', JStr ''reject''), (''data'', JObj [(''status'', jint status), (''reason'', JStr reason)])]"

definition parseQueryInteger :: "(string \<Rightarrow> jnum) \<Rightarrow> jv \<Rightarrow> jv" where
  "parseQueryInteger num v =
     (case str_of v of
        None \<Rightarrow> JUndef
      | Some s \<Rightarrow> if blank s then JUndef else if int_of (JNum (num s)) \<noteq> None then JNum (num s) else v)"

definition recordingListQuery :: "(string \<Rightarrow> jnum) \<Rightarrow> jv \<Rightarrow> (string \<times> jv) list" where
  "recordingListQuery num query =
     [(''startsWith'', opt_str (str_of (fld query ''startsWith''))),
      (''skip'', parseQueryInteger num (fld query ''skip'')),
      (''limit'', parseQueryInteger num (fld query ''limit''))]"

definition merge_target :: "nat \<times> jv \<Rightarrow> (gw_error, string \<times> string) result" where
  "merge_target = (\<lambda>(index, target).
     let name = ''targets['' @ show_nat index @ '']'' in
     rbind (guard (is_record target) (CommandValidationError (name @ '' must be an object''))) (\<lambda>_.
     rbind (require (CommandValidationError (name @ ''.backendId is required'')) (nonblank_str (fld target ''backendId''))) (\<lambda>b.
     rbind (require (CommandValidationError (name @ ''.path is required'')) (nonblank_str (fld target ''path''))) (\<lambda>p.
     Inr (b, p)))))"

definition recordingMergeTargets :: "jv \<Rightarrow> (gw_error, (string \<times> string) list) result" where
  "recordingMergeTargets v =
     rbind (require (CommandValidationError ''targets must be an array'') (arr_of v)) (\<lambda>ts.
       rmap merge_target (enumerate 0 ts))"

definition recording_headers :: "string list" where
  "recording_headers =
     [''content-type'', ''content-length'', ''content-disposition'', ''cache-control'', ''etag'', ''last-modified'']"

definition copyRecordingHeaders :: "(string \<times> jv) list \<Rightarrow> (string \<times> jv) list" where
  "copyRecordingHeaders headers =
     List.map_filter (\<lambda>name. case map_of headers name of
         Some (JStr s) \<Rightarrow> Some (name, JStr s)
       | Some (JNum n) \<Rightarrow> Some (name, JNum n)
       | Some (JArr vs) \<Rightarrow> Some (name, JArr vs)
       | _ \<Rightarrow> None) recording_headers"

text \<open>\<open>{ ...(v ?? {}) }\<close>\<close>

definition spread :: "jv \<Rightarrow> (string \<times> jv) list" where
  "spread v = (case v of
     JObj fs \<Rightarrow> fs
   | JArr vs \<Rightarrow> map (\<lambda>(i, w). (show_nat i, w)) (enumerate 0 vs)
   | JStr s \<Rightarrow> map (\<lambda>(i, c). (show_nat i, JStr [c])) (enumerate 0 s)
   | _ \<Rightarrow> [])"

definition call_jv :: "call_snapshot \<Rightarrow> jv" where
  "call_jv c = JObj
     [(''callId'', JStr (cs_callId c)), (''sipCallId'', JStr (cs_sipCallId c)), (''routeUrl'', JStr (cs_routeUrl c)),
      (''receiverUrl'', JStr (cs_receiverUrl c)), (''controlConnectionId'', opt_str (cs_controlConnectionId c)),
      (''destinationUri'', JStr (cs_destinationUri c)), (''destinationUser'', opt_str (cs_destinationUser c)),
      (''sourceUri'', opt_str (cs_sourceUri c)), (''localSdp'', opt_str (cs_localSdp c)),
      (''remoteSdp'', opt_str (cs_remoteSdp c)), (''createdAt'', JStr (cs_createdAt c)), (''updatedAt'', JStr (cs_updatedAt c))]"

section \<open>Errors\<close>

definition error_response :: "gw_error \<Rightarrow> http_response" where
  "error_response err =
     (case err of
        GatewayDrainingError \<Rightarrow>
          \<lparr>re_status = 503, re_headers = [(''Retry-After'', JStr ''1'')],
           re_body = JsonBody (JObj [(''error'', JStr draining_message), (''code'', JStr ''SHUTTING_DOWN'')])\<rparr>
      | CallNotFoundError _ \<Rightarrow> json_response 404 (http_error_jv ''Call not found'')
      | MediaSessionNotFoundError m \<Rightarrow> json_response 404 (http_error_jv (if m = [] then ''Media resource not found'' else m))
      | MediaEndpointNotFoundError m \<Rightarrow> json_response 404 (http_error_jv (if m = [] then ''Media resource not found'' else m))
      | MediaBackendNotFoundError m \<Rightarrow> json_response 404 (http_error_jv (if m = [] then ''Media resource not found'' else m))
      | InvalidCallStateError m \<Rightarrow> json_response 409 (http_error_jv (if m = [] then ''Invalid call state'' else m))
      | MediaActionConflictError m \<Rightarrow> json_response 409 (http_error_jv m)
      | MediaUnavailableError m \<Rightarrow> json_response 503 (http_error_jv m)
      | MediaBackendUnavailableError m \<Rightarrow> json_response 503 (http_error_jv m)
      | MediaRecordingProxyError status m \<Rightarrow> json_response status (http_error_jv m)
      | CommandValidationError m \<Rightarrow> json_response 400 (http_error_jv m)
      | InvalidHttpActionError m \<Rightarrow> json_response 400 (http_error_jv m)
      | CommandNotImplementedError m \<Rightarrow> json_response 501 (http_error_jv m)
      | _ \<Rightarrow> json_response 500 (http_error_jv ''Internal Server Error''))"

definition body_error_response :: "body_error \<Rightarrow> http_response" where
  "body_error_response e =
     (case e of
        EntityTooLarge \<Rightarrow> json_response 413 (http_error_jv ''Invalid JSON request body'')
      | ParseFailed \<Rightarrow> json_response 400 (http_error_jv ''Invalid JSON request body'')
      | OtherBodyError \<Rightarrow> json_response 500 (http_error_jv ''Internal Server Error''))"

section \<open>Admission and routing of destinations\<close>

definition draining_now :: "lifecycle option \<Rightarrow> bool" where
  "draining_now life = (case life of None \<Rightarrow> False | Some l \<Rightarrow> isDraining l)"

definition total_routes :: "gateway_config \<Rightarrow> http_env \<Rightarrow> nat" where
  "total_routes cfg env = (case he_hub env of None \<Rightarrow> 0 | Some h \<Rightarrow> routeCount h) + length (ROUTES cfg)"

definition admitting :: "gateway_config \<Rightarrow> http_env \<Rightarrow> lifecycle option \<Rightarrow> bool" where
  "admitting cfg env life \<longleftrightarrow>
     he_connected env \<and> \<not> draining_now life \<and> (\<not> RTPBRIDGE_REQUIRED cfg \<or> he_mediaReady env)
     \<and> (\<not> ROUTES_REQUIRED cfg \<or> total_routes cfg env > 0)"

definition destination_matched :: "gateway_config \<Rightarrow> http_env \<Rightarrow> string \<Rightarrow> string option \<Rightarrow> bool" where
  "destination_matched cfg env uri user =
     (let dest = \<lparr>destinationUri = uri, destinationUser = (if user = None then getSipUser (Some uri) else user)\<rparr>
      in acceptsSipHost uri (SIP_ALLOWED_DOMAINS cfg)
         \<and> ((case he_hub env of None \<Rightarrow> False | Some h \<Rightarrow> findRoute dest h \<noteq> None) \<or> matchRoute (ROUTES cfg) dest \<noteq> None))"

definition accept_new :: "gateway_config \<Rightarrow> http_env \<Rightarrow> lifecycle option \<Rightarrow> string \<Rightarrow> string option \<Rightarrow> bool" where
  "accept_new cfg env life uri user \<longleftrightarrow>
     destination_matched cfg env uri user \<and> admitting cfg env life \<and> truthy_opt (DRACHTIO_APP_TAG cfg)"

definition lookup_jv :: "gateway_config \<Rightarrow> http_env \<Rightarrow> lifecycle option \<Rightarrow> string \<Rightarrow> string option \<Rightarrow> jv" where
  "lookup_jv cfg env life uri user =
     JObj ([(''matched'', JBool (destination_matched cfg env uri user)),
            (''acceptNew'', JBool (accept_new cfg env life uri user))]
           @ (if accept_new cfg env life uri user then [(''tag'', opt_str (DRACHTIO_APP_TAG cfg))] else []))"

text \<open>\<open>GET /drachtio/route\<close>: drachtio asks where to send a call.\<close>

definition drachtio_route :: "gateway_config \<Rightarrow> http_env \<Rightarrow> lifecycle option \<Rightarrow> jv \<Rightarrow> http_action" where
  "drachtio_route cfg env life query =
     (let uri = (case queryString (fld query ''uri'') of Some u \<Rightarrow> u | None \<Rightarrow> buildSipUri query);
          user = (case queryString (fld query ''uriUser'') of Some u \<Rightarrow> Some u | None \<Rightarrow> getSipUser (Some uri))
      in if \<not> acceptsSipHost uri (SIP_ALLOWED_DOMAINS cfg) then Reply (json_response 200 (drachtioReject 404 ''No Route''))
         else if destination_matched cfg env uri user
         then if \<not> admitting cfg env life then Reply (json_response 200 (drachtioReject 503 ''Service Unavailable''))
              else Reply (json_response 200 (JObj [(''action'', JStr ''route''),
                     (''data'', JObj [(''tag'', opt_str (DRACHTIO_APP_TAG cfg))])]))
         else (case Option.bind (DRACHTIO_ROUTE_FALLBACK_URL cfg) non_empty of
                 Some url \<Rightarrow> Fallback url query
               | None \<Rightarrow> Reply (json_response 200 (drachtioReject 404 ''No Route''))))"

section \<open>The routes\<close>

text \<open>What a handler is given: the configuration and the state, and the request with its parameters.\<close>

record route_context =
  rx_config :: gateway_config
  rx_env :: http_env
  rx_life :: "lifecycle option"
  rx_query :: jv
  rx_body :: jv
  rx_params :: "(string \<times> string) list"
  rx_wildcard :: "string list"

type_synonym handler = "route_context \<Rightarrow> (gw_error, http_action) result"

record route =
  rt_method :: string
  rt_pattern :: string
  rt_handler :: handler

text \<open>Express gives every named parameter of the pattern that matched.\<close>

definition param_of :: "(string \<times> string) list \<Rightarrow> string \<Rightarrow> string" where
  "param_of ps name = (case map_of ps name of Some v \<Rightarrow> v | None \<Rightarrow> [])"

abbreviation route_param :: "route_context \<Rightarrow> string \<Rightarrow> string" where
  "route_param rx \<equiv> param_of (rx_params rx)"

definition wildcard_path :: "route_context \<Rightarrow> string" where
  "wildcard_path rx = join_on (CHR ''/'') (rx_wildcard rx)"

text \<open>The four shapes of a command route: the parameter over the body, the parameter alone, the body alone.\<close>

definition over_body :: "string \<Rightarrow> string \<Rightarrow> handler" where
  "over_body command name rx =
     Inr (RunCommand command (JObj (oset name (JStr (route_param rx name)) (spread (rx_body rx)))))"

definition parameter_only :: "string \<Rightarrow> string \<Rightarrow> handler" where
  "parameter_only command name rx = Inr (RunCommand command (JObj [(name, JStr (route_param rx name))]))"

definition body_only :: "string \<Rightarrow> handler" where
  "body_only command rx = Inr (RunCommand command (coalesce (rx_body rx) (JObj [])))"

definition get_routing_status :: handler where
  "get_routing_status rx =
     Inr (Reply (json_response 200 (JObj
       [(''acceptNew'', JBool (admitting (rx_config rx) (rx_env rx) (rx_life rx) \<and> truthy_opt (DRACHTIO_APP_TAG (rx_config rx)))),
        (''draining'', JBool (draining_now (rx_life rx))),
        (''tag'', opt_str (DRACHTIO_APP_TAG (rx_config rx))),
        (''media'', he_mediaStatus (rx_env rx)),
        (''routeCount'', jint (int (total_routes (rx_config rx) (rx_env rx))))])))"

definition post_routing_lookup :: handler where
  "post_routing_lookup rx =
     rbind (guard (is_record (rx_body rx)) (CommandValidationError ''Lookup requires a JSON object'')) (\<lambda>_.
     let user = fld (rx_body rx) ''destinationUser'' in
     (case str_of (fld (rx_body rx) ''destinationUri'') of
        Some uri \<Rightarrow>
          if sip_scheme uri = None \<or> length uri > 2048
             \<or> (user \<noteq> JUndef \<and> (case str_of user of None \<Rightarrow> True | Some u \<Rightarrow> length u > 256))
          then Inl (CommandValidationError ''Invalid SIP lookup destination'')
          else Inr (Reply (json_response 200 (lookup_jv (rx_config rx) (rx_env rx) (rx_life rx) uri (str_of user))))
      | None \<Rightarrow> Inl (CommandValidationError ''Invalid SIP lookup destination'')))"

definition get_calls :: handler where
  "get_calls rx =
     Inr (Reply (json_response 200 (JObj [(''calls'', JArr (map call_jv (list_calls (he_registry (rx_env rx)))))])))"

definition get_sessions :: handler where
  "get_sessions rx =
     Inr (Reply (json_response 200 (JObj [(''sessions'', JArr (map call_jv (list_calls (he_registry (rx_env rx)))
       @ (case he_media (rx_env rx) of None \<Rightarrow> [] | Some ms \<Rightarrow> map snd ms)))])))"

definition get_one_call :: handler where
  "get_one_call rx =
     Inr (Reply (case get_call (he_registry (rx_env rx)) (route_param rx ''callId'') of
        None \<Rightarrow> json_response 404 (http_error_jv ''Call not found'')
      | Some c \<Rightarrow> json_response 200 (call_jv (snapshotCall c))))"

definition get_one_session :: handler where
  "get_one_session rx =
     (let i = route_param rx ''sessionId'' in
      Inr (Reply (case get_call (he_registry (rx_env rx)) i of
         Some c \<Rightarrow> json_response 200 (call_jv (snapshotCall c))
       | None \<Rightarrow>
           (case Option.bind (he_media (rx_env rx)) (\<lambda>ms. map_of ms i) of
              Some v \<Rightarrow> json_response 200 v
            | None \<Rightarrow> json_response 404 (http_error_jv ''Session not found'')))))"

definition get_recordings :: "(string \<Rightarrow> jnum) \<Rightarrow> handler" where
  "get_recordings num rx = Inr (RunCommand ''recording.list'' (JObj (recordingListQuery num (rx_query rx))))"

definition get_backend_recordings :: "(string \<Rightarrow> jnum) \<Rightarrow> handler" where
  "get_backend_recordings num rx =
     Inr (RunCommand ''recording.list''
       (JObj (oset ''backendId'' (JStr (route_param rx ''backendId'')) (recordingListQuery num (rx_query rx)))))"

definition require_media :: "route_context \<Rightarrow> (gw_error, unit) result" where
  "require_media rx = guard (he_media (rx_env rx) \<noteq> None) (MediaUnavailableError ''Media commands require RTPBRIDGE_HOST'')"

definition post_merge :: handler where
  "post_merge rx =
     rbind (require_media rx) (\<lambda>_.
     rbind (recordingMergeTargets (fld (rx_body rx) ''targets'')) (\<lambda>ts. Inr (MergeTargets ts)))"

definition get_recording :: handler where
  "get_recording rx =
     rbind (require_media rx) (\<lambda>_. Inr (Download (route_param rx ''backendId'') (wildcard_path rx)))"

definition delete_recording :: handler where
  "delete_recording rx =
     Inr (RunCommand ''recording.delete''
       (JObj [(''backendId'', JStr (route_param rx ''backendId'')), (''path'', JStr (wildcard_path rx))]))"

definition post_reinvite :: handler where
  "post_reinvite rx =
     (case nonblank_str (fld (rx_body rx) ''sdp'') of
        None \<Rightarrow> Inr (Reply (json_response 400 (http_error_jv ''Missing sdp'')))
      | Some sdp \<Rightarrow>
          rbind (optionalHeaders (fld (rx_body rx) ''headers'')) (\<lambda>headers.
          Inr (CallReinvite (route_param rx ''callId'') sdp headers)))"

definition post_bye :: handler where
  "post_bye rx =
     rbind (optionalHeaders (fld (rx_body rx) ''headers'')) (\<lambda>headers.
     Inr (CallBye (route_param rx ''callId'') (str_of (fld (rx_body rx) ''reason'')) headers))"

definition post_drain :: handler where
  "post_drain rx =
     (case rx_life rx of
        None \<Rightarrow> Inr (Reply (json_response 503 (http_error_jv ''Gateway shutdown lifecycle unavailable'')))
      | Some _ \<Rightarrow> Inr StartDrain)"

text \<open>The routes behind authentication, in the order they are registered.\<close>

definition http_routes :: "(string \<Rightarrow> jnum) \<Rightarrow> route list" where
  "http_routes num = map (\<lambda>(m, p, h). \<lparr>rt_method = m, rt_pattern = p, rt_handler = h\<rparr>)
     [(''GET'', ''/routing/status'', get_routing_status),
      (''POST'', ''/routing/lookup'', post_routing_lookup),
      (''GET'', ''/calls'', get_calls),
      (''GET'', ''/sessions'', get_sessions),
      (''GET'', ''/calls/:callId'', get_one_call),
      (''GET'', ''/sessions/:sessionId'', get_one_session),
      (''POST'', ''/sessions'', body_only ''session.create''),
      (''POST'', ''/calls'', body_only ''sip.createOutbound''),
      (''DELETE'', ''/sessions/:sessionId'', over_body ''session.delete'' ''sessionId''),
      (''POST'', ''/sessions/:sessionId/webrtc/offers'', over_body ''webrtc.createOffer'' ''sessionId''),
      (''POST'', ''/sessions/:sessionId/webrtc/from-offer'', over_body ''webrtc.createFromOffer'' ''sessionId''),
      (''POST'', ''/endpoints/:endpointId/webrtc/answer'', over_body ''webrtc.acceptAnswer'' ''endpointId''),
      (''POST'', ''/endpoints/:endpointId/webrtc/offer-answer'', over_body ''webrtc.acceptOffer'' ''endpointId''),
      (''POST'', ''/endpoints/:endpointId/webrtc/ice-restart'', parameter_only ''webrtc.restartIce'' ''endpointId''),
      (''POST'', ''/sessions/:sessionId/rtp/offers'', over_body ''rtp.createOffer'' ''sessionId''),
      (''POST'', ''/sessions/:sessionId/rtp/from-offer'', over_body ''rtp.createFromOffer'' ''sessionId''),
      (''POST'', ''/endpoints/:endpointId/rtp/answer'', over_body ''rtp.acceptAnswer'' ''endpointId''),
      (''POST'', ''/endpoints/:endpointId/rtp/reinvite'', over_body ''rtp.reinvite'' ''endpointId''),
      (''POST'', ''/sessions/:sessionId/media/play'', over_body ''media.play'' ''sessionId''),
      (''POST'', ''/sessions/:sessionId/media/play-and-wait'', over_body ''media.playAndWait'' ''sessionId''),
      (''POST'', ''/sessions/:sessionId/media/bridge'', over_body ''media.bridge'' ''sessionId''),
      (''POST'', ''/media/bridges/:endpointId/unbridge'', parameter_only ''media.unbridge'' ''endpointId''),
      (''DELETE'', ''/media/bridges/:endpointId'', parameter_only ''media.unbridge'' ''endpointId''),
      (''POST'', ''/sessions/:sessionId/media/gather'', over_body ''media.gather'' ''sessionId''),
      (''POST'', ''/sessions/:sessionId/media/play-and-gather'', over_body ''media.playAndGather'' ''sessionId''),
      (''POST'', ''/sessions/:sessionId/media/leave-message'', over_body ''media.leaveMessage'' ''sessionId''),
      (''POST'', ''/media/endpoints/:endpointId/dtmf'', over_body ''dtmf.inject'' ''endpointId''),
      (''POST'', ''/media/endpoints/:endpointId/direction'', over_body ''endpoint.updateDirection'' ''endpointId''),
      (''DELETE'', ''/media/endpoints/:endpointId'', parameter_only ''media.stop'' ''endpointId''),
      (''POST'', ''/sessions/:sessionId/recordings'', over_body ''recording.start'' ''sessionId''),
      (''POST'', ''/recordings/:recordingId/stop'', parameter_only ''recording.stop'' ''recordingId''),
      (''GET'', ''/recordings'', get_recordings num),
      (''GET'', ''/recordings/:backendId'', get_backend_recordings num),
      (''POST'', ''/recordings/merge'', post_merge),
      (''GET'', ''/recordings/:backendId/*recordingPath'', get_recording),
      (''DELETE'', ''/recordings/:backendId/*recordingPath'', delete_recording),
      (''POST'', ''/calls/:callId/reinvite'', post_reinvite),
      (''POST'', ''/calls/:callId/bye'', post_bye),
      (''POST'', ''/drain'', post_drain),
      (''POST'', ''/terminate'', post_drain)]"

section \<open>The pipeline\<close>

text \<open>\<open>app.get\<close> also serves HEAD.\<close>

definition serves :: "string \<Rightarrow> string \<Rightarrow> bool" where
  "serves m verb \<longleftrightarrow> m = verb \<or> m = ''GET'' \<and> verb = ''HEAD''"

text \<open>The body is read before anything else, under the smaller limit below \<open>/routing\<close>.\<close>

definition body_limit :: "express \<Rightarrow> http_request \<Rightarrow> nat" where
  "body_limit fw req = (if ex_mounted fw ''/routing'' (hr_path req) then 16 * 1024 else 2 * 1024 * 1024)"

definition probe :: "express \<Rightarrow> gateway_config \<Rightarrow> http_env \<Rightarrow> lifecycle option \<Rightarrow> http_request \<Rightarrow> http_response option" where
  "probe fw cfg env life req =
     (if serves ''GET'' (hr_method req) \<and> ex_match fw ''/healthz'' (hr_path req) \<noteq> None
      then Some (json_response (if he_connected env then 200 else 503)
             (JObj [(''ok'', JBool (he_connected env)), (''calls'', jint (int (registry_size (he_registry env))))]))
      else if serves ''GET'' (hr_method req) \<and> ex_match fw ''/readyz'' (hr_path req) \<noteq> None
      then Some (json_response (if admitting cfg env life then 200 else 503)
             (JObj [(''ok'', JBool (admitting cfg env life)), (''draining'', JBool (draining_now life))]))
      else None)"

text \<open>\<open>httpBearerAuth\<close>: a template prints a missing token as \<open>undefined\<close>.\<close>

definition http_authorized :: "gateway_config \<Rightarrow> http_request \<Rightarrow> bool" where
  "http_authorized cfg req \<longleftrightarrow>
     CONTROL_AUTH_MODE cfg \<noteq> Bearer
     \<or> hr_authorization req =
         Some (''Bearer '' @ (case CONTROL_AUTH_TOKEN cfg of Some t \<Rightarrow> t | None \<Rightarrow> ''undefined''))"

definition route_for :: "express \<Rightarrow> route list \<Rightarrow> http_request \<Rightarrow> (route \<times> (string \<times> string) list \<times> string list) option" where
  "route_for fw rs req =
     (case find (\<lambda>r. serves (rt_method r) (hr_method req) \<and> ex_match fw (rt_pattern r) (hr_path req) \<noteq> None) rs of
        None \<Rightarrow> None
      | Some r \<Rightarrow> (case ex_match fw (rt_pattern r) (hr_path req) of None \<Rightarrow> None | Some (ps, rest) \<Rightarrow> Some (r, ps, rest)))"

text \<open>What follows the admission of a request: the lookup of drachtio, authentication, the routes.\<close>

definition dispatch ::
  "express \<Rightarrow> (string \<Rightarrow> jnum) \<Rightarrow> gateway_config \<Rightarrow> http_env \<Rightarrow> lifecycle option \<Rightarrow> http_request \<Rightarrow> jv \<Rightarrow> http_action" where
  "dispatch fw num cfg env life req body =
     (if truthy_opt (DRACHTIO_APP_TAG cfg) \<and> serves ''GET'' (hr_method req)
         \<and> ex_match fw ''/drachtio/route'' (hr_path req) \<noteq> None
      then drachtio_route cfg env life (hr_query req)
      else if \<not> http_authorized cfg req then Reply (json_response 401 (http_error_jv ''Unauthorized''))
      else (case route_for fw (http_routes num) req of
              None \<Rightarrow> NotRouted
            | Some (r, ps, rest) \<Rightarrow>
                (case rt_handler r \<lparr>rx_config = cfg, rx_env = env, rx_life = life, rx_query = hr_query req, rx_body = body,
                     rx_params = ps, rx_wildcard = rest\<rparr> of
                   Inl e \<Rightarrow> Reply (error_response e)
                 | Inr a \<Rightarrow> a)))"

section \<open>Exchanges\<close>

text \<open>
  The outcome of an action: an error, a value, the stream of a recording with its status and headers,
  or the answer of the fallback with its status and content type.
\<close>

datatype outcome =
  Failed gw_error
| Returned jv
| Streaming int "(string \<times> jv) list" string
| Fetched int jv string

definition answer :: "http_action \<Rightarrow> outcome \<Rightarrow> http_response" where
  "answer a out =
     (case out of
        Failed e \<Rightarrow>
          (case a of
             Fallback _ _ \<Rightarrow> json_response 200 (drachtioReject 502 ''Route Lookup Failed'')
           | _ \<Rightarrow> error_response e)
      | Returned v \<Rightarrow>
          (case a of
             CallBye _ _ _ \<Rightarrow> json_response 200 (JObj [(''ok'', JBool True)])
           | _ \<Rightarrow> json_response 200 v)
      | Streaming status headers bytes \<Rightarrow>
          \<lparr>re_status = status, re_headers = copyRecordingHeaders headers, re_body = RawBody bytes\<rparr>
      | Fetched status ctype data \<Rightarrow>
          \<lparr>re_status = status, re_headers = (if str_of ctype = None then [] else [(''content-type'', ctype)]),
           re_body = RawBody data\<rparr>)"

text \<open>
  The requests received, in order. \<open>xg_ticket\<close> is the operation a request holds until its response has
  been sent or its connection is closed, \<open>xg_waiting\<close> the action whose outcome is awaited.
\<close>

record exchange =
  xg_ticket :: "nat option"
  xg_waiting :: "http_action option"

record web =
  wb_life :: "lifecycle option"
  wb_exchanges :: "exchange list"

datatype web_output = SendReply nat http_response | Perform nat http_action | Unrouted nat | Life lifecycle_output

datatype web_event =
  HttpIncoming http_env http_request
| HttpOutcome nat outcome
| HttpOver nat
| OtherLife lifecycle_event

definition begin_request :: "lifecycle option \<Rightarrow> (gw_error, lifecycle option \<times> nat option) result" where
  "begin_request life =
     (case life of
        None \<Rightarrow> Inr (None, None)
      | Some l \<Rightarrow> (case beginOperation l of
           Inl _ \<Rightarrow> Inl GatewayDrainingError
         | Inr (l', h) \<Rightarrow> Inr (Some l', Some h)))"

definition exchange_of :: "nat option \<Rightarrow> http_action option \<Rightarrow> exchange" where
  "exchange_of t a = \<lparr>xg_ticket = t, xg_waiting = a\<rparr>"

text \<open>What an admitted request starts: \<open>lifecycle.drain\<close> takes effect before its response is sent.\<close>

definition start_action :: "nat \<Rightarrow> nat option \<Rightarrow> http_action \<Rightarrow> nat \<Rightarrow> web \<Rightarrow> web \<times> web_output list" where
  "start_action maxWait t a k w =
     (let add = (\<lambda>wait w. w\<lparr>wb_exchanges := wb_exchanges w @ [exchange_of t wait]\<rparr>) in
      (case a of
         Reply r \<Rightarrow> (add None w, [SendReply k r])
       | NotRouted \<Rightarrow> (add None w, [Unrouted k])
       | StartDrain \<Rightarrow>
           (case wb_life w of
              None \<Rightarrow> (add None w, [SendReply k (json_response 503 (http_error_jv ''Gateway shutdown lifecycle unavailable''))])
            | Some l \<Rightarrow>
                (case drain maxWait ''http'' l of
                   (l', outs) \<Rightarrow>
                     (add None (w\<lparr>wb_life := Some l'\<rparr>),
                      map Life outs @ [SendReply k (json_response 202 (JObj [(''ok'', JBool True), (''draining'', JBool True)]))])))
       | _ \<Rightarrow> (add (Some a) w, [Perform k a])))"

definition incoming ::
  "express \<Rightarrow> (string \<Rightarrow> jnum) \<Rightarrow> gateway_config \<Rightarrow> http_env \<Rightarrow> http_request \<Rightarrow> web \<Rightarrow> web \<times> web_output list" where
  "incoming fw num cfg env req w =
     (let k = length (wb_exchanges w);
          finished = w\<lparr>wb_exchanges := wb_exchanges w @ [exchange_of None None]\<rparr>
      in case ex_json fw (body_limit fw req) req of
           Inl e \<Rightarrow> (finished, [SendReply k (body_error_response e)])
         | Inr body \<Rightarrow>
             (case probe fw cfg env (wb_life w) req of
                Some r \<Rightarrow> (finished, [SendReply k r])
              | None \<Rightarrow>
                  (case begin_request (wb_life w) of
                     Inl e \<Rightarrow> (finished, [SendReply k (error_response e)])
                   | Inr (life, t) \<Rightarrow>
                       start_action (nat (SHUTDOWN_MAX_WAIT_MS cfg)) t (dispatch fw num cfg env life req body) k
                         (w\<lparr>wb_life := life\<rparr>))))"

definition outcome_ready :: "nat \<Rightarrow> outcome \<Rightarrow> web \<Rightarrow> web \<times> web_output list" where
  "outcome_ready k out w =
     (if k < length (wb_exchanges w)
      then (case xg_waiting (wb_exchanges w ! k) of
              None \<Rightarrow> (w, [])
            | Some a \<Rightarrow>
                (w\<lparr>wb_exchanges := (wb_exchanges w)[k := (wb_exchanges w ! k)\<lparr>xg_waiting := None\<rparr>]\<rparr>, [SendReply k (answer a out)]))
      else (w, []))"

text \<open>The \<open>finish\<close> and the \<open>close\<close> event of a response.\<close>

definition response_over :: "nat \<Rightarrow> web \<Rightarrow> web" where
  "response_over k w =
     (if k < length (wb_exchanges w)
      then (case (wb_life w, xg_ticket (wb_exchanges w ! k)) of
              (Some l, Some h) \<Rightarrow> w\<lparr>wb_life := Some (finishOperation h l)\<rparr>
            | _ \<Rightarrow> w)
      else w)"

definition held_tickets :: "web \<Rightarrow> nat list" where
  "held_tickets w = List.map_filter xg_ticket (wb_exchanges w)"

text \<open>The steps. The operations of the requests are finished by their own responses only.\<close>

fun web_step ::
  "express \<Rightarrow> (string \<Rightarrow> jnum) \<Rightarrow> gateway_config \<Rightarrow> web \<Rightarrow> web_event \<Rightarrow> web \<times> web_output list" where
  "web_step fw num cfg w (HttpIncoming env req) = incoming fw num cfg env req w"
| "web_step fw num cfg w (HttpOutcome k out) = outcome_ready k out w"
| "web_step fw num cfg w (HttpOver k) = (response_over k w, [])"
| "web_step fw num cfg w (OtherLife e) =
     (case wb_life w of
        None \<Rightarrow> (w, [])
      | Some l \<Rightarrow>
          if (case e of Finish h \<Rightarrow> h \<in> set (held_tickets w) | _ \<Rightarrow> False) then (w, [])
          else (case lifecycle_step l e of (l', outs) \<Rightarrow> (w\<lparr>wb_life := Some l'\<rparr>, map Life outs)))"

definition new_web :: "lifecycle option \<Rightarrow> web" where
  "new_web life = \<lparr>wb_life = life, wb_exchanges = []\<rparr>"

section \<open>Properties\<close>

subsection \<open>Authentication\<close>

text \<open>What can be asked without a token.\<close>

definition public :: "express \<Rightarrow> gateway_config \<Rightarrow> http_request \<Rightarrow> bool" where
  "public fw cfg req \<longleftrightarrow> serves ''GET'' (hr_method req)
     \<and> (ex_match fw ''/healthz'' (hr_path req) \<noteq> None \<or> ex_match fw ''/readyz'' (hr_path req) \<noteq> None
        \<or> truthy_opt (DRACHTIO_APP_TAG cfg) \<and> ex_match fw ''/drachtio/route'' (hr_path req) \<noteq> None)"

definition harmless :: "gateway_config \<Rightarrow> http_request \<Rightarrow> web_output \<Rightarrow> bool" where
  "harmless cfg req out =
     (case out of
        SendReply _ _ \<Rightarrow> True
      | Perform _ (Fallback url q) \<Rightarrow> DRACHTIO_ROUTE_FALLBACK_URL cfg = Some url \<and> q = hr_query req
      | _ \<Rightarrow> False)"

lemma drachtio_route_actions:
  "(\<exists>r. drachtio_route cfg env life q = Reply r)
   \<or> (\<exists>url. drachtio_route cfg env life q = Fallback url q \<and> DRACHTIO_ROUTE_FALLBACK_URL cfg = Some url)"
  by (auto simp: drachtio_route_def Let_def non_empty_def bind_eq_Some_conv split: option.split if_splits)

lemma unauthorized_dispatch:
  assumes "\<not> http_authorized cfg req"
  shows "dispatch fw num cfg env life req body =
     (if truthy_opt (DRACHTIO_APP_TAG cfg) \<and> serves ''GET'' (hr_method req) \<and> ex_match fw ''/drachtio/route'' (hr_path req) \<noteq> None
      then drachtio_route cfg env life (hr_query req) else Reply (json_response 401 (http_error_jv ''Unauthorized'')))"
  using assms by (auto simp: dispatch_def)

lemma begin_request_draining: "begin_request life = Inr (life', t) \<Longrightarrow> draining_now life' = draining_now life"
  by (auto simp: begin_request_def beginOperation_def draining_now_def rbind_eq_Inr split: option.splits sum.splits)

lemma start_reply: "start_action mw t (Reply r) k w = (w\<lparr>wb_exchanges := wb_exchanges w @ [exchange_of t None]\<rparr>, [SendReply k r])"
  by (simp add: start_action_def)

lemma start_fallback:
  "start_action mw t (Fallback u q) k w = (w\<lparr>wb_exchanges := wb_exchanges w @ [exchange_of t (Some (Fallback u q))]\<rparr>, [Perform k (Fallback u q)])"
  by (simp add: start_action_def)


text \<open>The hypotheses hold for a loaded configuration and a request that sends no header.\<close>

definition plain_express :: express where
  "plain_express = \<lparr>ex_mounted = (\<lambda>p q. starts_with q p), ex_match = (\<lambda>p q. if p = q then Some ([], []) else None),
     ex_json = (\<lambda>n r. Inr JUndef)\<rparr>"

definition drain_request :: http_request where
  "drain_request = \<lparr>hr_method = ''POST'', hr_path = ''/drain'', hr_authorization = None, hr_query = JObj [], hr_content = []\<rparr>"

definition idle_env :: http_env where
  "idle_env = \<lparr>he_registry = empty_registry, he_connected = True, he_media = None, he_hub = None, he_mediaReady = True,
     he_mediaStatus = JUndef\<rparr>"


subsection \<open>What a command is about\<close>

text \<open>The named parameters of a pattern.\<close>

definition pattern_names :: "string \<Rightarrow> string list" where
  "pattern_names p = List.map_filter (\<lambda>s. case s of c # n \<Rightarrow> if c = CHR '':'' then Some n else None | [] \<Rightarrow> None)
     (split_on (CHR ''/'') p)"

definition overrides :: "route \<Rightarrow> (string \<times> string) list \<Rightarrow> jv \<Rightarrow> bool" where
  "overrides r ps p = list_all (\<lambda>n. fld p n = JStr (param_of ps n)) (pattern_names (rt_pattern r))"

definition handler_ok :: "route \<Rightarrow> bool" where
  "handler_ok r \<longleftrightarrow> (\<forall>rx c p. rt_handler r rx = Inr (RunCommand c p) \<longrightarrow> overrides r (rx_params rx) p)"

lemma find_mem: "find P xs = Some x \<Longrightarrow> x \<in> set xs \<and> P x"
  by (auto simp: find_Some_iff)

lemma handlers_ok: "list_all handler_ok (http_routes num)"
  unfolding http_routes_def
  by (simp add: handler_ok_def overrides_def pattern_names_def map_filter_simps over_body_def parameter_only_def body_only_def
      get_routing_status_def post_routing_lookup_def get_calls_def get_sessions_def get_one_call_def get_one_session_def
      get_recordings_def get_backend_recordings_def post_merge_def get_recording_def delete_recording_def post_reinvite_def
      post_bye_def post_drain_def rbind_eq_Inr update_conv Let_def split: option.split)

text \<open>
  C11. A command that a request runs comes from the first registered route that serves its method and
  path, and every named parameter of that route's pattern is a field of the command's parameters: a body
  that names another session, endpoint or recording than the path is overruled.
\<close>

theorem path_parameters_win:
  "case dispatch fw num cfg env life req body of
     RunCommand c p \<Rightarrow>
       (case route_for fw (http_routes num) req of
          Some (r, ps, rest) \<Rightarrow> overrides r ps p \<and> http_authorized cfg req
        | None \<Rightarrow> False)
   | _ \<Rightarrow> True"
proof (cases "dispatch fw num cfg env life req body")
  case (RunCommand c p)
  have route: "\<not> (truthy_opt (DRACHTIO_APP_TAG cfg) \<and> serves ''GET'' (hr_method req)
      \<and> ex_match fw ''/drachtio/route'' (hr_path req) \<noteq> None)" "http_authorized cfg req"
    using RunCommand drachtio_route_actions [of cfg env life "hr_query req"] by (auto simp: dispatch_def split: if_splits)
  with RunCommand obtain r ps rest where f: "route_for fw (http_routes num) req = Some (r, ps, rest)"
    by (auto simp: dispatch_def split: option.splits)
  then have "r \<in> set (http_routes num)"
    by (auto simp: route_for_def split: option.splits dest: find_mem)
  then have ok: "handler_ok r" using handlers_ok [of num] by (simp add: list_all_iff)
  let ?rx = "\<lparr>rx_config = cfg, rx_env = env, rx_life = life, rx_query = hr_query req, rx_body = body, rx_params = ps, rx_wildcard = rest\<rparr>"
  have "rt_handler r ?rx = Inr (RunCommand c p)"
    using RunCommand route f by (auto simp: dispatch_def split: sum.splits if_splits)
  with ok have "overrides r (rx_params ?rx) p" unfolding handler_ok_def by blast
  with RunCommand route(2) f show ?thesis by simp
qed simp_all

subsection \<open>Lookups and INVITEs\<close>

text \<open>
  C36. The lookup over HTTP and the handling of an INVITE agree: for the same URI an INVITE is passed on
  to a receiver exactly when the lookup says that it matches, and refused with 404 otherwise; only the
  503 of a draining gateway comes first.
\<close>

theorem lookup_agrees_with_invite:
  "(case snd (handleInvite cfg h req uuid now g) of
      [AskInvite k q] \<Rightarrow> \<not> gw_draining g
        \<and> destination_matched cfg (env\<lparr>he_hub := Some h\<rparr>) (stripSipUri (rq_uri req)) None
    | [Respond k status reason hs] \<Rightarrow>
        if gw_draining g then status = 503 \<and> hs = retry_after
        else status = 404 \<and> \<not> destination_matched cfg (env\<lparr>he_hub := Some h\<rparr>) (stripSipUri (rq_uri req)) None
    | _ \<Rightarrow> False)"
proof -
  let ?uri = "stripSipUri (rq_uri req)"
  let ?dest = "\<lparr>destinationUri = ?uri, destinationUser = getSipUser (Some ?uri)\<rparr>"
  have m: "destination_matched cfg (env\<lparr>he_hub := Some h\<rparr>) ?uri None
      \<longleftrightarrow> acceptsSipHost ?uri (SIP_ALLOWED_DOMAINS cfg) \<and> invite_route cfg h ?dest \<noteq> None"
    by (auto simp: destination_matched_def invite_route_def Let_def split: option.split)
  obtain reg c where r: "reserveCallId (gw_registry g) uuid (call_id_of req) = Some (reg, c)"
    using fresh_candidate by (fastforce simp: reserveCallId_def Let_def)
  show ?thesis
  proof (cases "gw_draining g")
    case True
    then show ?thesis by (simp add: handleInvite_def refuse_def)
  next
    case False
    show ?thesis
    proof (cases "acceptsSipHost ?uri (SIP_ALLOWED_DOMAINS cfg) \<and> invite_route cfg h ?dest \<noteq> None")
      case True
      then obtain c2 u where "invite_route cfg h ?dest = Some (c2, u)" by auto
      with False True r m show ?thesis
        by (simp add: handleInvite_def handleAdmittedInvite_def Let_def start_invite_def)
    next
      case no: False
      with False m have "\<not> destination_matched cfg (env\<lparr>he_hub := Some h\<rparr>) ?uri None" by blast
      moreover have "handleInvite cfg h req uuid now g = refuse req now 404 ''No Route'' None g"
        using False no by (auto simp: handleInvite_def handleAdmittedInvite_def Let_def split: option.split)
      ultimately show ?thesis using False by (simp add: refuse_def)
    qed
  qed
qed

subsection \<open>Errors\<close>

definition status_of_code :: "(string \<times> int) list" where
  "status_of_code = [(''SHUTTING_DOWN'', 503), (''NOT_IMPLEMENTED'', 501), (''BAD_REQUEST'', 400), (''CONFLICT'', 409),
     (''NOT_FOUND'', 404), (''MEDIA_UNAVAILABLE'', 503), (''INTERNAL_ERROR'', 500)]"


subsection \<open>Exchanges\<close>

definition replies_for :: "nat \<Rightarrow> web_output list \<Rightarrow> nat" where
  "replies_for k outs = length (filter (\<lambda>out. case out of SendReply j _ \<Rightarrow> j = k | Unrouted j \<Rightarrow> j = k | _ \<Rightarrow> False) outs)"

lemma replies_for_simps [simp]:
  "replies_for k [] = 0" "replies_for k (xs @ ys) = replies_for k xs + replies_for k ys"
  "replies_for k (SendReply j r # outs) = of_bool (j = k) + replies_for k outs"
  "replies_for k (Unrouted j # outs) = of_bool (j = k) + replies_for k outs"
  "replies_for k (Perform j a # outs) = replies_for k outs" "replies_for k (Life x # outs) = replies_for k outs"
  "replies_for k (map Life lo) = 0"
  by (auto simp: replies_for_def filter_map o_def)

text \<open>The exchange of a request is closed by its reply: what one step adds to the replies.\<close>

definition closed :: "web \<Rightarrow> nat \<Rightarrow> nat" where
  "closed w k = of_bool (k < length (wb_exchanges w) \<and> xg_waiting (wb_exchanges w ! k) = None)"

definition accounts :: "web \<Rightarrow> web \<times> web_output list \<Rightarrow> bool" where
  "accounts w r \<longleftrightarrow> (\<forall>k. closed (fst r) k = closed w k + replies_for k (snd r))"

lemma closed_life [simp]: "closed (w\<lparr>wb_life := l\<rparr>) k = closed w k"
  by (simp add: closed_def)

lemma closed_add:
  "closed (v\<lparr>wb_exchanges := wb_exchanges w @ [exchange_of t a]\<rparr>) k =
     closed w k + of_bool (k = length (wb_exchanges w) \<and> a = None)"
  by (auto simp: closed_def nth_append exchange_of_def less_Suc_eq)

lemma start_accounts: "k = length (wb_exchanges w) \<Longrightarrow> accounts w (start_action mw t a k w)"
  by (cases a) (auto simp: accounts_def start_action_def Let_def closed_add split: option.split prod.split)

lemma accounts_life: "accounts (w\<lparr>wb_life := l\<rparr>) r \<Longrightarrow> accounts w r"
  by (simp add: accounts_def)

lemma incoming_accounts: "accounts w (incoming fw num cfg env req w)"
proof -
  have early: "accounts w (w\<lparr>wb_exchanges := wb_exchanges w @ [exchange_of None None]\<rparr>, [SendReply (length (wb_exchanges w)) r])" for r
    by (auto simp: accounts_def closed_add)
  have go: "accounts w (start_action mw t a (length (wb_exchanges w)) (w\<lparr>wb_life := l\<rparr>))" for mw t a l
    by (rule accounts_life, rule start_accounts) simp
  show ?thesis
    using early go by (simp add: incoming_def Let_def split: sum.split option.split prod.split)
qed

lemma outcome_accounts: "accounts w (outcome_ready k out w)"
  by (auto simp: accounts_def outcome_ready_def closed_def nth_list_update split: option.split)

lemma step_accounts_web: "accounts w (web_step fw num cfg w e)"
proof (cases e)
  case (HttpIncoming env req)
  then show ?thesis by (simp add: incoming_accounts)
next
  case (HttpOutcome k out)
  then show ?thesis by (simp add: outcome_accounts)
next
  case (HttpOver k)
  then show ?thesis by (simp add: accounts_def response_over_def split: option.split)
next
  case (OtherLife x)
  then show ?thesis by (auto simp: accounts_def split: option.split prod.split)
qed

interpretation web_reply: single_shot "web_step fw num cfg" "\<lambda>_. True" "\<lambda>w. closed w k" "replies_for k" "\<lambda>_. False" for fw num cfg k
proof
  show "replies_for k (snd (web_step fw num cfg w e)) + closed w k \<le> closed (fst (web_step fw num cfg w e)) k"
    and "closed (fst (web_step fw num cfg w e)) k \<le> replies_for k (snd (web_step fw num cfg w e)) + closed w k + of_bool False" for w e
    using step_accounts_web [of w fw num cfg e] by (simp_all add: accounts_def)
qed (simp_all add: closed_def)

abbreviation web_run ::
  "express \<Rightarrow> (string \<Rightarrow> jnum) \<Rightarrow> gateway_config \<Rightarrow> lifecycle option \<Rightarrow> web_event list \<Rightarrow> web \<times> web_output list" where
  "web_run fw num cfg life es \<equiv> steps (web_step fw num cfg) (new_web life) es"

text \<open>
  C38. Every request is answered exactly once: in every run, at any moment, the requests whose action is
  still awaited have had no reply and all the others exactly one, from the gateway or, when no route
  serves them, from Express; a second outcome of the same action changes nothing.
\<close>

theorem http_answered_once:
  "replies_for k (snd (web_run fw num cfg life es)) =
     (if k < length (wb_exchanges (fst (web_run fw num cfg life es)))
         \<and> xg_waiting (wb_exchanges (fst (web_run fw num cfg life es)) ! k) = None then 1 else 0)"
  using web_reply.counted [where s = "new_web life" and fw = fw and num = num and cfg = cfg and k = k and es = es] by (simp add: closed_def) (simp add: new_web_def)

subsection \<open>Draining\<close>

text \<open>Every ticket is a handle of the lifecycle, no two requests share one, and those not yet over are live.\<close>

definition tickets :: "web \<Rightarrow> nat option list" where
  "tickets w = map xg_ticket (wb_exchanges w)"

definition tickets_ok :: "nat set \<Rightarrow> lifecycle \<Rightarrow> nat option list \<Rightarrow> bool" where
  "tickets_ok gone l ts \<longleftrightarrow> balanced l
     \<and> (\<forall>j<length ts. \<forall>k<length ts. ts ! j \<noteq> None \<longrightarrow> ts ! j = ts ! k \<longrightarrow> j = k)
     \<and> (\<forall>k<length ts. \<forall>h. ts ! k = Some h \<longrightarrow> h < length (finishedFlags l) \<and> (k \<notin> gone \<longrightarrow> h \<in> live_handles l))"

definition grows :: "lifecycle \<Rightarrow> lifecycle \<Rightarrow> bool" where
  "grows l l' \<longleftrightarrow> balanced l' \<and> live_handles l \<subseteq> live_handles l' \<and> length (finishedFlags l) \<le> length (finishedFlags l')"

lemma tickets_grow: "tickets_ok gone l ts \<Longrightarrow> grows l l' \<Longrightarrow> tickets_ok gone l' ts"
  unfolding tickets_ok_def grows_def by (meson le_trans less_le_trans subsetD)

lemma tickets_none: "tickets_ok gone l ts \<Longrightarrow> tickets_ok gone l (ts @ [None])"
  by (auto simp: tickets_ok_def nth_append less_Suc_eq)

lemma tickets_new:
  assumes "tickets_ok gone l ts" and "grows l l'" and "h = length (finishedFlags l)" and "h \<in> live_handles l'"
  shows "tickets_ok gone l' (ts @ [Some h])"
proof -
  have ne: "ts ! k \<noteq> Some h" if "k < length ts" for k using assms(1,3) that by (auto simp: tickets_ok_def)
  moreover have "Some h \<noteq> ts ! k" if "k < length ts" for k using ne [OF that] by metis
  moreover have "h < length (finishedFlags l')" using assms(4) by (simp add: live_handles_def)
  ultimately show ?thesis
    using tickets_grow [OF assms(1,2)] assms(4) by (auto simp: tickets_ok_def nth_append less_Suc_eq)
qed

lemma tickets_over:
  assumes "tickets_ok gone l ts" and "k < length ts" and "ts ! k = Some h"
  shows "tickets_ok (insert k gone) (finishOperation h l) ts"
proof -
  have "ts ! j \<noteq> Some h" if "j < length ts" "j \<noteq> k" for j using assms that unfolding tickets_ok_def by (metis option.distinct(1))
  moreover have "length (finishedFlags (finishOperation h l)) = length (finishedFlags l)" by (simp add: finishOperation_def)
  ultimately show ?thesis
    using assms(1) finish_balanced [of l h] by (auto simp: tickets_ok_def live_finish)
qed

lemma tickets_other:
  assumes "tickets_ok gone l ts" and "Some h \<notin> set ts"
  shows "tickets_ok gone (finishOperation h l) ts"
proof -
  have "length (finishedFlags (finishOperation h l)) = length (finishedFlags l)" by (simp add: finishOperation_def)
  moreover have "ts ! k \<noteq> Some h" if "k < length ts" for k using assms(2) nth_mem [OF that] by metis
  ultimately show ?thesis
    using assms(1) finish_balanced [of l h] by (auto simp: tickets_ok_def live_finish)
qed

lemma tickets_weaken: "tickets_ok gone l ts \<Longrightarrow> gone \<subseteq> gone' \<Longrightarrow> tickets_ok gone' l ts"
  unfolding tickets_ok_def by blast

lemma grows_drain: "balanced l \<Longrightarrow> grows l (fst (drain mw r l))"
  by (simp add: grows_def drain_def live_handles_def)

lemma flags_mono: "length (finishedFlags l) \<le> length (finishedFlags (lifecycle_state l e))"
proof -
  have stopped: "finishedFlags (fst (stop f l)) = finishedFlags l" for f by (simp add: stop_def)
  show ?thesis
  proof (cases e)
    case Begin
    then show ?thesis by (cases "isStopping l") (simp_all add: beginOperation_def assertRunning_def guard_def rbind_def)
  next
    case (Finish h)
    then show ?thesis by (simp add: finishOperation_def)
  next
    case (Drain mw r)
    then show ?thesis by (simp add: drain_def)
  next
    case (PollTick n)
    then show ?thesis by (simp add: poll_def stopped)
  next
    case DeadlineTick
    then show ?thesis by (simp add: deadline_def stopped)
  next
    case CleanupOver
    then show ?thesis by (simp add: cleanup_over_def)
  qed
qed

lemma grows_event: "balanced l \<Longrightarrow> (\<And>t. e \<noteq> Finish t) \<Longrightarrow> lifecycle_step l e = (l', outs) \<Longrightarrow> grows l l'"
  using life_event_live [of l e l' outs] life_event_balanced [of l e] flags_mono [of l e] by (simp add: grows_def)

lemma grows_begin:
  "balanced l \<Longrightarrow> beginOperation l = Inr (l', h) \<Longrightarrow> grows l l' \<and> h = length (finishedFlags l) \<and> h \<in> live_handles l'"
  using live_begin [of l l' h] begin_balanced [of l l' h] by (auto simp: grows_def beginOperation_def rbind_eq_Inr)

definition web_ok :: "nat set \<Rightarrow> web \<Rightarrow> bool" where
  "web_ok gone w \<longleftrightarrow> (case wb_life w of None \<Rightarrow> set (tickets w) \<subseteq> {None} | Some l \<Rightarrow> tickets_ok gone l (tickets w))"

lemma tickets_simps [simp]:
  "tickets (w\<lparr>wb_life := l\<rparr>) = tickets w"
  "tickets (v\<lparr>wb_exchanges := wb_exchanges w @ [exchange_of t a]\<rparr>) = tickets w @ [t]"
  by (simp_all add: tickets_def exchange_of_def)

lemma start_web_ok:
  assumes "web_ok gone w" and "wb_life w = None \<Longrightarrow> t = None"
    and "\<And>l. wb_life w = Some l \<Longrightarrow> tickets_ok gone l (tickets w @ [t])"
  shows "web_ok gone (fst (start_action mw t a k w))"
proof (cases "wb_life w")
  case None
  with assms(1,2) show ?thesis
    by (cases a) (simp_all add: start_action_def Let_def web_ok_def)
next
  case (Some l)
  have "tickets_ok gone (fst (drain mw ''http'' l)) (tickets w @ [t])"
    by (rule tickets_grow [OF assms(3) [OF Some] grows_drain]) (use assms(3) [OF Some] in \<open>simp add: tickets_ok_def\<close>)
  with assms(3) [OF Some] Some show ?thesis
    by (cases a) (simp_all add: start_action_def Let_def web_ok_def case_prod_beta)
qed

lemma incoming_web_ok:
  assumes "web_ok gone w"
  shows "web_ok gone (fst (incoming fw num cfg env req w))"
proof -
  have early: "web_ok gone (w\<lparr>wb_exchanges := wb_exchanges w @ [exchange_of None None]\<rparr>)"
    using assms by (auto simp: web_ok_def tickets_none split: option.splits)
  have go: "web_ok gone (fst (start_action mw t a k (w\<lparr>wb_life := life\<rparr>)))"
    if b: "begin_request (wb_life w) = Inr (life, t)" for mw t a k life
  proof (cases "wb_life w")
    case None
    with b have "life = None" "t = None" by (auto simp: begin_request_def)
    with None assms show ?thesis by (intro start_web_ok) (auto simp: web_ok_def)
  next
    case (Some l)
    with b obtain l' h where l: "beginOperation l = Inr (l', h)" "life = Some l'" "t = Some h"
      by (auto simp: begin_request_def split: sum.splits)
    have ok: "tickets_ok gone l (tickets w)" using assms Some by (simp add: web_ok_def)
    then have "balanced l" by (simp add: tickets_ok_def)
    note g = grows_begin [OF this l(1)]
    have "tickets_ok gone l' (tickets w @ [t])" "tickets_ok gone l' (tickets w)"
      using tickets_new [OF ok] tickets_grow [OF ok] g l(3) by blast+
    with l show ?thesis by (intro start_web_ok) (auto simp: web_ok_def)
  qed
  show ?thesis
    using early go by (simp add: incoming_def Let_def split: sum.split option.split prod.split)
qed

lemma held_iff: "h \<in> set (held_tickets w) \<longleftrightarrow> Some h \<in> set (tickets w)"
proof -
  have "h \<in> set (List.map_filter xg_ticket xs) \<longleftrightarrow> Some h \<in> set (map xg_ticket xs)" for xs
    by (induction xs) (auto simp: map_filter_simps split: option.split)
  then show ?thesis by (simp add: held_tickets_def tickets_def)
qed

lemma outcome_frame: "tickets (fst (outcome_ready k out w)) = tickets w" "wb_life (fst (outcome_ready k out w)) = wb_life w"
proof -
  show "wb_life (fst (outcome_ready k out w)) = wb_life w" by (simp add: outcome_ready_def split: option.split)
  have "map xg_ticket (xs[k := (xs ! k)\<lparr>xg_waiting := None\<rparr>]) = map xg_ticket xs" for xs :: "exchange list"
  proof (cases "k < length xs")
    case True
    then show ?thesis using list_update_id [of "map xg_ticket xs" k] by (simp add: map_update)
  qed (simp add: list_update_beyond)
  then show "tickets (fst (outcome_ready k out w)) = tickets w" by (simp add: outcome_ready_def tickets_def split: option.split)
qed

lemma step_web_ok:
  assumes "web_ok gone w"
  shows "web_ok (case e of HttpOver k \<Rightarrow> insert k gone | _ \<Rightarrow> gone) (fst (web_step fw num cfg w e))"
proof (cases e)
  case (HttpIncoming env req)
  with incoming_web_ok [OF assms] show ?thesis by simp
next
  case (HttpOutcome k out)
  with assms show ?thesis by (simp add: web_ok_def outcome_frame split: option.splits)
next
  case (HttpOver k)
  show ?thesis
  proof (cases "k < length (wb_exchanges w) \<and> wb_life w \<noteq> None \<and> xg_ticket (wb_exchanges w ! k) \<noteq> None")
    case True
    then obtain l h where l: "wb_life w = Some l" "xg_ticket (wb_exchanges w ! k) = Some h" by auto
    with assms True have "tickets_ok gone l (tickets w)" by (simp add: web_ok_def)
    from tickets_over [OF this, of k h] l True HttpOver show ?thesis
      by (simp add: web_ok_def response_over_def tickets_def)
  next
    case False
    then have "response_over k w = w" by (auto simp: response_over_def split: option.split)
    with assms HttpOver show ?thesis by (auto simp: web_ok_def intro: tickets_weaken split: option.splits)
  qed
next
  case (OtherLife x)
  show ?thesis
  proof (cases "wb_life w")
    case None
    with OtherLife assms show ?thesis by (simp add: web_ok_def)
  next
    case (Some l)
    with assms have ok: "tickets_ok gone l (tickets w)" by (simp add: web_ok_def)
    then have b: "balanced l" by (simp add: tickets_ok_def)
    obtain l' outs where s: "lifecycle_step l x = (l', outs)" by fastforce
    show ?thesis
    proof (cases "\<exists>t. x = Finish t")
      case True
      then obtain t where t: "x = Finish t" by blast
      with OtherLife Some ok tickets_other [OF ok, of t] show ?thesis
        by (simp add: web_ok_def held_iff)
    next
      case False
      with tickets_grow [OF ok grows_event [OF b _ s]] OtherLife Some s show ?thesis
        by (cases x) (auto simp: web_ok_def)
    qed
  qed
qed

definition overs :: "web_event list \<Rightarrow> nat set" where
  "overs es = {k. HttpOver k \<in> set es}"

lemma run_web_ok: "web_ok (overs es) (fst (web_run fw num cfg (Some new_lifecycle) es))"
proof (induction es rule: rev_induct)
  case Nil
  show ?case using new_lifecycle_inv by (simp add: web_ok_def new_web_def tickets_def tickets_ok_def lifecycle_inv_def)
next
  case (snoc e es)
  have "overs (es @ [e]) = (case e of HttpOver k \<Rightarrow> insert k (overs es) | _ \<Rightarrow> overs es)"
    by (auto simp: overs_def split: web_event.split)
  with step_web_ok [OF snoc.IH, of e] show ?case by (simp add: steps_append case_prod_beta)
qed

lemma start_life: "wb_life w = Some l \<Longrightarrow> \<exists>l'. wb_life (fst (start_action mw t a k w)) = Some l'"
  by (cases a) (simp_all add: start_action_def Let_def case_prod_beta)

lemma incoming_life: "wb_life w = Some l \<Longrightarrow> \<exists>l'. wb_life (fst (incoming fw num cfg env req w)) = Some l'"
  by (auto simp: incoming_def Let_def begin_request_def start_life split: sum.split option.split)

lemma step_life: "wb_life w = Some l \<Longrightarrow> \<exists>l'. wb_life (fst (web_step fw num cfg w e)) = Some l'"
  by (cases e) (auto simp: incoming_life outcome_ready_def response_over_def case_prod_beta split: option.split)

lemma run_life: "\<exists>l. wb_life (fst (web_run fw num cfg (Some l0) es)) = Some l"
proof (induction es rule: rev_induct)
  case Nil
  show ?case by (simp add: new_web_def)
next
  case (snoc e es)
  with step_life show ?case by (auto simp: steps_append case_prod_beta)
qed

text \<open>
  C39. A graceful shutdown waits for the responses: as long as the response to an admitted request has
  neither been sent completely nor lost its connection, polling does nothing, even when the media and SIP
  sides are idle.
\<close>

theorem responses_hold_drain:
  "list_all (\<lambda>k. if HttpOver k \<in> set es \<or> xg_ticket (wb_exchanges (fst (web_run fw num cfg (Some new_lifecycle) es)) ! k) = None
                then True
                else (case wb_life (fst (web_run fw num cfg (Some new_lifecycle) es)) of
                        None \<Rightarrow> False
                      | Some l \<Rightarrow> poll n l = (l, [])))
     [0..<length (wb_exchanges (fst (web_run fw num cfg (Some new_lifecycle) es)))]"
proof -
  let ?w = "fst (web_run fw num cfg (Some new_lifecycle) es)"
  obtain l where l: "wb_life ?w = Some l" using run_life by blast
  have ok: "tickets_ok (overs es) l (tickets ?w)" using run_web_ok [of es fw num cfg] l by (simp add: web_ok_def)
  have "poll n l = (l, [])" if "k < length (wb_exchanges ?w)" "HttpOver k \<notin> set es" "xg_ticket (wb_exchanges ?w ! k) = Some h" for k h
  proof -
    have h: "h \<in> live_handles l" and b: "balanced l"
      using ok that by (auto simp: tickets_ok_def tickets_def overs_def)
    then have "0 < pendingOperations l"
      using adm.bracket(2) [of l _ h l "live_handles l - {h}"] by (auto simp: balanced_def card_gt_0_iff)
    then show ?thesis by (simp add: poll_def)
  qed
  with l show ?thesis by (auto simp: list_all_iff)
qed

end
