(* ===== verification/Transport.thy ===== *)
theory Transport
  imports Prelude
begin

text \<open>
  The transport to rtpbridge (\<open>src/rtpbridge-transport.ts\<close>): the shared secret, the signature of a request
  and the pool of TLS agents. \<open>read_file\<close> is \<open>readFileSync\<close>, \<open>hmac\<close> the base64url text of
  HMAC-SHA256 under a key, \<open>target\<close> the path and the query of \<open>new URL\<close> when that does not throw. An agent
  is a number; whether one has open sockets is asked of the runtime, \<open>busy\<close>.
\<close>

section \<open>Construction\<close>

record transport_options =
  to_hmacSecretFile :: "string option"
  to_caFile :: "string option"
  to_servername :: "string option"

record transport =
  tp_options :: transport_options
  tp_secret :: "string option"
  tp_ca :: "string option"
  tp_agent :: "nat option"
  tp_agents :: "(string, nat) omap"
  tp_created :: nat

datatype transport_error = FileError string | TransportError string | InvalidTarget

definition file_given :: "string option \<Rightarrow> string option" where
  "file_given f = (case f of None \<Rightarrow> None | Some s \<Rightarrow> if s = [] then None else Some s)"

definition read_secret :: "(string \<Rightarrow> string option) \<Rightarrow> string option \<Rightarrow> (transport_error, string option) result" where
  "read_secret read_file f =
     (case file_given f of
        None \<Rightarrow> Inr None
      | Some path \<Rightarrow>
          rbind (require (FileError path) (read_file path)) (\<lambda>raw.
          let secret = rdrop_while (\<lambda>c. code c = 10 \<or> code c = 13) raw in
          rbind (guard (\<not> length secret < 32)
            (TransportError ''RTPBRIDGE_AUTH_HMAC_SECRET_FILE must contain at least 32 bytes'')) (\<lambda>_. Inr (Some secret))))"

definition new_transport :: "(string \<Rightarrow> string option) \<Rightarrow> transport_options \<Rightarrow> (transport_error, transport) result" where
  "new_transport read_file opts =
     rbind (read_secret read_file (to_hmacSecretFile opts)) (\<lambda>secret.
     rbind (case file_given (to_caFile opts) of
              None \<Rightarrow> Inr None
            | Some path \<Rightarrow> rbind (require (FileError path) (read_file path)) (\<lambda>ca. Inr (Some ca))) (\<lambda>ca.
     let own = ca \<noteq> None \<or> file_given (to_servername opts) \<noteq> None in
     Inr \<lparr>tp_options = opts, tp_secret = secret, tp_ca = ca, tp_agent = (if own then Some 0 else None), tp_agents = [],
          tp_created = (if own then 1 else 0)\<rparr>))"

section \<open>Requests\<close>

definition newline :: char where
  "newline = char_of (10 :: nat)"

definition canonical :: "nat \<Rightarrow> string \<Rightarrow> string \<Rightarrow> string" where
  "canonical timestamp http_method path =
     ''rtpbridge-auth-v1'' @ [newline] @ show_nat timestamp @ [newline] @ http_method @ [newline] @ path"

definition auth_headers ::
  "(string \<Rightarrow> string \<Rightarrow> string) \<Rightarrow> (string \<Rightarrow> (string \<times> string) option) \<Rightarrow> nat \<Rightarrow> transport \<Rightarrow> string \<Rightarrow> string
   \<Rightarrow> (transport_error, (string \<times> string) list) result" where
  "auth_headers hmac target now t http_method url =
     (case tp_secret t of
        None \<Rightarrow> Inr []
      | Some secret \<Rightarrow>
          rbind (require InvalidTarget (target url)) (\<lambda>(path, search).
          let timestamp = now div 1000; signature = hmac secret (canonical timestamp http_method (path @ search)) in
          Inr [(''Authorization'', ''HMAC-SHA256 '' @ show_nat timestamp @ '':'' @ signature)]))"

record websocket_options =
  ws_headers :: "(string \<times> string) list"
  ws_ca :: "string option"
  ws_servername :: "string option"

definition or_own :: "string option \<Rightarrow> transport \<Rightarrow> string option" where
  "or_own servername t = (if servername = None then to_servername (tp_options t) else servername)"

definition websocketOptions ::
  "(string \<Rightarrow> string \<Rightarrow> string) \<Rightarrow> (string \<Rightarrow> (string \<times> string) option) \<Rightarrow> nat \<Rightarrow> transport \<Rightarrow> string \<Rightarrow> string option
   \<Rightarrow> (transport_error, websocket_options) result" where
  "websocketOptions hmac target now t url servername =
     rbind (auth_headers hmac target now t ''GET'' url) (\<lambda>hs.
     Inr \<lparr>ws_headers = hs, ws_ca = tp_ca t, ws_servername = or_own servername t\<rparr>)"

datatype agent_effect = AgentCreated nat string | AgentDestroyed nat

definition MAX_AGENTS :: nat where
  "MAX_AGENTS = 256"

text \<open>The agent of a server name: the one in the pool, or a new one, for which the first idle one may have to go.\<close>

definition agent_for ::
  "(nat \<Rightarrow> bool) \<Rightarrow> string \<Rightarrow> transport \<Rightarrow> transport \<times> agent_effect list \<times> (transport_error, nat) result" where
  "agent_for busy servername t =
     (let create = (\<lambda>t. (t\<lparr>tp_agents := oset servername (tp_created t) (tp_agents t), tp_created := Suc (tp_created t)\<rparr>,
                         AgentCreated (tp_created t) servername, tp_created t))
      in case oget (tp_agents t) servername of
           Some a \<Rightarrow> (t, [], Inr a)
         | None \<Rightarrow>
             if length (tp_agents t) \<ge> MAX_AGENTS
             then (case find (\<lambda>(_, a). \<not> busy a) (tp_agents t) of
                     None \<Rightarrow> (t, [], Inl (TransportError ''All backend TLS profiles are busy''))
                   | Some (idle, a) \<Rightarrow>
                       (case create (t\<lparr>tp_agents := odel idle (tp_agents t)\<rparr>) of
                          (t', e, b) \<Rightarrow> (t', [AgentDestroyed a, e], Inr b)))
             else (case create t of (t', e, b) \<Rightarrow> (t', [e], Inr b)))"

record http_options =
  ho_headers :: "(string \<times> string) list"
  ho_agent :: "nat option"
  ho_maxRedirects :: nat
  ho_proxy :: bool

definition httpOptions ::
  "(string \<Rightarrow> string \<Rightarrow> string) \<Rightarrow> (string \<Rightarrow> (string \<times> string) option) \<Rightarrow> (nat \<Rightarrow> bool) \<Rightarrow> nat \<Rightarrow> string \<Rightarrow> string
   \<Rightarrow> string option \<Rightarrow> transport \<Rightarrow> transport \<times> agent_effect list \<times> (transport_error, http_options) result" where
  "httpOptions hmac target busy now http_method url servername t =
     (let options = (\<lambda>t agent. rbind (auth_headers hmac target now t http_method url) (\<lambda>hs.
              Inr \<lparr>ho_headers = hs, ho_agent = agent, ho_maxRedirects = 0, ho_proxy = False\<rparr>))
      in case file_given (or_own servername t) of
           None \<Rightarrow> (t, [], options t (tp_agent t))
         | Some s \<Rightarrow>
             if Some s = to_servername (tp_options t) then (t, [], options t (tp_agent t))
             else (case agent_for busy s t of
                     (t', es, r) \<Rightarrow> (t', es, rbind r (\<lambda>a. options t' (Some a)))))"

definition destroy_transport :: "transport \<Rightarrow> transport \<times> agent_effect list" where
  "destroy_transport t =
     (t\<lparr>tp_agents := []\<rparr>,
      (case tp_agent t of None \<Rightarrow> [] | Some a \<Rightarrow> [AgentDestroyed a]) @ map (\<lambda>(_, a). AgentDestroyed a) (tp_agents t))"

section \<open>Runs\<close>

datatype transport_event =
  HttpOptionsAsked "nat \<Rightarrow> bool" nat string string "string option"
| DestroyCalled

fun transport_step ::
  "(string \<Rightarrow> string \<Rightarrow> string) \<Rightarrow> (string \<Rightarrow> (string \<times> string) option) \<Rightarrow> transport \<Rightarrow> transport_event
   \<Rightarrow> transport \<times> agent_effect list" where
  "transport_step hmac target t (HttpOptionsAsked busy now m url servername) =
     (case httpOptions hmac target busy now m url servername t of (t', es, _) \<Rightarrow> (t', es))"
| "transport_step hmac target t DestroyCalled = destroy_transport t"

definition pooled :: "transport \<Rightarrow> nat list" where
  "pooled t = map snd (tp_agents t)"

definition destroyed_agents :: "agent_effect list \<Rightarrow> nat list" where
  "destroyed_agents es = List.map_filter (\<lambda>e. case e of AgentDestroyed a \<Rightarrow> Some a | _ \<Rightarrow> None) es"

definition created_agents :: "agent_effect list \<Rightarrow> nat list" where
  "created_agents es = List.map_filter (\<lambda>e. case e of AgentCreated a _ \<Rightarrow> Some a | _ \<Rightarrow> None) es"

lemma agent_simps [simp]:
  "destroyed_agents [] = []" "destroyed_agents (AgentDestroyed a # es) = a # destroyed_agents es"
  "destroyed_agents (AgentCreated a n # es) = destroyed_agents es"
  "destroyed_agents (es @ es') = destroyed_agents es @ destroyed_agents es'"
  "created_agents [] = []" "created_agents (AgentDestroyed a # es) = created_agents es"
  "created_agents (AgentCreated a n # es) = a # created_agents es"
  "created_agents (es @ es') = created_agents es @ created_agents es'"
  by (simp_all add: destroyed_agents_def created_agents_def map_filter_simps map_filter_append)

lemma destroyed_map [simp]:
  "destroyed_agents (map (\<lambda>(_, a). AgentDestroyed a) xs) = map snd xs" "created_agents (map (\<lambda>(_, a). AgentDestroyed a) xs) = []"
  by (induction xs) auto

section \<open>The pool\<close>

definition pool_ok :: "transport \<Rightarrow> bool" where
  "pool_ok t \<longleftrightarrow> length (tp_agents t) \<le> MAX_AGENTS \<and> owf (tp_agents t)
     \<and> (\<forall>a\<in>set (pooled t). a < tp_created t \<and> Some a \<noteq> tp_agent t)
     \<and> (\<forall>a. tp_agent t = Some a \<longrightarrow> a < tp_created t)"

text \<open>What a step leaves: the pool is sound, the own agent the same, and every agent of the pool accounted for.\<close>

definition pool_step :: "transport \<Rightarrow> transport \<times> agent_effect list \<Rightarrow> bool" where
  "pool_step t r \<longleftrightarrow> pool_ok (fst r) \<and> tp_agent (fst r) = tp_agent t
     \<and> mset (pooled (fst r)) + filter_mset (\<lambda>a. Some a \<noteq> tp_agent t) (mset (destroyed_agents (snd r)))
         = mset (pooled t) + mset (created_agents (snd r))"

lemma new_pool: "new_transport read_file opts = Inr t \<Longrightarrow> pool_ok t \<and> pooled t = []"
  by (auto simp: new_transport_def rbind_eq_Inr Let_def pool_ok_def pooled_def split: if_splits)

lemma pool_add: "oget m k = None \<Longrightarrow> map snd (oset k v m) = map snd m @ [v] \<and> length (oset k v m) = Suc (length m)"
  by (induction m) (auto split: if_splits)

lemma pool_remove: "owf m \<Longrightarrow> (k, v) \<in> set m \<Longrightarrow> mset (map snd m) = {#v#} + mset (map snd (odel k m))"
proof (induction m)
  case (Cons p m)
  show ?case
  proof (cases "p = (k, v)")
    case True
    with Cons.prems(1) have "\<not> ohas m k" unfolding ohas_keys by simp
    with True show ?thesis by (simp add: odel_absent)
  next
    case False
    with Cons.prems have "(k, v) \<in> set m" "fst p \<noteq> k" by (auto simp: rev_image_eqI)
    with Cons.IH Cons.prems(1) show ?thesis by (cases p) simp
  qed
qed simp

lemma create_step:
  assumes "pool_ok t" and "oget (tp_agents t) s = None" and "length (tp_agents t) < MAX_AGENTS"
  shows "pool_step t (t\<lparr>tp_agents := oset s (tp_created t) (tp_agents t), tp_created := Suc (tp_created t)\<rparr>, [AgentCreated (tp_created t) s])"
proof -
  have "tp_agent t \<noteq> Some (tp_created t)" using assms(1) by (auto simp: pool_ok_def)
  then have "Some (tp_created t) \<noteq> tp_agent t" by metis
  with assms pool_add [OF assms(2), of "tp_created t"] show ?thesis
    by (auto simp: pool_step_def pool_ok_def pooled_def simp del: set_map simp flip: set_map)
qed

lemma evict:
  assumes "pool_ok t" and "(s, a) \<in> set (tp_agents t)"
  shows "pool_ok (t\<lparr>tp_agents := odel s (tp_agents t)\<rparr>)" and "length (odel s (tp_agents t)) < length (tp_agents t)"
    and "mset (pooled t) = mset (pooled (t\<lparr>tp_agents := odel s (tp_agents t)\<rparr>)) + {#a#}" and "Some a \<noteq> tp_agent t"
proof -
  have wf: "owf (tp_agents t)" using assms(1) by (simp add: pool_ok_def)
  have "ohas (tp_agents t) s" using weak_map_of_SomeI [OF assms(2)] by blast
  from length_odel [OF wf this] show l: "length (odel s (tp_agents t)) < length (tp_agents t)" by simp
  have "set (pooled (t\<lparr>tp_agents := odel s (tp_agents t)\<rparr>)) \<subseteq> set (pooled t)" by (auto simp: pooled_def in_odel)
  with assms(1) l wf show "pool_ok (t\<lparr>tp_agents := odel s (tp_agents t)\<rparr>)" by (auto simp: pool_ok_def)
  show "mset (pooled t) = mset (pooled (t\<lparr>tp_agents := odel s (tp_agents t)\<rparr>)) + {#a#}"
    using pool_remove [OF wf assms(2)] by (simp add: pooled_def)
  show "Some a \<noteq> tp_agent t" using assms by (force simp: pool_ok_def pooled_def)
qed

lemma agent_for_step:
  assumes ok: "pool_ok t"
  shows "pool_step t (case agent_for busy s t of (t', es, _) \<Rightarrow> (t', es))"
    and "list_all (\<lambda>a. \<not> busy a) (destroyed_agents (fst (snd (agent_for busy s t))))"
proof -
  have same: "pool_step t (t, [])" using ok by (simp add: pool_step_def)
  have "pool_step t (case agent_for busy s t of (t', es, _) \<Rightarrow> (t', es))
      \<and> list_all (\<lambda>a. \<not> busy a) (destroyed_agents (fst (snd (agent_for busy s t))))"
  proof (cases "oget (tp_agents t) s")
    case (Some a)
    with same show ?thesis by (simp add: agent_for_def Let_def)
  next
    case None
    show ?thesis
    proof (cases "length (tp_agents t) \<ge> MAX_AGENTS")
      case False
      with None create_step [OF ok None] show ?thesis by (simp add: agent_for_def Let_def)
    next
      case True
      show ?thesis
      proof (cases "find (\<lambda>(_, a). \<not> busy a) (tp_agents t)")
        case no: None
        with None True same show ?thesis by (simp add: agent_for_def Let_def)
      next
        case (Some p)
        obtain i a where p: "p = (i, a)" by (cases p)
        have mem: "(i, a) \<in> set (tp_agents t)" and idle: "\<not> busy a"
          using Some p by (auto simp: find_Some_iff) (metis nth_mem)
        let ?t = "t\<lparr>tp_agents := odel i (tp_agents t)\<rparr>"
        note e = evict [OF ok mem]
        have "length (tp_agents ?t) < MAX_AGENTS" using e(2) ok by (simp add: pool_ok_def)
        moreover have "oget (tp_agents ?t) s = None" using None by simp
        ultimately have c: "pool_step ?t (?t\<lparr>tp_agents := oset s (tp_created ?t) (tp_agents ?t), tp_created := Suc (tp_created ?t)\<rparr>,
            [AgentCreated (tp_created ?t) s])" by (intro create_step [OF e(1)])
        then have "pool_step t (?t\<lparr>tp_agents := oset s (tp_created ?t) (tp_agents ?t), tp_created := Suc (tp_created ?t)\<rparr>,
            [AgentDestroyed a, AgentCreated (tp_created ?t) s])"
          using e(3,4) by (simp add: pool_step_def)
        with None True Some p idle show ?thesis by (simp add: agent_for_def Let_def)
      qed
    qed
  qed
  then show "pool_step t (case agent_for busy s t of (t', es, _) \<Rightarrow> (t', es))"
    and "list_all (\<lambda>a. \<not> busy a) (destroyed_agents (fst (snd (agent_for busy s t))))" by blast+
qed

lemma httpOptions_step:
  assumes ok: "pool_ok t"
  shows "pool_step t (case httpOptions hmac target busy now m url sn t of (t', es, _) \<Rightarrow> (t', es))"
    and "list_all (\<lambda>a. \<not> busy a) (destroyed_agents (fst (snd (httpOptions hmac target busy now m url sn t))))"
  using agent_for_step [OF ok, of busy] ok
  by (auto simp: httpOptions_def Let_def case_prod_beta pool_step_def split: option.split)

lemma two_steps: "p' + d' = p + c \<Longrightarrow> p' + (d + d') = p + d + c" for p :: "nat multiset"
  by (metis add.assoc add.commute)

lemma step_pool:
  assumes ok: "pool_ok t"
  shows "pool_step t (transport_step hmac target t e)"
proof (cases e)
  case (HttpOptionsAsked busy now m url sn)
  with httpOptions_step(1) [OF ok] show ?thesis by simp
next
  case DestroyCalled
  have "filter_mset (\<lambda>a. Some a \<noteq> tp_agent t) (mset (pooled t)) = mset (pooled t)"
    using ok by (auto simp: filter_mset_eq_conv pool_ok_def)
  with ok DestroyCalled show ?thesis
    by (auto simp: destroy_transport_def pool_step_def pool_ok_def pooled_def split: option.split)
qed

text \<open>
  C12. However many server names are asked for, the pool never holds more than 256 agents; every agent made
  for it is in the pool or has been destroyed, exactly once; and asking for options destroys only agents
  without open sockets.
\<close>

theorem transport_pool_bounded:
  "case new_transport read_file opts of
     Inl _ \<Rightarrow> True
   | Inr t0 \<Rightarrow>
       (let (t, es) = steps (transport_step hmac target) t0 events in
        length (tp_agents t) \<le> 256
        \<and> mset (pooled t) + filter_mset (\<lambda>a. Some a \<noteq> tp_agent t0) (mset (destroyed_agents es)) = mset (created_agents es)
        \<and> list_all (\<lambda>a. \<not> busy a) (destroyed_agents (snd (transport_step hmac target t (HttpOptionsAsked busy now m url sn)))))"
proof (cases "new_transport read_file opts")
  case (Inr t0)
  let ?run = "\<lambda>es. steps (transport_step hmac target) t0 es"
  have "pool_ok (fst (?run events)) \<and> tp_agent (fst (?run events)) = tp_agent t0
      \<and> mset (pooled (fst (?run events))) + filter_mset (\<lambda>a. Some a \<noteq> tp_agent t0) (mset (destroyed_agents (snd (?run events))))
        = mset (created_agents (snd (?run events)))"
  proof (induction events rule: rev_induct)
    case Nil
    show ?case using new_pool [OF Inr] by simp
  next
    case (snoc e es)
    then have s: "pool_step (fst (?run es)) (transport_step hmac target (fst (?run es)) e)" by (intro step_pool) simp
    let ?p = "\<lambda>xs. filter_mset (\<lambda>a. Some a \<noteq> tp_agent t0) (mset xs)"
    let ?new = "transport_step hmac target (fst (?run es)) e"
    have a: "tp_agent (fst (?run es)) = tp_agent t0"
      and b: "mset (pooled (fst (?run es))) + ?p (destroyed_agents (snd (?run es))) = mset (created_agents (snd (?run es)))"
      using snoc by blast+
    have c: "mset (pooled (fst ?new)) + ?p (destroyed_agents (snd ?new)) = mset (pooled (fst (?run es))) + mset (created_agents (snd ?new))"
      using s unfolding pool_step_def a by blast
    have "mset (pooled (fst ?new)) + (?p (destroyed_agents (snd (?run es))) + ?p (destroyed_agents (snd ?new)))
        = mset (created_agents (snd (?run es))) + mset (created_agents (snd ?new))"
      unfolding b [symmetric] by (rule two_steps [OF c])
    moreover have st: "fst (?run (es @ [e])) = fst ?new" "snd (?run (es @ [e])) = snd (?run es) @ snd ?new"
      by (simp_all add: steps_append case_prod_beta)
    ultimately show ?case using s unfolding st agent_simps mset_append filter_union_mset pool_step_def a by blast
  qed
  moreover have "list_all (\<lambda>a. \<not> busy a) (destroyed_agents (snd (transport_step hmac target t (HttpOptionsAsked busy now m url sn))))"
    if "pool_ok t" for t using httpOptions_step(2) [OF that] by (simp add: case_prod_beta)
  ultimately show ?thesis using Inr by (auto simp: pool_ok_def MAX_AGENTS_def case_prod_beta)
qed simp

section \<open>Signatures\<close>

lemma newline_no_digit: "newline \<notin> set (show_nat n)"
proof
  assume "newline \<in> set (show_nat n)"
  then have "is_digit newline" using show_nat_digits [of newline n] by blast
  then show False by (simp add: newline_def is_digit_def code_char_of)
qed

lemma cut: "c \<notin> set xs \<Longrightarrow> c \<notin> set xs' \<Longrightarrow> xs @ c # ys = xs' @ c # ys' \<Longrightarrow> xs = xs' \<and> ys = ys'"
proof (induction xs arbitrary: xs')
  case Nil
  then show ?case by (cases xs') auto
next
  case (Cons x xs)
  then show ?case by (cases xs') auto
qed

text \<open>
  The text that is signed determines the timestamp, the method and the target of the request, so a
  signature cannot be carried over to another one.
\<close>

theorem canonical_unambiguous:
  assumes "newline \<notin> set m" and "newline \<notin> set m'" and "canonical n m p = canonical n' m' p'"
  shows "n = n' \<and> m = m' \<and> p = p'"
proof -
  have "show_nat n @ newline # m @ newline # p = show_nat n' @ newline # m' @ newline # p'"
    using assms(3) by (simp add: canonical_def)
  from cut [OF newline_no_digit newline_no_digit this] have "show_nat n = show_nat n'" "m @ newline # p = m' @ newline # p'" by auto
  moreover from cut [OF assms(1,2) this(2)] have "m = m'" "p = p'" by auto
  ultimately show ?thesis using show_nat_inj by blast
qed

text \<open>A secret in use has at least 32 bytes and does not end with a line end.\<close>

theorem secret_long_enough:
  "case new_transport read_file opts of
     Inr t \<Rightarrow> (case tp_secret t of None \<Rightarrow> file_given (to_hmacSecretFile opts) = None
                | Some s \<Rightarrow> 32 \<le> length s \<and> code (last s) \<notin> {10, 13})
   | Inl _ \<Rightarrow> True"
proof (cases "new_transport read_file opts")
  case (Inr t)
  show ?thesis
  proof (cases "file_given (to_hmacSecretFile opts)")
    case None
    with Inr show ?thesis by (auto simp: new_transport_def read_secret_def rbind_eq_Inr Let_def)
  next
    case (Some path)
    with Inr obtain raw where t: "tp_secret t = Some (rdrop_while (\<lambda>c. code c = 10 \<or> code c = 13) raw)"
      and l: "32 \<le> length (rdrop_while (\<lambda>c. code c = 10 \<or> code c = 13) raw)"
      by (auto simp: new_transport_def read_secret_def rbind_eq_Inr Let_def guard_eq_Inr)
    then have "rdrop_while (\<lambda>c. code c = 10 \<or> code c = 13) raw \<noteq> []" by auto
    from rdrop_while_last [OF this] l t Inr show ?thesis by simp
  qed
qed simp

end
