(* ===== verification/Wiring.thy ===== *)
theory Wiring
  imports GatewayCalls MediaSessions Lifecycle
begin

text \<open>
  The composition of the parts (\<open>src/index.ts\<close>): what counts as active when the gateway drains, which
  calls keep their media backend, and what happens when a control connection goes. The process is the SIP
  gateway, the media service when a media backend is configured, and the lifecycle.
\<close>

record 'ice process =
  pr_gateway :: gateway
  pr_media :: "'ice media_store option"
  pr_life :: lifecycle

datatype process_output = FromGateway gw_output | FromMedia service_output

definition media_size :: "'ice media_store option \<Rightarrow> nat" where
  "media_size media = (case media of None \<Rightarrow> 0 | Some st \<Rightarrow> length (st_sessions st))"

definition activeResources :: "'ice process \<Rightarrow> nat" where
  "activeResources p =
     registry_size (gw_registry (pr_gateway p)) + pendingCount (gw_registry (pr_gateway p)) + media_size (pr_media p)"

definition isCallActive :: "'ice process \<Rightarrow> string \<Rightarrow> bool" where
  "isCallActive p callId \<longleftrightarrow>
     hasCallOrReservation (gw_registry (pr_gateway p)) callId
     \<or> (case pr_media p of None \<Rightarrow> False | Some st \<Rightarrow> get_session callId st \<noteq> None)"

definition poll_process :: "'ice process \<Rightarrow> 'ice process \<times> lifecycle_output list" where
  "poll_process p = (case poll (activeResources p) (pr_life p) of (l, outs) \<Rightarrow> (p\<lparr>pr_life := l\<rparr>, outs))"

text \<open>
  The \<open>disconnect\<close> event of the hub: both cleanups start, and unless the gateway is stopping the lifecycle
  counts them as one operation, whose handle is returned.
\<close>

definition owner_disconnected :: "string \<Rightarrow> string \<Rightarrow> 'ice process \<Rightarrow> 'ice process \<times> process_output list \<times> nat option" where
  "owner_disconnected now c p =
     (let (life, ticket) = (if isStopping (pr_life p) then (pr_life p, None)
            else case beginOperation (pr_life p) of Inl _ \<Rightarrow> (pr_life p, None) | Inr (l, h) \<Rightarrow> (l, Some h));
          (g, gouts) = terminateCallsForControlConnection c (pr_gateway p);
          (media, mouts) = (case pr_media p of None \<Rightarrow> (None, [])
             | Some st \<Rightarrow> (case destroySessionsForOwner now c st of (st', outs) \<Rightarrow> (Some st', outs)))
      in (p\<lparr>pr_gateway := g, pr_media := media, pr_life := life\<rparr>, map FromGateway gouts @ map FromMedia mouts, ticket))"

text \<open>\<open>MediaSessionService.shutdown\<close>, which the stop callback awaits: every session is destroyed.\<close>

definition media_shutdown :: "string \<Rightarrow> 'ice media_store \<Rightarrow> 'ice media_store \<times> service_output list" where
  "media_shutdown now st =
     (foldl (\<lambda>st sid. drop_session now sid st) st (map fst (st_sessions st)),
      concat (map (\<lambda>sid. [DestroyRemote sid, CloseClient]) (map fst (st_sessions st))))"

section \<open>Properties\<close>

lemma poll_stops: "poll n l \<noteq> (l, []) \<Longrightarrow> pendingOperations l = 0 \<and> n = 0"
  by (auto simp: poll_def split: if_splits)

text \<open>
  C10. The gateway stops gracefully only when it is idle as a whole: a poll that does anything finds no
  operation in progress, no active call, no INVITE that still waits for the application or for drachtio, as
  long as the gateway is not stopping already, and no media session.
\<close>

theorem stop_needs_idle:
  fixes cfg vu life and es :: "gw_event list" and media :: "'ice media_store option"
  defines "p \<equiv> \<lparr>pr_gateway = fst (gateway_run cfg vu es), pr_media = media, pr_life = life\<rparr>"
  shows "poll_process p = (p, [])
    \<or> pendingOperations life = 0
      \<and> list_calls (gw_registry (pr_gateway p)) = []
      \<and> (gw_stopping (pr_gateway p) \<or> list_all (\<lambda>i. \<not> held (iv_phase i)) (gw_invites (pr_gateway p)))
      \<and> (case media of None \<Rightarrow> True | Some st \<Rightarrow> st_sessions st = [])"
proof (cases "poll (activeResources p) life = (life, [])")
  case True
  then show ?thesis by (simp add: poll_process_def p_def)
next
  case False
  from poll_stops [OF this] have "pendingOperations life = 0" and idle: "activeResources p = 0" by blast+
  moreover have "calls (gw_registry (pr_gateway p)) = []" "reservations (gw_registry (pr_gateway p)) = []"
    and "media_size media = 0"
    using idle by (simp_all add: activeResources_def registry_size_def pendingCount_def p_def)
  moreover have "gw_book (pr_gateway p)" unfolding p_def by (simp add: run_book)
  ultimately show ?thesis
    by (auto simp: list_calls_def media_size_def gw_book_def book_inv_def list_all_iff in_set_conv_nth split: option.splits)
qed

text \<open>
  After a control connection has gone no active call and no media session belongs to it, and the lifecycle
  counts the cleanup unless it is stopping.
\<close>

theorem disconnect_cleans_up:
  fixes cfg vu life and es :: "gw_event list" and ms :: "'ice store_event list" and now c :: string
  assumes "admissible [] [] empty_store ms" and "balanced life"
  defines "r \<equiv> owner_disconnected now c \<lparr>pr_gateway = fst (gateway_run cfg vu es), pr_media = Some (store_after ms), pr_life = life\<rparr>"
  shows "list_all (\<lambda>(i, x). ac_controlConnectionId x \<noteq> Some c) (calls (gw_registry (pr_gateway (fst r))))"
    and "\<exists>st. pr_media (fst r) = Some st \<and> (\<forall>s q. oget (st_sessions st) s = Some q \<longrightarrow> owner_of q st \<noteq> Some c)"
    and "isStopping life \<and> snd (snd r) = None \<and> pr_life (fst r) = life
         \<or> pendingOperations (pr_life (fst r)) = pendingOperations life + 1"
proof -
  have eq: "gw_registry (fst (gateway_run cfg vu (es @ [OwnerGone c])))
      = gw_registry (fst (terminateCallsForControlConnection c (fst (gateway_run cfg vu es))))"
    by (simp add: steps_append gateway_step_def close_when_ready_def case_prod_beta)
  show "list_all (\<lambda>(i, x). ac_controlConnectionId x \<noteq> Some c) (calls (gw_registry (pr_gateway (fst r))))"
    using owner_calls_terminated [of c cfg vu es] unfolding eq
    by (simp add: r_def owner_disconnected_def Let_def case_prod_beta)
  obtain C S where inv: "store_inv C S (store_after ms)" using reachable_inv [OF assms(1)] .
  note all = drop_all [OF inv, of now "owned_sessions c (store_after ms)"]
  have mine: "s \<in> set (owned_sessions c (store_after ms))"
    if "oget (st_sessions (store_after ms)) s = Some q" "owner_of q (store_after ms) = Some c" for s q
    using that oget_in by (force simp: owned_sessions_def)
  show "\<exists>st. pr_media (fst r) = Some st \<and> (\<forall>s q. oget (st_sessions st) s = Some q \<longrightarrow> owner_of q st \<noteq> Some c)"
    using all mine
    by (auto simp: r_def owner_disconnected_def Let_def case_prod_beta destroySessionsForOwner_def split: if_splits)
  show "isStopping life \<and> snd (snd r) = None \<and> pr_life (fst r) = life
      \<or> pendingOperations (pr_life (fst r)) = pendingOperations life + 1"
    by (auto simp: r_def owner_disconnected_def Let_def case_prod_beta beginOperation_def assertRunning_def guard_def rbind_def)
qed

text \<open>After the shutdown of the media service there is no session, and no request finds an endpoint.\<close>

theorem media_shutdown_empties:
  fixes ms :: "'ice store_event list" and now :: string
  assumes "admissible [] [] empty_store ms"
  defines "r \<equiv> media_shutdown now (store_after ms)"
  shows "st_sessions (fst r) = [] \<and> view (fst r) = foldl (\<lambda>v sid. forget_session sid v) (view (store_after ms)) (okeys (st_sessions (store_after ms)))"
proof -
  obtain C S where inv: "store_inv C S (store_after ms)" using reachable_inv [OF assms(1)] .
  note all = drop_all [OF inv, of now "map fst (st_sessions (store_after ms))"]
  have "oget (st_sessions (fst r)) s = None" for s
    using all [of s] by (auto simp: r_def media_shutdown_def map_of_eq_None_iff)
  then have "map_of (st_sessions (fst r)) = Map.empty" by (rule ext)
  then show ?thesis using all by (simp add: r_def media_shutdown_def)
qed

end
