(* ===== verification/Spec2Isabelle.thy ===== *)
theory Spec2Isabelle
  imports CallRegistry Routing HttpContract ControlProtocol ControlLog ControlServer EndpointCatalog MediaServers
    RtpbridgeClient MediaActions Recordings MediaSessions MediaRequests GatewayCalls HttpServer Transport Wiring
begin

text \<open>
  A verification library for the RTC session gateway, the TypeScript program under \<open>src/src/\<close>.

  \<^bold>\<open>The program.\<close> The gateway stands between SIP, WebRTC and the applications that steer calls. drachtio
  hands it INVITEs; it asks the application that a route names, over a webhook or over a control
  WebSocket, and answers the call, reports its progress and its end. Applications also place calls,
  create media sessions and endpoints on rtpbridge servers, bridge them, play files, collect digits and
  record, through the control WebSocket or through the HTTP API, which decode to the same commands. A
  lifecycle admits operations, drains and stops the process.

  \<^bold>\<open>How the parts depend on each other.\<close> \<open>Prelude\<close> and \<open>Json\<close> are the base. The control side is
  \<open>ControlProtocol\<close> (messages), \<open>ControlHub\<close> (connections, routes, pending requests), \<open>ControlLog\<close> (what
  may be logged), \<open>Commands\<close> (requests to commands) and \<open>ControlServer\<close> (upgrade, dispatch, answers), on
  top of \<open>Lifecycle\<close>. The SIP side is \<open>CallRegistry\<close>, \<open>Routing\<close>, \<open>HttpContract\<close>, \<open>GatewayConfig\<close>,
  \<open>SipMessages\<close> and \<open>Gateway\<close>. The media side is \<open>EndpointCatalog\<close> and \<open>MediaServers\<close> (which backend a
  call uses), \<open>Transport\<close> and \<open>RtpbridgeClient\<close> (talking to it), \<open>MediaStore\<close>, \<open>MediaSessions\<close>,
  \<open>MediaRequests\<close>, \<open>MediaActions\<close> and \<open>Recordings\<close>. \<open>HttpServer\<close> offers all of it over HTTP, \<open>Wiring\<close>
  composes the process.

  \<^bold>\<open>Conventions.\<close> A class with state is a record and its operations are functions on it; a fallible
  operation returns \<open>(error, value) result\<close>, with every \<open>throw\<close> of the source as an \<open>Inl\<close>. An asynchronous
  operation is split at its \<open>await\<close>s: the part up to the request is one function and emits the request as
  an output, and the answer arrives later as an event, so that a run is a list of events in any order and
  interleaving (\<open>steps\<close>). A \<open>Map\<close> is an association list in insertion order (\<open>omap\<close>), a \<open>Set\<close> a list
  without duplicates, a JavaScript value \<open>jv\<close>, a string a list of Latin-1 characters, an integer of the
  source \<open>int\<close> or \<open>nat\<close>, since none of them wraps. \<open>JSON.parse\<close>, \<open>new URL\<close>, \<open>Number\<close> on strings, HMAC, the
  clock, UUIDs, files, DNS and Express's matching of paths and parsing of bodies are arguments. \<open>ws\<close>,
  drachtio-srf and rtpbridge are the events and outputs of the models that talk to them.

  \<^bold>\<open>Theories, sources and what is proved.\<close>

  \<^item> \<open>Prelude\<close>: results, ordered maps, strings, decimal numerals; the locales \<open>js_map\<close>, \<open>component\<close>
    (a state machine with an invariant), \<open>monotone_component\<close>, \<open>ledger\<close> and \<open>steady_ledger\<close> (requests that
    are settled later) and \<open>single_shot\<close> (what happens at most once). Each is interpreted on the code's
    models in the theory of the component that provides it.
  \<^item> \<open>Json\<close>: JavaScript values, field access, \<open>wire\<close> (stringify, then parse).
  \<^item> \<open>CallRegistry\<close> (\<open>call-registry.ts\<close>, \<open>call-id.ts\<close>): \<open>registry\<close> with calls and reservations;
    \<open>reserveCallId\<close>, \<open>releaseReservation\<close>, \<open>activate\<close>, \<open>remove_call\<close>, \<open>updateSdp\<close>, \<open>normalizeCallId\<close>. The search
    for a free identifier ends with the first free one; the registry's invariant.
  \<^item> \<open>Routing\<close> (\<open>routing.ts\<close>): URIs, hosts, the allow-list, the table of routes. The first match wins.
  \<^item> \<open>HttpContract\<close> (\<open>http-contract.ts\<close>): the actions an application answers with, valid and parsed back
    from what renders them.
  \<^item> \<open>ControlProtocol\<close> (\<open>control-protocol.ts\<close>): envelopes, errors, route registrations; accepted messages
    are well formed and what the gateway writes is read back.
  \<^item> \<open>ControlLog\<close> (\<open>control-log.ts\<close>): the field tables and the summaries. Noninterference: secrets and
    unknown fields influence a log line only through their type.
  \<^item> \<open>ControlHub\<close> (\<open>control-hub.ts\<close>): \<open>hub_step\<close>. Routes are unique across connections, every request is
    settled once and by the connection it was sent to, sequence numbers increase.
  \<^item> \<open>Commands\<close> (\<open>session-commands.ts\<close>): \<open>decode\<close> turns a method and its parameters into a \<open>command\<close>;
    it inverts what a client sends, accepts only valid commands and fails with the documented codes.
  \<^item> \<open>Lifecycle\<close> (\<open>gateway-lifecycle.ts\<close>): \<open>lifecycle_step\<close>; the locale \<open>admission\<close> is what the servers
    rely on. A drain completes exactly once.
  \<^item> \<open>ControlServer\<close> (\<open>control-server.ts\<close>): \<open>upgrade\<close>, \<open>handleRequest\<close>, \<open>commandDone\<close>. Each request is
    answered once; running requests hold a graceful stop.
  \<^item> \<open>EndpointCatalog\<close> (\<open>endpoint-catalog.ts\<close>): parsing and refreshing the catalog of media backends.
  \<^item> \<open>MediaServers\<close> (\<open>media-server-manager.ts\<close>): the pins of calls to backends, round robin, readiness; the
    locale \<open>backend_pins\<close>.
  \<^item> \<open>Transport\<close> (\<open>rtpbridge-transport.ts\<close>): secrets, signatures and the pool of TLS agents, which is
    bounded, loses no agent and evicts only idle ones.
  \<^item> \<open>RtpbridgeClient\<close> (\<open>rtpbridge-client.ts\<close>): \<open>rtp_step\<close>; requests settled once, key conversion that
    round-trips, exactly the messages that throw out of the socket handler.
  \<^item> \<open>MediaStore\<close>, \<open>MediaRuns\<close> (\<open>media-session-service.ts\<close>, the tables): \<open>store_step\<close> with its invariant;
    the refinement of a plain table of endpoints, symmetric bridges, nothing left of a dropped session.
  \<^item> \<open>MediaSessions\<close> (the same file, sessions): sensitive digits stay hidden, ICE configuration, set-up
    that cleans up, teardown by owner, recordings.
  \<^item> \<open>MediaRequests\<close> (the same file, requests about endpoints and \<open>playAndGather\<close>): the prompt is taken down
    exactly once.
  \<^item> \<open>MediaActions\<close> (the same file, long actions): digit collection equals its reference reading of the key
    presses, a leave-message action brackets what it starts and can always be cancelled.
  \<^item> \<open>Recordings\<close> (the same file, recordings): paths stay inside the root, URLs below the backend, listing
    is complete, merging is exact.
  \<^item> \<open>GatewayConfig\<close> (\<open>config.ts\<close>): \<open>loadConfig\<close>; bounds, and tokens and secrets where they are needed.
  \<^item> \<open>SipMessages\<close> (\<open>drachtio-gateway.ts\<close>, \<open>http-client.ts\<close>): what goes to applications, what they answer,
    the webhook client, log contexts.
  \<^item> \<open>Gateway\<close>, \<open>GatewayRuns\<close>, \<open>GatewayCalls\<close> (\<open>drachtio-gateway.ts\<close>): \<open>gateway_step\<close> over INVITEs, outbound
    attempts, calls and tasks. One final response to an INVITE, no lost reservations, one reply to an
    outbound request, cancelled attempts fail, the end of a call is reported once, the shutdown is
    complete, retries are bounded; and the call that outlives the connection of its owner.
  \<^item> \<open>HttpServer\<close> (\<open>http-server.ts\<close>): \<open>incoming\<close>, the route table \<open>http_routes\<close>, \<open>answer\<close>. Nothing runs
    without the token, path parameters win over the body, lookups agree with INVITEs, statuses agree
    with control error codes, each request is answered once and holds a graceful stop.
  \<^item> \<open>Wiring\<close> (\<open>index.ts\<close>): what counts as active; a graceful stop finds the whole process idle.

  \<^bold>\<open>Bounds, fuel and termination.\<close> \<open>find_candidate\<close> runs on \<open>reserve_fuel\<close>, one round more than there are
  identifiers in use, which \<open>fresh_candidate\<close> shows to be enough. The paging loop of a recordings backend is a
  \<open>partial_function\<close>: a server that never ends its pages keeps it going, and one that pages a finite list
  makes it return. The retry loop of \<open>waitForDrachtioEndpoint\<close> is run on the list of its rounds. All other
  recursion is structural or has a measure.

  \<^bold>\<open>Not modelled.\<close> The scripts under \<open>src/scripts\<close> drive end-to-end tests with Docker and real sockets and are
  not part of the gateway. \<open>logger.ts\<close> configures the logging library. Of \<open>index.ts\<close> the construction of the
  objects, the signal handlers and the order of the stop callback are wiring; \<open>media-controller.ts\<close>
  declares interfaces, of which the data types are used. Of \<open>drachtio-gateway.ts\<close> the tracking of follow-up
  deliveries by the lifecycle and the fallback answer 500 around the INVITE handler are left out, of
  \<open>http-server.ts\<close> listening and closing and the piping of a stream after its headers, of
  \<open>media-session-service.ts\<close> \<open>playTone\<close>, which nothing calls. Characters beyond Latin-1 are outside the
  model of strings.
\<close>

end
